(* ===== verification/Ohmcp_Prelude.thy ===== *)
theory Ohmcp_Prelude
  imports Main "HOL-Library.Word"
begin

text \<open>
  Shared vocabulary of the development: the machine types of the Rust code, the
  little-endian byte codec behind \<open>to_le_bytes\<close> and \<open>from_le_bytes\<close>, and the slices and
  block copies on byte vectors that the frame codec and the shared-memory ring use.

  A \<open>usize\<close> is a 64-bit quantity on the targets of the daemon; lengths and indices are
  \<open>nat\<close> here, and every narrowing cast of the source (\<open>as u32\<close>, \<open>as u64\<close>) is written out.
  A Rust \<open>String\<close> is its sequence of UTF-8 bytes, a \<open>char\<close> of HOL being one byte.
\<close>

type_synonym u8 = "8 word"
type_synonym u16 = "16 word"
type_synonym u32 = "32 word"
type_synonym u64 = "64 word"
type_synonym bytes = "8 word list"

named_theorems codec_simps \<open>length and round-trip facts of the byte codecs\<close>
named_theorems slice_simps \<open>facts about slices of byte vectors and block copies\<close>

subsection \<open>Arithmetic on 64-bit counters that does not wrap\<close>

lemma unat_of_nat_u64: "n < 2 ^ 64 \<Longrightarrow> unat (word_of_nat n :: u64) = n"
  by (simp add: unat_of_nat)

lemma unat_add_of_nat_u64:
  assumes "unat (w :: u64) + n < 2 ^ 64"
  shows "unat (w + word_of_nat n) = unat w + n"
proof -
  have "unat (word_of_nat n :: u64) = n" using assms by (intro unat_of_nat_u64) simp
  with assms unat_add_lem [of w "word_of_nat n"] show ?thesis by simp
qed

lemma of_nat_less_u64: "n < 2 ^ 64 \<Longrightarrow> word_of_nat n < (w :: u64) \<longleftrightarrow> n < unat w"
  by (simp add: word_less_nat_alt unat_of_nat)

subsection \<open>Little-endian integers\<close>

text \<open>The \<open>k\<close> low bytes of \<open>n\<close>, least significant first, and the number a byte list denotes.\<close>

fun le_encode :: "nat \<Rightarrow> nat \<Rightarrow> bytes" where
  "le_encode 0 n = []"
| "le_encode (Suc k) n = word_of_nat (n mod 256) # le_encode k (n div 256)"

fun le_decode :: "bytes \<Rightarrow> nat" where
  "le_decode [] = 0"
| "le_decode (b # bs) = unat b + 256 * le_decode bs"

lemma length_le_encode [simp, codec_simps]: "length (le_encode k n) = k"
  by (induction k arbitrary: n) simp_all

lemma unat_byte [simp]: "unat (word_of_nat (n mod 256) :: u8) = n mod 256"
  by (simp add: unat_of_nat)

lemma unat_less_power: "unat (w :: 'a::len word) < 2 ^ LENGTH('a)"
  by transfer (simp add: nat_less_iff)

lemma unat_byte_less: "unat (b :: u8) < 256"
  using unat_less_power [of b] by simp

lemma le_decode_encode [codec_simps]: "le_decode (le_encode k n) = n mod 256 ^ k"
proof (induction k arbitrary: n)
  case 0
  then show ?case by simp
next
  case (Suc k)
  have "n mod (256 * 256 ^ k) = 256 * (n div 256 mod 256 ^ k) + n mod 256"
    by (rule mod_mult2_eq)
  then show ?case using Suc by simp
qed

lemma le_encode_decode [codec_simps]: "le_encode (length bs) (le_decode bs) = bs"
proof (induction bs)
  case Nil
  then show ?case by simp
next
  case (Cons b bs)
  have "(unat b + 256 * le_decode bs) div 256 = le_decode bs"
    using unat_byte_less [of b] by simp
  moreover have "(unat b + 256 * le_decode bs) mod 256 = unat b"
    using unat_byte_less [of b] by simp
  ultimately show ?case using Cons by simp
qed

lemma le_decode_less: "le_decode bs < 256 ^ length bs"
proof (induction bs)
  case Nil
  then show ?case by simp
next
  case (Cons b bs)
  have "unat b + 256 * le_decode bs < 256 * (le_decode bs + 1)"
    using unat_byte_less [of b] by simp
  also have "\<dots> \<le> 256 * 256 ^ length bs"
    using Cons by (intro mult_le_mono2) simp
  finally show ?case by simp
qed

definition u16_to_le :: "u16 \<Rightarrow> bytes" where
  "u16_to_le w = le_encode 2 (unat w)"

definition u32_to_le :: "u32 \<Rightarrow> bytes" where
  "u32_to_le w = le_encode 4 (unat w)"

definition u64_to_le :: "u64 \<Rightarrow> bytes" where
  "u64_to_le w = le_encode 8 (unat w)"

definition u16_from_le :: "bytes \<Rightarrow> u16" where
  "u16_from_le bs = word_of_nat (le_decode bs)"

definition u32_from_le :: "bytes \<Rightarrow> u32" where
  "u32_from_le bs = word_of_nat (le_decode bs)"

definition u64_from_le :: "bytes \<Rightarrow> u64" where
  "u64_from_le bs = word_of_nat (le_decode bs)"

lemma length_to_le [simp, codec_simps]:
  "length (u16_to_le a) = 2" "length (u32_to_le b) = 4" "length (u64_to_le c) = 8"
  by (simp_all add: u16_to_le_def u32_to_le_def u64_to_le_def)

lemma u16_roundtrip [simp, codec_simps]: "u16_from_le (u16_to_le w) = w"
  using unat_less_power [of w] by (simp add: u16_from_le_def u16_to_le_def le_decode_encode)

lemma u32_roundtrip [simp, codec_simps]: "u32_from_le (u32_to_le w) = w"
  using unat_less_power [of w] by (simp add: u32_from_le_def u32_to_le_def le_decode_encode)

lemma u64_roundtrip [simp, codec_simps]: "u64_from_le (u64_to_le w) = w"
  using unat_less_power [of w] by (simp add: u64_from_le_def u64_to_le_def le_decode_encode)

lemma u16_to_from [codec_simps]: "length bs = 2 \<Longrightarrow> u16_to_le (u16_from_le bs) = bs"
  using le_decode_less [of bs] le_encode_decode [of bs]
  by (simp add: u16_from_le_def u16_to_le_def unat_of_nat)

lemma u32_to_from [codec_simps]: "length bs = 4 \<Longrightarrow> u32_to_le (u32_from_le bs) = bs"
  using le_decode_less [of bs] le_encode_decode [of bs]
  by (simp add: u32_from_le_def u32_to_le_def unat_of_nat)

lemma u64_to_from [codec_simps]: "length bs = 8 \<Longrightarrow> u64_to_le (u64_from_le bs) = bs"
  using le_decode_less [of bs] le_encode_decode [of bs]
  by (simp add: u64_from_le_def u64_to_le_def unat_of_nat)

subsection \<open>Slices and block copies\<close>

text \<open>
  \<open>slice xs i n\<close> is \<open>xs[i..i+n]\<close>; \<open>blit xs i d\<close> overwrites the bytes of \<open>xs\<close> at \<open>i\<close> with \<open>d\<close>
  (\<open>copy_nonoverlapping\<close> into the vector).
\<close>

definition slice :: "'a list \<Rightarrow> nat \<Rightarrow> nat \<Rightarrow> 'a list" where
  "slice xs i n = take n (drop i xs)"

definition blit :: "'a list \<Rightarrow> nat \<Rightarrow> 'a list \<Rightarrow> 'a list" where
  "blit xs i d = take i xs @ d @ drop (i + length d) xs"

lemma length_slice [slice_simps]: "length (slice xs i n) = min n (length xs - i)"
  by (auto simp: slice_def)

lemma length_blit [simp, slice_simps]:
  "i + length d \<le> length xs \<Longrightarrow> length (blit xs i d) = length xs"
  by (simp add: blit_def)

lemma nth_blit:
  assumes "i + length d \<le> length xs" "j < length xs"
  shows "blit xs i d ! j = (if i \<le> j \<and> j < i + length d then d ! (j - i) else xs ! j)"
proof -
  consider "j < i" | "i \<le> j" "j < i + length d" | "i + length d \<le> j" by linarith
  then show ?thesis
  proof cases
    case 1
    with assms show ?thesis by (simp add: blit_def nth_append)
  next
    case 2
    with assms show ?thesis by (auto simp: blit_def nth_append min_absorb2)
  next
    case 3
    with assms show ?thesis by (auto simp: blit_def nth_append min_absorb2)
  qed
qed

lemma slice_blit_same [slice_simps]:
  assumes "i + length d \<le> length xs"
  shows "slice (blit xs i d) i (length d) = d"
  using assms by (simp add: slice_def blit_def min_absorb2)

lemma slice_blit_disjoint [slice_simps]:
  assumes "i + length d \<le> length xs" "j + n \<le> length xs"
    and "i + length d \<le> j \<or> j + n \<le> i"
  shows "slice (blit xs i d) j n = slice xs j n"
proof (rule nth_equalityI)
  show "length (slice (blit xs i d) j n) = length (slice xs j n)"
    using assms by (simp add: slice_simps)
next
  fix k
  assume "k < length (slice (blit xs i d) j n)"
  then have "k < n" by (simp add: slice_def)
  with assms show "slice (blit xs i d) j n ! k = slice xs j n ! k"
    by (auto simp: slice_def nth_blit)
qed

subsection \<open>Strings as bytes\<close>

text \<open>\<open>str::as_bytes\<close>, and the string of a byte slice that is known to be one.\<close>

definition as_bytes :: "string \<Rightarrow> bytes" where
  "as_bytes s = map of_char s"

definition from_bytes :: "bytes \<Rightarrow> string" where
  "from_bytes bs = map (\<lambda>b. char_of (unat b)) bs"

lemma unat_of_char [simp]: "unat (of_char c :: u8) = of_char c"
proof -
  have "(of_char c :: u8) = word_of_nat (of_char c)" by (simp only: of_nat_of_char)
  then show ?thesis by (simp only: unat_of_nat) simp
qed

lemma from_as_bytes [simp, codec_simps]: "from_bytes (as_bytes s) = s"
  by (induction s) (simp_all add: from_bytes_def as_bytes_def)

lemma length_as_bytes [simp, codec_simps]: "length (as_bytes s) = length s"
  by (simp add: as_bytes_def)

lemma as_bytes_inj [simp]: "as_bytes s = as_bytes t \<longleftrightarrow> s = t"
  by (metis from_as_bytes)

lemma as_bytes_append [simp]: "as_bytes (s @ t) = as_bytes s @ as_bytes t"
  by (simp add: as_bytes_def)

subsection \<open>Panics\<close>

text \<open>The result of an expression that may panic.\<close>

datatype 'a ret = Panicked | Ret 'a

subsection \<open>Iterators\<close>

text \<open>\<open>min_by_key\<close> of an iterator: the first of the least elements.\<close>

fun min_by_key :: "('a \<Rightarrow> 'b::linorder) \<Rightarrow> 'a list \<Rightarrow> 'a option" where
  "min_by_key f [] = None"
| "min_by_key f (x # xs) =
     (case min_by_key f xs of None \<Rightarrow> Some x | Some y \<Rightarrow> Some (if f y < f x then y else x))"

lemma min_by_key_None [simp]: "min_by_key f xs = None \<longleftrightarrow> xs = []"
  by (cases xs) (auto split: option.splits)

lemma min_by_key_Some:
  "min_by_key f xs = Some x \<Longrightarrow> x \<in> set xs \<and> (\<forall>y \<in> set xs. f x \<le> f y)"
  by (induction xs arbitrary: x) (fastforce split: option.splits if_splits)+

end
