(* ===== verification/Core_Frame.thy ===== *)
theory Core_Frame
  imports Ohmcp_Prelude
begin

unbundle bit_operations_syntax

text \<open>
  The OHMF frame of \<open>ohmcp-core/src/frame.rs\<close> and the error type of \<open>ohmcp-core/src/lib.rs\<close>:
  flags, message types, the 17-byte header, \<open>Frame::encode\<close> and \<open>Frame::decode\<close>, with the
  laws a byte stream of frames rests on (round trip, soundness, incremental decoding).
\<close>

section \<open>Errors and constants\<close>

text \<open>\<open>CoreError\<close>; a \<open>serde_json::Error\<close> is kept as its message.\<close>

datatype core_error =
    BadMagic
  | BadVersion u8
  | FrameTooLarge u32
  | Incomplete
  | Codec string
  | Json string

text \<open>A number in decimal, as \<open>Display\<close> writes it.\<close>

fun fmt_dec :: "nat \<Rightarrow> string" where
  "fmt_dec n = (if n < 10 then [''0123456789'' ! n] else fmt_dec (n div 10) @ [''0123456789'' ! (n mod 10)])"

declare fmt_dec.simps [simp del]

text \<open>The \<open>Display\<close> of the error type.\<close>

fun core_error_text :: "core_error \<Rightarrow> string" where
  "core_error_text BadMagic = ''invalid frame magic''"
| "core_error_text (BadVersion v) = ''unsupported protocol version '' @ fmt_dec (unat v)"
| "core_error_text (FrameTooLarge n) = ''frame too large: '' @ fmt_dec (unat n) @ '' bytes''"
| "core_error_text Incomplete = ''incomplete frame''"
| "core_error_text (Codec m) = ''codec error: '' @ m"
| "core_error_text (Json m) = ''json error: '' @ m"

definition FRAME_MAGIC :: u16 where "FRAME_MAGIC = 0x4F4D"
definition PROTOCOL_VERSION :: u8 where "PROTOCOL_VERSION = 1"
definition HEADER_LEN :: nat where "HEADER_LEN = 17"
definition MAX_FRAME_LEN :: u32 where "MAX_FRAME_LEN = 64 * 1024 * 1024"

lemma MAX_FRAME_LEN_unat: "unat MAX_FRAME_LEN = 67108864"
  by (simp add: MAX_FRAME_LEN_def)

section \<open>Flags\<close>

text \<open>\<open>FrameFlags(pub u8)\<close> is its byte.\<close>

type_synonym frame_flags = u8

definition FLAG_NONE :: frame_flags where "FLAG_NONE = 0"
definition COMPRESSED :: u8 where "COMPRESSED = 0b00000001"
definition ENCRYPTED :: u8 where "ENCRYPTED = 0b00000010"
definition CACHE_REF :: u8 where "CACHE_REF = 0b00000100"
definition CACHEABLE :: u8 where "CACHEABLE = 0b00001000"
definition SHM_REF :: u8 where "SHM_REF = 0b00010000"

lemmas flag_defs = FLAG_NONE_def COMPRESSED_def ENCRYPTED_def CACHE_REF_def CACHEABLE_def SHM_REF_def

definition compressed :: "frame_flags \<Rightarrow> bool" where "compressed f \<longleftrightarrow> f AND COMPRESSED \<noteq> 0"
definition encrypted :: "frame_flags \<Rightarrow> bool" where "encrypted f \<longleftrightarrow> f AND ENCRYPTED \<noteq> 0"
definition cache_ref :: "frame_flags \<Rightarrow> bool" where "cache_ref f \<longleftrightarrow> f AND CACHE_REF \<noteq> 0"
definition cacheable :: "frame_flags \<Rightarrow> bool" where "cacheable f \<longleftrightarrow> f AND CACHEABLE \<noteq> 0"
definition shm_ref :: "frame_flags \<Rightarrow> bool" where "shm_ref f \<longleftrightarrow> f AND SHM_REF \<noteq> 0"

lemma flag_bit_tests:
  "compressed f \<longleftrightarrow> bit f 0" "encrypted f \<longleftrightarrow> bit f 1" "cache_ref f \<longleftrightarrow> bit f 2"
  "cacheable f \<longleftrightarrow> bit f 3" "shm_ref f \<longleftrightarrow> bit f 4"
proof -
  have and_pow: "(f AND 2 ^ n \<noteq> 0) = bit f n" if "n < 8" for n
    using that by (simp add: bit_iff_and_push_bit_not_eq_0 push_bit_eq_mult)
  show "compressed f \<longleftrightarrow> bit f 0" "encrypted f \<longleftrightarrow> bit f 1" "cache_ref f \<longleftrightarrow> bit f 2"
    "cacheable f \<longleftrightarrow> bit f 3" "shm_ref f \<longleftrightarrow> bit f 4"
    using and_pow [of 0] and_pow [of 1] and_pow [of 2] and_pow [of 3] and_pow [of 4]
    by (simp_all add: compressed_def encrypted_def cache_ref_def cacheable_def shm_ref_def flag_defs)
qed

text \<open>Setting or clearing one flag leaves the others as they are.\<close>

lemma flag_or_bits:
  "bit COMPRESSED n \<longleftrightarrow> n = 0" "bit ENCRYPTED n \<longleftrightarrow> n = 1" "bit CACHE_REF n \<longleftrightarrow> n = 2"
  "bit CACHEABLE n \<longleftrightarrow> n = 3" "bit SHM_REF n \<longleftrightarrow> n = 4"
proof -
  have exp: "bit (2 ^ m :: u8) n \<longleftrightarrow> m = n" if "m < 8" for m
    using that by (auto simp: bit_exp_iff)
  show "bit COMPRESSED n \<longleftrightarrow> n = 0" "bit ENCRYPTED n \<longleftrightarrow> n = 1" "bit CACHE_REF n \<longleftrightarrow> n = 2"
    "bit CACHEABLE n \<longleftrightarrow> n = 3" "bit SHM_REF n \<longleftrightarrow> n = 4"
    using exp [of 0] exp [of 1] exp [of 2] exp [of 3] exp [of 4]
    by (auto simp: flag_defs)
qed

lemmas flag_bits = flag_bit_tests flag_or_bits bit_or_iff bit_and_iff bit_not_iff

section \<open>Message types\<close>

datatype msg_type =
    Initialize | InitializeResult | ListTools | ListToolsResult | CallTool | CallToolResult
  | Ping | Pong | Auth | AuthResult | ShmSetup | ShmSetupResult
  | ListResources | ListResourcesResult | ReadResource | ReadResourceResult
  | ListPrompts | ListPromptsResult | GetPrompt | GetPromptResult
  | Cancel | Progress | SubscribeResource | SubscribeResourceResult | UnsubscribeResource
  | ResourceUpdated | ResourceListChanged | Error

text \<open>\<open>msg_type as u8\<close>: the discriminants.\<close>

fun msg_type_to_u8 :: "msg_type \<Rightarrow> u8" where
  "msg_type_to_u8 Initialize = 0x01"
| "msg_type_to_u8 InitializeResult = 0x02"
| "msg_type_to_u8 ListTools = 0x03"
| "msg_type_to_u8 ListToolsResult = 0x04"
| "msg_type_to_u8 CallTool = 0x05"
| "msg_type_to_u8 CallToolResult = 0x06"
| "msg_type_to_u8 Ping = 0x07"
| "msg_type_to_u8 Pong = 0x08"
| "msg_type_to_u8 Auth = 0x09"
| "msg_type_to_u8 AuthResult = 0x0A"
| "msg_type_to_u8 ShmSetup = 0x0B"
| "msg_type_to_u8 ShmSetupResult = 0x0C"
| "msg_type_to_u8 ListResources = 0x0D"
| "msg_type_to_u8 ListResourcesResult = 0x0E"
| "msg_type_to_u8 ReadResource = 0x0F"
| "msg_type_to_u8 ReadResourceResult = 0x10"
| "msg_type_to_u8 ListPrompts = 0x11"
| "msg_type_to_u8 ListPromptsResult = 0x12"
| "msg_type_to_u8 GetPrompt = 0x13"
| "msg_type_to_u8 GetPromptResult = 0x14"
| "msg_type_to_u8 Cancel = 0x15"
| "msg_type_to_u8 Progress = 0x16"
| "msg_type_to_u8 SubscribeResource = 0x17"
| "msg_type_to_u8 SubscribeResourceResult = 0x18"
| "msg_type_to_u8 UnsubscribeResource = 0x19"
| "msg_type_to_u8 ResourceUpdated = 0x1A"
| "msg_type_to_u8 ResourceListChanged = 0x1B"
| "msg_type_to_u8 Error = 0x7F"

text \<open>The text \<open>format!("{other:#x}")\<close> gives for a byte: no leading zero.\<close>

definition hex_digit :: "nat \<Rightarrow> char" where
  "hex_digit n = ''0123456789abcdef'' ! n"

definition fmt_hex_alt :: "u8 \<Rightarrow> string" where
  "fmt_hex_alt v = ''0x'' @
     (if unat v < 16 then [hex_digit (unat v)]
      else [hex_digit (unat v div 16), hex_digit (unat v mod 16)])"

definition msg_type_from_u8 :: "u8 \<Rightarrow> core_error + msg_type" where
  "msg_type_from_u8 v =
     (if v = 0x01 then Inr Initialize
      else if v = 0x02 then Inr InitializeResult
      else if v = 0x03 then Inr ListTools
      else if v = 0x04 then Inr ListToolsResult
      else if v = 0x05 then Inr CallTool
      else if v = 0x06 then Inr CallToolResult
      else if v = 0x07 then Inr Ping
      else if v = 0x08 then Inr Pong
      else if v = 0x09 then Inr Auth
      else if v = 0x0A then Inr AuthResult
      else if v = 0x0B then Inr ShmSetup
      else if v = 0x0C then Inr ShmSetupResult
      else if v = 0x0D then Inr ListResources
      else if v = 0x0E then Inr ListResourcesResult
      else if v = 0x0F then Inr ReadResource
      else if v = 0x10 then Inr ReadResourceResult
      else if v = 0x11 then Inr ListPrompts
      else if v = 0x12 then Inr ListPromptsResult
      else if v = 0x13 then Inr GetPrompt
      else if v = 0x14 then Inr GetPromptResult
      else if v = 0x15 then Inr Cancel
      else if v = 0x16 then Inr Progress
      else if v = 0x17 then Inr SubscribeResource
      else if v = 0x18 then Inr SubscribeResourceResult
      else if v = 0x19 then Inr UnsubscribeResource
      else if v = 0x1A then Inr ResourceUpdated
      else if v = 0x1B then Inr ResourceListChanged
      else if v = 0x7F then Inr Error
      else Inl (Codec (''unknown msg type '' @ fmt_hex_alt v)))"

lemma msg_type_from_to [codec_simps]: "msg_type_from_u8 (msg_type_to_u8 t) = Inr t"
  by (cases t) (simp_all add: msg_type_from_u8_def)

lemma msg_type_from_u8_Inr [codec_simps]: "msg_type_from_u8 v = Inr t \<longleftrightarrow> v = msg_type_to_u8 t"
proof
  assume "msg_type_from_u8 v = Inr t"
  then show "v = msg_type_to_u8 t"
    by (auto simp: msg_type_from_u8_def split: if_splits)
qed (simp add: msg_type_from_to)

lemma msg_type_from_u8_Inl:
  "msg_type_from_u8 v = Inl e \<Longrightarrow> e = Codec (''unknown msg type '' @ fmt_hex_alt v)"
  by (simp add: msg_type_from_u8_def split: if_splits)

lemma msg_type_to_u8_inj [simp]: "msg_type_to_u8 s = msg_type_to_u8 t \<longleftrightarrow> s = t"
  by (metis msg_type_from_to sum.inject(2))

section \<open>Frames\<close>

record frame_header =
  flags :: frame_flags
  msg_type :: msg_type
  request_id :: u64
  payload_len :: u32

record frame =
  header :: frame_header
  payload :: bytes

text \<open>\<open>payload.len() as u32\<close> keeps the low 32 bits of the length.\<close>

definition len_u32 :: "bytes \<Rightarrow> u32" where
  "len_u32 p = word_of_nat (length p)"

definition frame_new :: "msg_type \<Rightarrow> u64 \<Rightarrow> bytes \<Rightarrow> frame" where
  "frame_new t i p =
     \<lparr>header = \<lparr>flags = FLAG_NONE, msg_type = t, request_id = i, payload_len = len_u32 p\<rparr>,
      payload = p\<rparr>"

text \<open>\<open>Frame::encode\<close> appends to the output buffer; the bytes it appends:\<close>

definition encode_header :: "frame \<Rightarrow> bytes" where
  "encode_header f =
     u16_to_le FRAME_MAGIC @ [PROTOCOL_VERSION, flags (header f), msg_type_to_u8 (msg_type (header f))]
     @ u64_to_le (request_id (header f)) @ u32_to_le (len_u32 (payload f))"

definition encode :: "frame \<Rightarrow> bytes \<Rightarrow> bytes" where
  "encode f buf = buf @ encode_header f @ payload f"

definition wire :: "frame \<Rightarrow> bytes" where
  "wire f = encode f []"

text \<open>
  \<open>Frame::decode\<close>: the result and the buffer it leaves. The buffer is consumed only when a
  whole frame is returned.
\<close>

definition decode :: "bytes \<Rightarrow> (core_error + frame option) \<times> bytes" where
  "decode buf =
     (if length buf < HEADER_LEN then (Inr None, buf)
      else if u16_from_le [buf ! 0, buf ! 1] \<noteq> FRAME_MAGIC then (Inl BadMagic, buf)
      else if buf ! 2 \<noteq> PROTOCOL_VERSION then (Inl (BadVersion (buf ! 2)), buf)
      else let plen = u32_from_le [buf ! 13, buf ! 14, buf ! 15, buf ! 16] in
        if MAX_FRAME_LEN < plen then (Inl (FrameTooLarge plen), buf)
        else if length buf < HEADER_LEN + unat plen then (Inr None, buf)
        else case msg_type_from_u8 (buf ! 4) of
            Inl e \<Rightarrow> (Inl e, buf)
          | Inr t \<Rightarrow>
              (Inr (Some
                 \<lparr>header = \<lparr>flags = buf ! 3, msg_type = t,
                    request_id = u64_from_le [buf ! 5, buf ! 6, buf ! 7, buf ! 8, buf ! 9,
                                              buf ! 10, buf ! 11, buf ! 12],
                    payload_len = plen\<rparr>,
                  payload = take (unat plen) (drop HEADER_LEN buf)\<rparr>),
               drop (unat plen) (drop HEADER_LEN buf)))"

section \<open>Laws of the codec\<close>

text \<open>A frame the decoder can return: its payload is within the limit and its length field true.\<close>

definition frame_ok :: "frame \<Rightarrow> bool" where
  "frame_ok f \<longleftrightarrow> length (payload f) \<le> unat MAX_FRAME_LEN
     \<and> payload_len (header f) = len_u32 (payload f)"

lemma length_encode_header [simp, codec_simps]: "length (encode_header f) = HEADER_LEN"
  by (simp add: encode_header_def HEADER_LEN_def)

lemma wire_eq: "wire f = encode_header f @ payload f"
  by (simp add: wire_def encode_def)

lemma encode_wire: "encode f buf = buf @ wire f"
  by (simp add: wire_def encode_def)

lemma length_wire [codec_simps]: "length (wire f) = HEADER_LEN + length (payload f)"
  by (simp add: wire_eq)

lemma unat_len_u32: "length p < 2 ^ 32 \<Longrightarrow> unat (len_u32 p) = length p"
  by (simp add: len_u32_def unat_of_nat)

lemma split_bytes:
  assumes "length bs = Suc n"
  obtains b bs' where "bs = b # bs'" "length bs' = n"
  using assms by (cases bs) auto

lemma u16_bytes: "u16_to_le w = [u16_to_le w ! 0, u16_to_le w ! 1]"
  by (rule nth_equalityI) (auto simp: less_Suc_eq numeral_eq_Suc)

lemma u32_bytes: "u32_to_le w = [u32_to_le w ! 0, u32_to_le w ! 1, u32_to_le w ! 2, u32_to_le w ! 3]"
  by (rule nth_equalityI) (auto simp: less_Suc_eq numeral_eq_Suc)

lemma u64_bytes:
  "u64_to_le w = [u64_to_le w ! 0, u64_to_le w ! 1, u64_to_le w ! 2, u64_to_le w ! 3,
                  u64_to_le w ! 4, u64_to_le w ! 5, u64_to_le w ! 6, u64_to_le w ! 7]"
  by (rule nth_equalityI) (auto simp: less_Suc_eq numeral_eq_Suc)

text \<open>The decoder on a buffer that starts with the header of a frame, field by field.\<close>

lemma decode_encoded_header:
  "decode (encode_header f @ body) =
     (if MAX_FRAME_LEN < len_u32 (payload f)
      then (Inl (FrameTooLarge (len_u32 (payload f))), encode_header f @ body)
      else if length body < unat (len_u32 (payload f)) then (Inr None, encode_header f @ body)
      else (Inr (Some \<lparr>header = (header f)\<lparr>payload_len := len_u32 (payload f)\<rparr>,
                       payload = take (unat (len_u32 (payload f))) body\<rparr>),
            drop (unat (len_u32 (payload f))) body))"
proof -
  let ?m = "u16_to_le FRAME_MAGIC" and ?r = "u64_to_le (request_id (header f))"
    and ?l = "u32_to_le (len_u32 (payload f))"
  let ?bs = "[?m ! 0, ?m ! 1, PROTOCOL_VERSION, flags (header f), msg_type_to_u8 (msg_type (header f)),
      ?r ! 0, ?r ! 1, ?r ! 2, ?r ! 3, ?r ! 4, ?r ! 5, ?r ! 6, ?r ! 7, ?l ! 0, ?l ! 1, ?l ! 2, ?l ! 3]"
  have h: "encode_header f = ?bs"
    by (subst encode_header_def, subst u16_bytes, subst u64_bytes, subst u32_bytes) simp
  have l17: "length ?bs = HEADER_LEN" by (simp add: HEADER_LEN_def)
  have m: "u16_from_le [?m ! 0, ?m ! 1] = FRAME_MAGIC"
    by (metis u16_bytes u16_roundtrip)
  have l: "u32_from_le [?l ! 0, ?l ! 1, ?l ! 2, ?l ! 3] = len_u32 (payload f)"
    by (metis u32_bytes u32_roundtrip)
  have r: "u64_from_le [?r ! 0, ?r ! 1, ?r ! 2, ?r ! 3, ?r ! 4, ?r ! 5, ?r ! 6, ?r ! 7]
      = request_id (header f)"
    by (metis u64_bytes u64_roundtrip)
  have d: "drop HEADER_LEN (?bs @ body) = body" "length (?bs @ body) = HEADER_LEN + length body"
    by (simp_all add: HEADER_LEN_def)
  show ?thesis
    unfolding h decode_def d Let_def
    by (simp add: m [unfolded One_nat_def] l [unfolded One_nat_def] r [unfolded One_nat_def]
        msg_type_from_to)
qed

lemma decode_wire:
  assumes "length (payload f) \<le> unat MAX_FRAME_LEN"
  shows "decode (wire f @ rest) =
    (Inr (Some (f\<lparr>header := (header f)\<lparr>payload_len := len_u32 (payload f)\<rparr>\<rparr>)), rest)"
proof -
  have "unat (len_u32 (payload f)) = length (payload f)"
    using assms by (intro unat_len_u32) (simp add: MAX_FRAME_LEN_unat)
  moreover from this assms have "\<not> MAX_FRAME_LEN < len_u32 (payload f)"
    by (simp add: word_less_nat_alt)
  ultimately show ?thesis
    by (simp add: wire_eq decode_encoded_header)
qed

lemma decode_wire_ok: "frame_ok f \<Longrightarrow> decode (wire f @ rest) = (Inr (Some f), rest)"
  by (subst decode_wire) (auto simp: frame_ok_def)

text \<open>Conversely, whatever the decoder returns is exactly what it consumed.\<close>

lemma nth_header_split:
  assumes "HEADER_LEN \<le> length buf"
  shows "buf = [buf ! 0, buf ! 1, buf ! 2, buf ! 3, buf ! 4, buf ! 5, buf ! 6, buf ! 7, buf ! 8,
      buf ! 9, buf ! 10, buf ! 11, buf ! 12, buf ! 13, buf ! 14, buf ! 15, buf ! 16]
      @ drop HEADER_LEN buf"
proof -
  have "take 17 buf = map ((!) buf) [0..<17]"
    using assms by (intro nth_equalityI) (auto simp: HEADER_LEN_def)
  also have "\<dots> = [buf ! 0, buf ! 1, buf ! 2, buf ! 3, buf ! 4, buf ! 5, buf ! 6, buf ! 7, buf ! 8,
      buf ! 9, buf ! 10, buf ! 11, buf ! 12, buf ! 13, buf ! 14, buf ! 15, buf ! 16]"
    by (simp add: upt_rec numeral_eq_Suc)
  finally show ?thesis
    by (metis HEADER_LEN_def append_take_drop_id)
qed

lemma decode_Some:
  assumes "decode buf = (Inr (Some f), rest)"
  shows "buf = wire f @ rest" "frame_ok f"
proof -
  let ?plen = "u32_from_le [buf ! 13, buf ! 14, buf ! 15, buf ! 16]"
  have len: "HEADER_LEN \<le> length buf" and magic: "u16_from_le [buf ! 0, buf ! 1] = FRAME_MAGIC"
    and ver: "buf ! 2 = PROTOCOL_VERSION" and small: "\<not> MAX_FRAME_LEN < ?plen"
    and whole: "HEADER_LEN + unat ?plen \<le> length buf"
    using assms by (auto simp: decode_def Let_def split: if_splits)
  from assms len magic ver small whole obtain t where t: "msg_type_from_u8 (buf ! 4) = Inr t"
    by (auto simp: decode_def Let_def split: sum.splits)
  have f: "f = \<lparr>header = \<lparr>flags = buf ! 3, msg_type = t,
        request_id = u64_from_le [buf ! 5, buf ! 6, buf ! 7, buf ! 8, buf ! 9, buf ! 10, buf ! 11, buf ! 12],
        payload_len = ?plen\<rparr>, payload = take (unat ?plen) (drop HEADER_LEN buf)\<rparr>"
    and rest: "rest = drop (unat ?plen) (drop HEADER_LEN buf)"
    using assms len magic ver small whole t by (auto simp: decode_def Let_def)
  have plen: "length (payload f) = unat ?plen"
    using whole by (simp add: f)
  then have l: "len_u32 (payload f) = ?plen" by (simp add: len_u32_def)
  show "frame_ok f"
    using small plen l by (simp add: frame_ok_def f word_less_nat_alt)
  have "encode_header f = [buf ! 0, buf ! 1, buf ! 2, buf ! 3, buf ! 4, buf ! 5, buf ! 6, buf ! 7,
      buf ! 8, buf ! 9, buf ! 10, buf ! 11, buf ! 12, buf ! 13, buf ! 14, buf ! 15, buf ! 16]"
    using t unfolding encode_header_def l
    by (simp add: f ver magic [symmetric] u16_to_from u32_to_from u64_to_from msg_type_from_u8_Inr)
  then have "encode_header f @ drop HEADER_LEN buf = buf"
    using nth_header_split [OF len] by simp
  moreover have "payload f @ rest = drop HEADER_LEN buf"
    by (simp only: f rest frame.simps append_take_drop_id)
  ultimately show "buf = wire f @ rest"
    by (simp add: wire_eq)
qed

lemma decode_Some_iff: "decode buf = (Inr (Some f), rest) \<longleftrightarrow> frame_ok f \<and> buf = wire f @ rest"
  by (auto dest: decode_Some simp: decode_wire_ok)

text \<open>A result that is not a whole frame leaves the buffer as it was.\<close>

lemma decode_keeps_buffer: "decode buf = (r, buf') \<Longrightarrow> \<forall>f. r \<noteq> Inr (Some f) \<Longrightarrow> buf' = buf"
  by (auto simp: decode_def Let_def split: if_splits sum.splits)

text \<open>An answer given on a prefix of the stream does not change when more bytes arrive.\<close>

lemma decode_append_Some:
  "decode buf = (Inr (Some f), rest) \<Longrightarrow> decode (buf @ nxt) = (Inr (Some f), rest @ nxt)"
  by (auto simp: decode_Some_iff)

lemma decode_append_Inl: "decode buf = (Inl e, buf') \<Longrightarrow> decode (buf @ nxt) = (Inl e, buf @ nxt)"
proof -
  assume d: "decode buf = (Inl e, buf')"
  then have len: "HEADER_LEN \<le> length buf"
    by (auto simp: decode_def split: if_splits)
  have nth: "(buf @ nxt) ! k = buf ! k" if "k < HEADER_LEN" for k
    using that len by (simp add: nth_append)
  from d len show ?thesis
    unfolding decode_def Let_def
    by (auto simp: nth HEADER_LEN_def split: if_splits sum.splits)
qed

text \<open>A proper prefix of a frame is not yet a frame, and not an error.\<close>

lemma decode_prefix_None:
  assumes "frame_ok f" "k < length (wire f)"
  shows "decode (take k (wire f)) = (Inr None, take k (wire f))"
proof -
  let ?p = "take k (wire f)"
  obtain r b where d: "decode ?p = (r, b)" by fastforce
  have w: "decode (?p @ drop k (wire f)) = (Inr (Some f), [])"
    using decode_wire_ok [OF assms(1), of "[]"] by simp
  show ?thesis
  proof (cases r)
    case (Inl e)
    have "decode (?p @ drop k (wire f)) = (Inl e, ?p @ drop k (wire f))"
      using d Inl by (intro decode_append_Inl) simp
    with w show ?thesis by simp
  next
    case (Inr fo)
    show ?thesis
    proof (cases fo)
      case None
      with d Inr decode_keeps_buffer show ?thesis by fastforce
    next
      case (Some g)
      with d Inr decode_append_Some [of ?p g b "drop k (wire f)"] w
      have "b @ drop k (wire f) = []" by simp
      with assms(2) show ?thesis by simp
    qed
  qed
qed

text \<open>The decoder never asks for more than a header and the largest payload.\<close>

lemma decode_None_short:
  assumes "decode buf = (Inr None, buf')"
  shows "length buf < HEADER_LEN + unat MAX_FRAME_LEN"
proof -
  let ?plen = "u32_from_le [buf ! 13, buf ! 14, buf ! 15, buf ! 16]"
  from assms consider "length buf < HEADER_LEN"
    | "\<not> MAX_FRAME_LEN < ?plen" "length buf < HEADER_LEN + unat ?plen"
    by (auto simp: decode_def Let_def split: if_splits sum.splits)
  then show ?thesis
    by cases (auto simp: word_less_nat_alt)
qed

text \<open>A payload over the limit is encoded without complaint and refused by the receiver.\<close>

lemma decode_oversized:
  assumes "unat MAX_FRAME_LEN < length (payload f)" "length (payload f) < 2 ^ 32"
  shows "decode (wire f @ rest) = (Inl (FrameTooLarge (len_u32 (payload f))), wire f @ rest)"
  using assms by (simp add: wire_eq decode_encoded_header word_less_nat_alt unat_len_u32)

section \<open>Properties\<close>

text \<open>C1. The decoder returns a frame exactly when the buffer starts with that frame's encoding and
  the frame is one that may travel (true length field, payload within the limit); what it leaves
  in the buffer is exactly the rest. So decoding inverts encoding, and nothing else decodes.\<close>

theorem frame_codec_exact: "decode buf = (Inr (Some f), rest) \<longleftrightarrow> frame_ok f \<and> buf = wire f @ rest"
  by (rule decode_Some_iff)

text \<open>An answer other than \<open>not yet\<close> is final: whatever bytes arrive later, the decoder gives the same
  frame or the same error, and leaves the later bytes behind.\<close>

lemma decode_answer_final:
  assumes "decode buf = (r, buf')" "r \<noteq> Inr None"
  shows "decode (buf @ nxt) = (r, buf' @ nxt)"
proof (cases r)
  case (Inl err)
  with assms(1) decode_keeps_buffer have "buf' = buf" by fastforce
  with assms(1) Inl decode_append_Inl show ?thesis by simp
next
  case (Inr fo)
  with assms obtain f where "r = Inr (Some f)" by (cases fo) auto
  with assms(1) decode_append_Some show ?thesis by simp
qed

text \<open>On every proper prefix of a frame the decoder asks for more and touches nothing; it never
  waits for more than a header and the largest payload.\<close>

lemma decode_waits_on_prefix:
  assumes "frame_ok f" "k < length (wire f)"
  shows "decode (take k (wire f)) = (Inr None, take k (wire f)) \<and> k < HEADER_LEN + unat MAX_FRAME_LEN"
  using decode_prefix_None [OF assms] assms by (simp add: length_wire frame_ok_def)

text \<open>Encoding does not check the frame limit: a payload over it is written out, and every receiver
  refuses it with \<open>FrameTooLarge\<close> and its length.\<close>

lemma oversized_frame_refused:
  assumes "unat MAX_FRAME_LEN < length p" "length p < 2 ^ 32"
  shows "decode (wire (frame_new t i p) @ rest) =
    (Inl (FrameTooLarge (word_of_nat (length p))), wire (frame_new t i p) @ rest)"
  using decode_oversized [of "frame_new t i p" rest] assms by (simp add: frame_new_def len_u32_def)

text \<open>The byte codes of the message types: a byte is accepted as a type exactly when it is that
  type's code, and every other byte is refused with an error that names it.\<close>

lemma msg_type_codes:
  "(msg_type_from_u8 v = Inr t \<longleftrightarrow> v = msg_type_to_u8 t)
   \<and> (msg_type_from_u8 v = Inl err \<longleftrightarrow>
        v \<notin> range msg_type_to_u8 \<and> err = Codec (''unknown msg type '' @ fmt_hex_alt v))"
proof -
  have "v \<notin> range msg_type_to_u8" if "msg_type_from_u8 v = Inl err" for err
    using that by (auto simp: msg_type_from_to)
  moreover have "msg_type_from_u8 v = Inl (Codec (''unknown msg type '' @ fmt_hex_alt v))"
    if "v \<notin> range msg_type_to_u8"
    using that msg_type_from_u8_Inl by (cases "msg_type_from_u8 v") (auto simp: msg_type_from_u8_Inr)
  ultimately show ?thesis
    using msg_type_from_u8_Inl by (auto simp: msg_type_from_u8_Inr)
qed

end
