(* ===== verification/Transport_Io.thy ===== *)
theory Transport_Io
  imports Core_Frame
begin

text \<open>
  Framed reading and writing, \<open>ohmcp-transport/src/lib.rs\<close>: \<open>FrameReader\<close> and \<open>FrameWriter\<close>
  over an asynchronous byte stream. What the socket answers to each call is a list of events;
  a call that has to wait when the list is used up is \<open>Pending\<close>, and leaves the reader in the
  state the next poll resumes from.
\<close>

section \<open>Polls and the events of the underlying stream\<close>

datatype 'a poll = Pending | Ready 'a

text \<open>The outcome of one \<open>read_buf\<close>: the bytes it appended (none at end of file) or an error.\<close>

datatype io_event = Bytes bytes | Io_error string

text \<open>The outcome of one \<open>write_all\<close>: everything, or an error after a prefix.\<close>

datatype write_outcome = Wrote_all | Write_failed nat string

section \<open>FrameReader\<close>

record reader =
  rbuf :: bytes
  bytes_read :: u64

definition reader_new :: reader where
  "reader_new = \<lparr>rbuf = [], bytes_read = 0\<rparr>"

text \<open>The loop of \<open>next_frame\<close>, over the decoder it calls and the events of the stream.\<close>

fun read_loop ::
  "(bytes \<Rightarrow> (core_error + 'f option) \<times> bytes) \<Rightarrow> reader \<Rightarrow> io_event list
   \<Rightarrow> (core_error + 'f option) poll \<times> reader \<times> io_event list" where
  "read_loop dec r [] =
     (case dec (rbuf r) of
        (Inl e, b) \<Rightarrow> (Ready (Inl e), r\<lparr>rbuf := b\<rparr>, [])
      | (Inr (Some f), b) \<Rightarrow> (Ready (Inr (Some f)), r\<lparr>rbuf := b\<rparr>, [])
      | (Inr None, b) \<Rightarrow> (Pending, r\<lparr>rbuf := b\<rparr>, []))"
| "read_loop dec r (ev # evs) =
     (case dec (rbuf r) of
        (Inl e, b) \<Rightarrow> (Ready (Inl e), r\<lparr>rbuf := b\<rparr>, ev # evs)
      | (Inr (Some f), b) \<Rightarrow> (Ready (Inr (Some f)), r\<lparr>rbuf := b\<rparr>, ev # evs)
      | (Inr None, b) \<Rightarrow>
          (case ev of
             Io_error s \<Rightarrow> (Ready (Inl (Codec s)), r\<lparr>rbuf := b\<rparr>, evs)
           | Bytes d \<Rightarrow>
               let r' = r\<lparr>rbuf := b @ d, bytes_read := bytes_read r + word_of_nat (length d)\<rparr>
               in if d = []
                  then (Ready (if rbuf r' = [] then Inr None else Inl Incomplete), r', evs)
                  else read_loop dec r' evs))"

definition next_frame ::
  "reader \<Rightarrow> io_event list \<Rightarrow> (core_error + frame option) poll \<times> reader \<times> io_event list" where
  "next_frame = read_loop decode"

definition next_buffered :: "reader \<Rightarrow> (core_error + frame option) \<times> reader" where
  "next_buffered r = (case decode (rbuf r) of (res, b) \<Rightarrow> (res, r\<lparr>rbuf := b\<rparr>))"

text \<open>The results of \<open>n\<close> calls in a row.\<close>

fun read_frames ::
  "(bytes \<Rightarrow> (core_error + 'f option) \<times> bytes) \<Rightarrow> nat \<Rightarrow> reader \<Rightarrow> io_event list
   \<Rightarrow> (core_error + 'f option) poll list \<times> reader \<times> io_event list" where
  "read_frames dec 0 r evs = ([], r, evs)"
| "read_frames dec (Suc n) r evs =
     (case read_loop dec r evs of (p, r', evs') \<Rightarrow>
        case read_frames dec n r' evs' of (ps, r'', evs'') \<Rightarrow> (p # ps, r'', evs''))"

section \<open>FrameWriter\<close>

record writer =
  wbuf :: bytes
  bytes_written :: u64

definition writer_new :: writer where
  "writer_new = \<lparr>wbuf = [], bytes_written = 0\<rparr>"

definition queue :: "frame \<Rightarrow> writer \<Rightarrow> writer" where
  "queue f w = w\<lparr>wbuf := encode f (wbuf w)\<rparr>"

text \<open>\<open>flush\<close>: its result, the writer it leaves and the bytes that reached the stream.\<close>

definition flush :: "writer \<Rightarrow> write_outcome \<Rightarrow> (core_error + unit) \<times> writer \<times> bytes" where
  "flush w out =
     (if wbuf w = [] then (Inr (), w, [])
      else case out of
          Write_failed n s \<Rightarrow> (Inl (Codec s), w, take n (wbuf w))
        | Wrote_all \<Rightarrow>
            (Inr (), w\<lparr>wbuf := [], bytes_written := bytes_written w + word_of_nat (length (wbuf w))\<rparr>,
             wbuf w))"

definition send :: "frame \<Rightarrow> writer \<Rightarrow> write_outcome \<Rightarrow> (core_error + unit) \<times> writer \<times> bytes" where
  "send f w out = flush (queue f w) out"

section \<open>Reading a stream, from the laws of a codec alone\<close>

text \<open>
  The interface the reader relies on: an encoder, a decoder and the values that can travel. The
  decoder gives back an encoded value and the rest, and waits on every proper prefix of one.
\<close>

locale frame_codec =
  fixes enc :: "'f \<Rightarrow> bytes"
    and dec :: "bytes \<Rightarrow> (core_error + 'f option) \<times> bytes"
    and ok :: "'f \<Rightarrow> bool"
  assumes dec_enc: "ok f \<Longrightarrow> dec (enc f @ rest) = (Inr (Some f), rest)"
    and dec_prefix: "ok f \<Longrightarrow> k < length (enc f) \<Longrightarrow>
      dec (take k (enc f)) = (Inr None, take k (enc f))"
    and dec_nil: "dec [] = (Inr None, [])"
begin

lemma read_loop_frame:
  assumes "ok f" "\<forall>c \<in> set cs. c \<noteq> []" "rbuf r @ concat cs = enc f @ rest"
  shows "\<exists>cs1 cs2. cs = cs1 @ cs2 \<and>
    (\<exists>r'. read_loop dec r (map Bytes cs @ evs) = (Ready (Inr (Some f)), r', map Bytes cs2 @ evs)
      \<and> rbuf r' @ concat cs2 = rest
      \<and> bytes_read r' = bytes_read r + word_of_nat (length (concat cs1)))"
  using assms(2,3)
proof (induction cs arbitrary: r)
  case Nil
  then have "dec (rbuf r) = (Inr (Some f), rest)"
    using dec_enc [OF assms(1), of rest] by simp
  then show ?case by (cases evs) (auto intro: exI [of _ "[]"])
next
  case (Cons c cs)
  show ?case
  proof (cases "length (rbuf r) < length (enc f)")
    case True
    let ?r = "r\<lparr>rbuf := rbuf r @ c, bytes_read := bytes_read r + word_of_nat (length c)\<rparr>"
    have "rbuf r = take (length (rbuf r)) (enc f)"
      using Cons.prems(2) True by (simp add: append_eq_append_conv_if)
    then have "dec (rbuf r) = (Inr None, rbuf r)"
      using dec_prefix [OF assms(1) True] by metis
    then have step: "read_loop dec r (map Bytes (c # cs) @ evs) = read_loop dec ?r (map Bytes cs @ evs)"
      using Cons.prems(1) by simp
    from Cons.prems have "\<forall>c \<in> set cs. c \<noteq> []" "rbuf ?r @ concat cs = enc f @ rest"
      by auto
    from Cons.IH [OF this] obtain cs1 cs2 r' where split: "cs = cs1 @ cs2"
      and res: "read_loop dec ?r (map Bytes cs @ evs) = (Ready (Inr (Some f)), r', map Bytes cs2 @ evs)"
      and rest: "rbuf r' @ concat cs2 = rest"
      and rd: "bytes_read r' = bytes_read ?r + word_of_nat (length (concat cs1))"
      by blast
    have "c # cs = (c # cs1) @ cs2" using split by simp
    moreover have "bytes_read r' = bytes_read r + word_of_nat (length (concat (c # cs1)))"
      using rd by (simp add: algebra_simps)
    ultimately show ?thesis
      using step res rest by (metis (no_types, lifting))
  next
    case False
    let ?us = "drop (length (enc f)) (rbuf r)"
    have "take (length (enc f)) (rbuf r @ concat (c # cs)) = enc f"
      "drop (length (enc f)) (rbuf r @ concat (c # cs)) = rest"
      using Cons.prems(2) by simp_all
    with False have "take (length (enc f)) (rbuf r) = enc f"
      and rest: "rest = ?us @ concat (c # cs)"
      by simp_all
    then have us: "rbuf r = enc f @ ?us"
      by (metis append_take_drop_id)
    then have "dec (rbuf r) = (Inr (Some f), ?us)"
      using dec_enc [OF assms(1)] by metis
    then show ?thesis
      using rest by (intro exI [of _ "[]"] exI [of _ "c # cs"]) simp
  qed
qed

lemma read_frames_stream:
  assumes "\<forall>f \<in> set fs. ok f" "\<forall>c \<in> set cs. c \<noteq> []" "rbuf r @ concat cs = concat (map enc fs)"
  shows "\<exists>r'. read_frames dec (length fs) r (map Bytes cs @ evs)
      = (map (\<lambda>f. Ready (Inr (Some f))) fs, r', evs)
    \<and> rbuf r' = [] \<and> bytes_read r' = bytes_read r + word_of_nat (length (concat cs))"
  using assms
proof (induction fs arbitrary: cs r)
  case Nil
  moreover from Nil have "cs = []" by (cases cs) auto
  ultimately show ?case by simp
next
  case (Cons f fs)
  from Cons.prems have okf: "ok f" and eq: "rbuf r @ concat cs = enc f @ concat (map enc fs)" by auto
  from read_loop_frame [OF okf Cons.prems(2) eq, of evs] obtain cs1 cs2 r1 where split: "cs = cs1 @ cs2"
    and one: "read_loop dec r (map Bytes cs @ evs) = (Ready (Inr (Some f)), r1, map Bytes cs2 @ evs)"
    and rest: "rbuf r1 @ concat cs2 = concat (map enc fs)"
    and rd: "bytes_read r1 = bytes_read r + word_of_nat (length (concat cs1))"
    by blast
  from Cons.prems split have "\<forall>f \<in> set fs. ok f" "\<forall>c \<in> set cs2. c \<noteq> []" by auto
  from Cons.IH [OF this rest] obtain r2 where
      "read_frames dec (length fs) r1 (map Bytes cs2 @ evs)
        = (map (\<lambda>f. Ready (Inr (Some f))) fs, r2, evs)"
    and "rbuf r2 = []" and "bytes_read r2 = bytes_read r1 + word_of_nat (length (concat cs2))"
    by blast
  with one rd split show ?case by (simp add: algebra_simps)
qed

text \<open>A stream cut inside a frame ends in \<open>Incomplete\<close>.\<close>

lemma read_loop_truncated:
  assumes "ok f" "k < length (enc f)" "0 < k" "\<forall>c \<in> set cs. c \<noteq> []"
    and "rbuf r @ concat cs = take k (enc f)"
  shows "\<exists>r'. read_loop dec r (map Bytes cs @ Bytes [] # evs) = (Ready (Inl Incomplete), r', evs)"
  using assms(4,5)
proof (induction cs arbitrary: r)
  case Nil
  with assms(1-3) have "dec (rbuf r) = (Inr None, rbuf r)" "rbuf r \<noteq> []"
    using dec_prefix by auto
  then show ?case by simp
next
  case (Cons c cs)
  let ?r = "r\<lparr>rbuf := rbuf r @ c, bytes_read := bytes_read r + word_of_nat (length c)\<rparr>"
  have "length (rbuf r @ concat (c # cs)) = k"
    using assms(2) by (simp only: Cons.prems(2) length_take min_absorb2 less_imp_le)
  then have len: "length (rbuf r) \<le> k" by simp
  then have short: "length (rbuf r) < length (enc f)"
    using assms(2) by simp
  moreover have "rbuf r = take (length (rbuf r)) (enc f)"
  proof -
    have "rbuf r = take (length (rbuf r)) (rbuf r @ concat (c # cs))" by simp
    also have "\<dots> = take (length (rbuf r)) (take k (enc f))" by (simp only: Cons.prems(2))
    also have "\<dots> = take (length (rbuf r)) (enc f)"
      using len by (simp only: take_take min_absorb1)
    finally show ?thesis .
  qed
  ultimately have "dec (rbuf r) = (Inr None, rbuf r)"
    using dec_prefix [OF assms(1) short] by metis
  then have "read_loop dec r (map Bytes (c # cs) @ Bytes [] # evs)
      = read_loop dec ?r (map Bytes cs @ Bytes [] # evs)"
    using Cons.prems(1) by simp
  moreover have "\<exists>r'. read_loop dec ?r (map Bytes cs @ Bytes [] # evs) = (Ready (Inl Incomplete), r', evs)"
    using Cons.prems by (intro Cons.IH) auto
  ultimately show ?case by simp
qed

lemma read_loop_eof: "rbuf r = [] \<Longrightarrow> \<exists>r'. read_loop dec r (Bytes [] # evs) = (Ready (Inr None), r', evs)"
  by (simp add: dec_nil)

end

interpretation ohmf: frame_codec wire decode frame_ok
  by unfold_locales (auto simp: decode_wire_ok decode_prefix_None, simp add: decode_def HEADER_LEN_def)

section \<open>The writer puts the frames on the stream in order\<close>

lemma queue_all: "wbuf (fold queue fs w) = wbuf w @ concat (map wire fs)"
  by (induction fs arbitrary: w) (simp_all add: queue_def encode_wire)

lemma queue_all_written: "bytes_written (fold queue fs w) = bytes_written w"
  by (induction fs arbitrary: w) (simp_all add: queue_def)

lemma flush_ok:
  "flush w Wrote_all =
     (Inr (), w\<lparr>wbuf := [], bytes_written := bytes_written w + word_of_nat (length (wbuf w))\<rparr>, wbuf w)"
  by (cases "wbuf w = []") (simp_all add: flush_def)

section \<open>Properties\<close>



text \<open>A stream that ends inside a frame is an error, never a frame and never a clean end.\<close>

lemma stream_truncated:
  assumes "frame_ok f" "0 < k" "k < length (wire f)" "\<forall>c \<in> set cs. c \<noteq> []" "concat cs = take k (wire f)"
  shows "\<exists>r. next_frame reader_new (map Bytes cs @ [Bytes []]) = (Ready (Inl Incomplete), r, [])"
  using ohmf.read_loop_truncated [OF assms(1,3,2,4), of reader_new "[]"] assms(5)
  by (simp add: next_frame_def reader_new_def)

end
