(* ===== verification/Transport_Shm.thy ===== *)
theory Transport_Shm
  imports Transport_Io
begin

text \<open>
  The shared-memory channel for large payloads, \<open>ohmcp-transport/src/shm.rs\<close>: the memfd ring
  with its two cursors, the 12-byte reference a \<open>SHM_REF\<close> frame carries, and the exchange of
  the file descriptors over the socket. Both sides map the same memory, so one \<open>ring\<close> value is
  the state they share. Cursor arithmetic is on 64-bit words, which wrap as a release build
  does; the invariant shows that nothing wraps in a run of the protocol.
\<close>

section \<open>The ring\<close>

definition DEFAULT_SHM_CAP :: nat where "DEFAULT_SHM_CAP = 4 * 1024 * 1024"
definition MAX_SHM_CAP :: nat where "MAX_SHM_CAP = 64 * 1024 * 1024"
definition SHM_THRESHOLD :: nat where "SHM_THRESHOLD = 16 * 1024"

record ring =
  cap :: nat
  head :: u64
  tail :: u64
  mem :: bytes

text \<open>What a constructor can answer: a panic, an I/O error or the ring.\<close>

datatype io_error = Os_error string | Invalid_input string | Timed_out string
  | Unexpected_eof string | Invalid_data string

datatype 'a outcome = Panic | Fails io_error | Returns 'a

text \<open>A fresh memfd of the right size reads as zeros; \<open>os\<close> is the first system call to fail.\<close>

definition ring_create :: "nat \<Rightarrow> io_error option \<Rightarrow> ring outcome" where
  "ring_create c os =
     (if \<not> (0 < c \<and> c \<le> MAX_SHM_CAP) then Panic
      else case os of
          Some e \<Rightarrow> Fails e
        | None \<Rightarrow> Returns \<lparr>cap = c, head = 0, tail = 0, mem = replicate c 0\<rparr>)"

text \<open>Joining a ring: the cursors and the bytes are the ones already in the shared memory.\<close>

definition ring_from_fd :: "u64 \<Rightarrow> u64 \<Rightarrow> bytes \<Rightarrow> nat \<Rightarrow> io_error option \<Rightarrow> ring outcome" where
  "ring_from_fd h t m c os =
     (if c = 0 \<or> MAX_SHM_CAP < c then Fails (Invalid_input ''bad shm cap'')
      else case os of
          Some e \<Rightarrow> Fails e
        | None \<Rightarrow> Returns \<lparr>cap = c, head = h, tail = t, mem = m\<rparr>)"

definition try_write :: "ring \<Rightarrow> bytes \<Rightarrow> u64 option \<times> ring" where
  "try_write r data =
     (let len = length data in
      if len = 0 \<or> cap r < len then (None, r)
      else
        let m = unat (head r) mod cap r;
            pos = (if cap r < m + len then head r + word_of_nat (cap r - m) else head r)
        in if word_of_nat (cap r) < pos + word_of_nat len - tail r then (None, r)
           else (Some pos, r\<lparr>mem := blit (mem r) (unat pos mod cap r) data,
                              head := pos + word_of_nat len\<rparr>))"

definition read_release :: "ring \<Rightarrow> u64 \<Rightarrow> nat \<Rightarrow> bytes option \<times> ring" where
  "read_release r offset len =
     (if len = 0 \<or> cap r < len \<or> cap r < unat offset mod cap r + len then (None, r)
      else if head r < offset + word_of_nat len then (None, r)
      else (Some (slice (mem r) (unat offset mod cap r) len), r\<lparr>tail := offset + word_of_nat len\<rparr>))"

section \<open>References and descriptors\<close>

definition encode_shm_ref :: "u64 \<Rightarrow> u32 \<Rightarrow> bytes" where
  "encode_shm_ref offset len = u64_to_le offset @ u32_to_le len"

definition decode_shm_ref :: "bytes \<Rightarrow> (u64 \<times> u32) option" where
  "decode_shm_ref p =
     (if length p \<noteq> 12 then None
      else Some (u64_from_le (take 8 p), u32_from_le (drop 8 p)))"

lemma shm_ref_roundtrip [simp, codec_simps]: "decode_shm_ref (encode_shm_ref off len) = Some (off, len)"
  by (simp add: decode_shm_ref_def encode_shm_ref_def)

lemma length_shm_ref [simp, codec_simps]: "length (encode_shm_ref off len) = 12"
  by (simp add: encode_shm_ref_def)

lemma decode_shm_ref_Some: "decode_shm_ref p = Some (off, len) \<Longrightarrow> p = encode_shm_ref off len"
  by (auto simp: decode_shm_ref_def encode_shm_ref_def u64_to_from u32_to_from split: if_splits)

text \<open>One answer of \<open>poll\<close> with its 5 s limit, and \<open>poll_wait\<close>.\<close>

datatype poll_ev = Poll_fired | Poll_zero | Poll_error string

definition poll_wait :: "poll_ev \<Rightarrow> io_error + unit" where
  "poll_wait p = (case p of
       Poll_error e \<Rightarrow> Inl (Os_error e)
     | Poll_zero \<Rightarrow> Inl (Timed_out ''fd exchange timeout'')
     | Poll_fired \<Rightarrow> Inr ())"

text \<open>One answer of \<open>sendmsg\<close> or \<open>send\<close>; \<open>EAGAIN\<close> comes with the poll that follows it.\<close>

datatype send_ev = Sent | Send_again poll_ev | Send_error string

text \<open>
  The retry loop of \<open>send_fd_blocking\<close> and \<open>send_fd_decline\<close>: the message goes out once, when a
  call succeeds. The result is \<open>Pending\<close> when the answers are used up.
\<close>

fun send_retry :: "'m \<Rightarrow> send_ev list \<Rightarrow> (io_error + 'm) poll" where
  "send_retry msg [] = Pending"
| "send_retry msg (ev # evs) =
     (case ev of
        Sent \<Rightarrow> Ready (Inr msg)
      | Send_again p \<Rightarrow> (case poll_wait p of Inl e \<Rightarrow> Ready (Inl e) | Inr _ \<Rightarrow> send_retry msg evs)
      | Send_error e \<Rightarrow> Ready (Inl (Os_error e)))"

text \<open>The carrier byte of a message and its control message: kind and descriptor.\<close>

record fd_msg =
  carrier :: u8
  rights :: "(bool \<times> int) option"

definition send_fd_blocking :: "int \<Rightarrow> send_ev list \<Rightarrow> (io_error + fd_msg) poll" where
  "send_fd_blocking fd evs = send_retry \<lparr>carrier = 1, rights = Some (True, fd)\<rparr> evs"

definition send_fd_decline :: "send_ev list \<Rightarrow> (io_error + fd_msg) poll" where
  "send_fd_decline evs = send_retry \<lparr>carrier = 0, rights = None\<rparr> evs"

datatype recv_ev = Recv_msg fd_msg | Recv_eof | Recv_again poll_ev | Recv_error string

fun recv_fd_blocking :: "recv_ev list \<Rightarrow> (io_error + int option) poll" where
  "recv_fd_blocking [] = Pending"
| "recv_fd_blocking (ev # evs) =
     (case ev of
        Recv_error e \<Rightarrow> Ready (Inl (Os_error e))
      | Recv_again p \<Rightarrow> (case poll_wait p of Inl e \<Rightarrow> Ready (Inl e) | Inr _ \<Rightarrow> recv_fd_blocking evs)
      | Recv_eof \<Rightarrow> Ready (Inl (Unexpected_eof ''closed during fd exchange''))
      | Recv_msg m \<Rightarrow>
          if carrier m = 0 then Ready (Inr None)
          else case rights m of
              None \<Rightarrow> Ready (Inl (Invalid_data ''no fd in cmsg''))
            | Some (is_rights, fd) \<Rightarrow>
                if \<not> is_rights then Ready (Inl (Invalid_data ''no fd in cmsg''))
                else if fd < 0 then Ready (Inl (Invalid_data ''bad fd''))
                else Ready (Inr (Some fd)))"

section \<open>The ring as a queue of records\<close>

text \<open>
  The records a producer has published and the consumer has not yet released: consecutive in
  the logical address space from \<open>tail\<close> to \<open>head\<close> (with gaps where a record skipped to the
  start of the next lap), each of them contiguous in memory.
\<close>

fun chain :: "nat \<Rightarrow> (u64 \<times> bytes) list \<Rightarrow> nat \<Rightarrow> bool" where
  "chain lo [] hi \<longleftrightarrow> lo = hi"
| "chain lo ((off, d) # q) hi \<longleftrightarrow> lo \<le> unat off \<and> d \<noteq> [] \<and> chain (unat off + length d) q hi"

definition stored :: "ring \<Rightarrow> u64 \<Rightarrow> bytes \<Rightarrow> bool" where
  "stored r off d \<longleftrightarrow> unat off mod cap r + length d \<le> cap r
     \<and> slice (mem r) (unat off mod cap r) (length d) = d"

definition ring_wf :: "ring \<Rightarrow> bool" where
  "ring_wf r \<longleftrightarrow> 0 < cap r \<and> cap r \<le> MAX_SHM_CAP \<and> length (mem r) = cap r"

definition ring_rep :: "ring \<Rightarrow> (u64 \<times> bytes) list \<Rightarrow> bool" where
  "ring_rep r q \<longleftrightarrow> ring_wf r \<and> chain (unat (tail r)) q (unat (head r))
     \<and> unat (head r) \<le> unat (tail r) + cap r \<and> (\<forall>(off, d) \<in> set q. stored r off d)"

text \<open>How many more records fit before a 64-bit cursor could wrap: each advances it by less than two laps.\<close>

definition ring_budget :: "ring \<Rightarrow> nat" where
  "ring_budget r = (2 ^ 64 - 1 - unat (head r)) div (2 * cap r)"

lemma chain_le: "chain lo q hi \<Longrightarrow> lo \<le> hi"
  by (induction lo q hi rule: chain.induct) auto

lemma chain_append: "chain lo q mid \<Longrightarrow> mid \<le> unat off \<Longrightarrow> d \<noteq> [] \<Longrightarrow>
    chain lo (q @ [(off, d)]) (unat off + length d)"
  by (induction lo q mid rule: chain.induct) auto

lemma chain_member:
  "chain lo q hi \<Longrightarrow> (off, d) \<in> set q \<Longrightarrow> lo \<le> unat off \<and> unat off + length d \<le> hi \<and> d \<noteq> []"
  by (induction lo q hi rule: chain.induct) (auto dest: chain_le)

text \<open>Two records that fit in one lap of the logical space never overlap in memory.\<close>

lemma lap_disjoint:
  fixes a b c :: nat
  assumes "a + la \<le> b" "b + lb \<le> a + c" "0 < c" "a mod c + la \<le> c" "0 < la" "0 < lb"
  shows "a mod c + la \<le> b mod c \<or> b mod c + lb \<le> a mod c"
proof -
  define k where "k = b - a"
  then have k: "b = a + k" "la \<le> k" "k + lb \<le> c"
    using assms(1,2) by linarith+
  have b: "b mod c = (a mod c + k) mod c" by (simp add: k(1) mod_add_left_eq)
  show ?thesis
  proof (cases "a mod c + k < c")
    case True
    with b k show ?thesis by simp
  next
    case False
    have "a mod c + k - c < c" using k assms(3,6) mod_less_divisor [of c a] by linarith
    then have "b mod c = a mod c + k - c" using b False by (simp add: le_mod_geq)
    with k False show ?thesis by linarith
  qed
qed


lemma budget_room: "0 < ring_budget r \<Longrightarrow> 0 < cap r \<Longrightarrow> unat (head r) + 2 * cap r < 2 ^ 64"
  by (simp add: ring_budget_def div_greater_zero_iff)

text \<open>A successful write: where the record goes, and that no cursor wraps.\<close>

lemma try_write_Some:
  assumes wf: "ring_wf r" and ht: "unat (tail r) \<le> unat (head r)"
    and room: "unat (head r) + 2 * cap r < 2 ^ 64"
    and w: "try_write r d = (Some off, r')"
  shows "d \<noteq> []" "length d \<le> cap r" "unat (head r) \<le> unat off"
    "unat off mod cap r + length d \<le> cap r"
    "unat off + length d \<le> unat (tail r) + cap r"
    "unat off + length d \<le> unat (head r) + 2 * cap r"
    "r' = r\<lparr>mem := blit (mem r) (unat off mod cap r) d, head := off + word_of_nat (length d)\<rparr>"
    "unat (off + word_of_nat (length d)) = unat off + length d"
proof -
  let ?m = "unat (head r) mod cap r"
  define pos where "pos = (if cap r < ?m + length d then head r + word_of_nat (cap r - ?m) else head r)"
  have c: "0 < cap r" using wf by (simp add: ring_wf_def)
  then have m: "?m < cap r" by simp
  from w show ne: "d \<noteq> []" and len: "length d \<le> cap r"
    by (auto simp: try_write_def Let_def split: if_splits)
  then have off: "off = pos"
    and fits: "\<not> word_of_nat (cap r) < pos + word_of_nat (length d) - tail r"
    and r': "r' = r\<lparr>mem := blit (mem r) (unat pos mod cap r) d, head := pos + word_of_nat (length d)\<rparr>"
    using w by (auto simp: try_write_def Let_def pos_def split: if_splits)
  show "r' = r\<lparr>mem := blit (mem r) (unat off mod cap r) d, head := off + word_of_nat (length d)\<rparr>"
    using r' off by simp
  have up: "unat pos = (if cap r < ?m + length d then unat (head r) + (cap r - ?m) else unat (head r))"
    using room m unat_add_of_nat_u64 [of "head r" "cap r - ?m"]
    by (simp only: pos_def split: if_split) linarith
  then show ge: "unat (head r) \<le> unat off" by (simp add: off)
  show "unat off mod cap r + length d \<le> cap r"
  proof (cases "cap r < ?m + length d")
    case True
    have "(unat (head r) + (cap r - ?m)) mod cap r = 0"
      using c m by (metis add_diff_inverse_nat mod_add_left_eq mod_self not_less_iff_gr_or_eq)
    with True up len off show ?thesis by simp
  next
    case False
    with up off show ?thesis by simp
  qed
  show two: "unat off + length d \<le> unat (head r) + 2 * cap r"
    using up off len m by (auto split: if_splits)
  then show nw: "unat (off + word_of_nat (length d)) = unat off + length d"
    using room by (intro unat_add_of_nat_u64) linarith
  have "unat (off + word_of_nat (length d) - tail r) = unat off + length d - unat (tail r)"
    using nw ge ht by (subst unat_sub) (simp_all add: word_le_nat_alt)
  with fits off room show "unat off + length d \<le> unat (tail r) + cap r"
    by (simp add: of_nat_less_u64)
qed

lemma ring_rep_head_tail: "ring_rep r q \<Longrightarrow> unat (tail r) \<le> unat (head r)"
  by (auto simp: ring_rep_def dest: chain_le)

lemma ring_rep_write:
  assumes rep: "ring_rep r q" and b: "0 < ring_budget r" and w: "try_write r d = (Some off, r')"
  shows "ring_rep r' (q @ [(off, d)])" "ring_budget r \<le> Suc (ring_budget r')"
proof -
  have wf: "ring_wf r" and ch: "chain (unat (tail r)) q (unat (head r))"
    and st: "\<forall>(off, d) \<in> set q. stored r off d"
    using rep by (auto simp: ring_rep_def)
  have room: "unat (head r) + 2 * cap r < 2 ^ 64"
    using b wf by (intro budget_room) (simp_all add: ring_wf_def)
  note ws = try_write_Some [OF wf ring_rep_head_tail [OF rep] room w]
  have fit: "unat off mod cap r + length d \<le> length (mem r)"
    using ws(4) wf by (simp add: ring_wf_def)
  have old: "stored r' o' d'" if "(o', d') \<in> set q" for o' d'
  proof -
    from chain_member [OF ch that] have m: "unat (tail r) \<le> unat o'" "unat o' + length d' \<le> unat (head r)"
      "d' \<noteq> []" by auto
    from st that have s: "unat o' mod cap r + length d' \<le> cap r"
      "slice (mem r) (unat o' mod cap r) (length d') = d'" by (auto simp: stored_def)
    have "unat o' mod cap r + length d' \<le> unat off mod cap r
        \<or> unat off mod cap r + length d \<le> unat o' mod cap r"
      using m s(1) ws(1,3,5) wf by (intro lap_disjoint) (auto simp: ring_wf_def)
    then have "slice (blit (mem r) (unat off mod cap r) d) (unat o' mod cap r) (length d') = d'"
      using fit s wf by (subst slice_blit_disjoint) (auto simp: ring_wf_def)
    with s(1) show ?thesis by (simp add: stored_def ws(7))
  qed
  have new: "stored r' off d"
    using ws(4) fit by (simp add: stored_def ws(7) slice_blit_same)
  have "chain (unat (tail r')) (q @ [(off, d)]) (unat (head r'))"
    using chain_append [OF ch ws(3) ws(1)] by (simp add: ws(7,8))
  moreover have "unat (head r') \<le> unat (tail r') + cap r'" "ring_wf r'"
    using ws(5) wf fit by (simp_all add: ws(7,8) ring_wf_def)
  ultimately show "ring_rep r' (q @ [(off, d)])"
    using old new by (auto simp: ring_rep_def)
  have "(2 ^ 64 - 1 - unat (head r)) div (2 * cap r)
      \<le> ((2 ^ 64 - 1 - (unat off + length d)) + 2 * cap r) div (2 * cap r)"
    using ws(6) room by (intro div_le_mono) linarith
  also have "\<dots> = Suc ((2 ^ 64 - 1 - (unat off + length d)) div (2 * cap r))"
    using wf by (subst div_add_self2) (simp_all add: ring_wf_def)
  finally show "ring_budget r \<le> Suc (ring_budget r')"
    by (simp add: ring_budget_def ws(7,8))
qed

lemma try_write_None: "try_write r d = (None, r') \<Longrightarrow> r' = r"
  by (auto simp: try_write_def Let_def split: if_splits)

text \<open>Releasing the oldest record gives its bytes and leaves the others.\<close>

lemma ring_rep_read:
  assumes rep: "ring_rep r ((off, d) # q)"
  shows "\<exists>r'. read_release r off (length d) = (Some d, r') \<and> ring_rep r' q \<and> ring_budget r' = ring_budget r"
proof -
  let ?r = "r\<lparr>tail := off + word_of_nat (length d)\<rparr>"
  have wf: "ring_wf r" and d: "d \<noteq> []" and lo: "unat (tail r) \<le> unat off"
    and ch: "chain (unat off + length d) q (unat (head r))"
    and s: "stored r off d" and st: "\<forall>(off, d) \<in> set q. stored r off d"
    and win: "unat (head r) \<le> unat (tail r) + cap r"
    using rep by (auto simp: ring_rep_def)
  from chain_le [OF ch] have le: "unat off + length d \<le> unat (head r)" .
  then have nw: "unat (off + word_of_nat (length d)) = unat off + length d"
    using unat_less_power [of "head r"] by (intro unat_add_of_nat_u64) simp
  have "\<not> head r < off + word_of_nat (length d)"
    using le nw by (simp add: word_less_nat_alt)
  then have "read_release r off (length d) = (Some d, ?r)"
    using s d by (auto simp: read_release_def stored_def)
  moreover have "ring_rep ?r q"
    using wf ch st nw win lo by (auto simp: ring_rep_def ring_wf_def stored_def)
  ultimately show ?thesis by (auto simp: ring_budget_def)
qed


section \<open>One producer, one consumer\<close>

text \<open>
  The two sides of a channel as a schedule of steps: the producer offers a payload (and falls
  back to an ordinary frame when the ring refuses it), the consumer resolves the oldest
  reference it has received. References travel in order on the socket. The run returns what
  the consumer read and the payloads the ring accepted.
\<close>

datatype chan_step = Produce bytes | Consume

fun chan_run ::
  "('s \<Rightarrow> bytes \<Rightarrow> u64 option \<times> 's) \<Rightarrow> ('s \<Rightarrow> u64 \<Rightarrow> nat \<Rightarrow> bytes option \<times> 's)
   \<Rightarrow> 's \<Rightarrow> (u64 \<times> nat) list \<Rightarrow> chan_step list \<Rightarrow> bytes option list \<times> bytes list" where
  "chan_run wr rd s refs [] = ([], [])"
| "chan_run wr rd s refs (Produce d # ops) =
     (case wr s d of
        (None, s') \<Rightarrow> chan_run wr rd s' refs ops
      | (Some off, s') \<Rightarrow>
          (case chan_run wr rd s' (refs @ [(off, length d)]) ops of (out, acc) \<Rightarrow> (out, d # acc)))"
| "chan_run wr rd s refs (Consume # ops) =
     (case refs of
        [] \<Rightarrow> chan_run wr rd s [] ops
      | (off, n) # refs' \<Rightarrow>
          (case rd s off n of (res, s') \<Rightarrow>
             case chan_run wr rd s' refs' ops of (out, acc) \<Rightarrow> (res # out, acc)))"

text \<open>What the two sides rely on: \<open>rep\<close> relates the shared state to the queue of records.\<close>

locale spsc_channel =
  fixes wr :: "'s \<Rightarrow> bytes \<Rightarrow> u64 option \<times> 's"
    and rd :: "'s \<Rightarrow> u64 \<Rightarrow> nat \<Rightarrow> bytes option \<times> 's"
    and rep :: "'s \<Rightarrow> (u64 \<times> bytes) list \<Rightarrow> bool"
    and budget :: "'s \<Rightarrow> nat"
  assumes wr_Some: "rep s q \<Longrightarrow> 0 < budget s \<Longrightarrow> wr s d = (Some off, s') \<Longrightarrow>
      rep s' (q @ [(off, d)]) \<and> budget s \<le> Suc (budget s')"
    and wr_None: "wr s d = (None, s') \<Longrightarrow> s' = s"
    and rd_hd: "rep s ((off, d) # q) \<Longrightarrow>
      \<exists>s'. rd s off (length d) = (Some d, s') \<and> rep s' q \<and> budget s' = budget s"
begin

lemma chan_run_fifo:
  assumes "rep s q" "refs = map (\<lambda>(off, d). (off, length d)) q" "length ops \<le> budget s"
    and "chan_run wr rd s refs ops = (out, acc)"
  shows "out = map Some (take (length out) (map snd q @ acc))"
  using assms
proof (induction ops arbitrary: s q refs out acc)
  case Nil
  then show ?case by simp
next
  case (Cons op ops)
  show ?case
  proof (cases op)
    case (Produce d)
    obtain w s' where w: "wr s d = (w, s')" by fastforce
    show ?thesis
    proof (cases w)
      case None
      with w wr_None have "s' = s" by simp
      with Cons Produce w None show ?thesis by auto
    next
      case (Some off)
      obtain out' acc' where rest: "chan_run wr rd s' (refs @ [(off, length d)]) ops = (out', acc')"
        by fastforce
      have "rep s' (q @ [(off, d)])" "length ops \<le> budget s'"
        using wr_Some [of s q d off s'] Cons.prems w Some by auto
      from Cons.IH [OF this(1) _ this(2) rest] Cons.prems(2)
      have "out' = map Some (take (length out') (map snd (q @ [(off, d)]) @ acc'))" by simp
      moreover have "out = out'" "acc = d # acc'"
        using Cons.prems(4) Produce w Some rest by auto
      ultimately show ?thesis by simp
    qed
  next
    case Consume
    show ?thesis
    proof (cases q)
      case Nil
      with Cons.prems Consume have "chan_run wr rd s [] ops = (out, acc)" by simp
      with Cons.IH [of s "[]" "[]" out acc] Cons.prems(1,3) Nil show ?thesis by simp
    next
      case q: (Cons e q')
      obtain off d where e: "e = (off, d)" by fastforce
      from rd_hd Cons.prems(1) q e obtain s' where
        s': "rd s off (length d) = (Some d, s')" "rep s' q'" "budget s' = budget s" by blast
      let ?refs = "map (\<lambda>(off, d). (off, length d)) q'"
      obtain out' acc' where rest: "chan_run wr rd s' ?refs ops = (out', acc')" by fastforce
      from Cons.IH [OF s'(2) refl _ rest] Cons.prems(3) s'(3)
      have "out' = map Some (take (length out') (map snd q' @ acc'))" by simp
      moreover have "out = Some d # out'" "acc = acc'"
        using Cons.prems(2,4) Consume q e s'(1) rest by auto
      ultimately show ?thesis using q e by simp
    qed
  qed
qed

end

interpretation ring: spsc_channel try_write read_release ring_rep ring_budget
  by unfold_locales (blast intro: ring_rep_write try_write_None ring_rep_read)+

lemma ring_rep_fresh: "0 < c \<Longrightarrow> c \<le> MAX_SHM_CAP \<Longrightarrow>
    ring_rep \<lparr>cap = c, head = 0, tail = 0, mem = replicate c 0\<rparr> []"
  by (simp add: ring_rep_def ring_wf_def)

section \<open>Accesses stay inside the mapping\<close>

text \<open>
  The cursors live in memory the peer can write, so nothing may be assumed of them. Reading
  checks the physical range itself; writing relies on the wrap of a cursor at \<open>2 ^ 64\<close>
  agreeing with the wrap of the ring.
\<close>

lemma try_write_in_bounds:
  assumes wf: "ring_wf r" and dvd: "cap r dvd 2 ^ 64" and w: "try_write r d = (Some off, r')"
  shows "unat off mod cap r + length d \<le> cap r"
proof -
  let ?m = "unat (head r) mod cap r"
  have c: "0 < cap r" using wf by (simp add: ring_wf_def)
  then have m: "?m < cap r" by simp
  have len: "length d \<le> cap r" using w by (auto simp: try_write_def Let_def split: if_splits)
  have off: "off = (if cap r < ?m + length d then head r + word_of_nat (cap r - ?m) else head r)"
    using w by (auto simp: try_write_def Let_def split: if_splits)
  show ?thesis
  proof (cases "cap r < ?m + length d")
    case True
    have "unat off = (unat (head r) + (cap r - ?m)) mod 2 ^ 64"
      using True off by (simp add: unat_word_ariths unat_of_nat mod_add_right_eq)
    then have "unat off mod cap r = (unat (head r) + (cap r - ?m)) mod cap r"
      using dvd by (simp add: mod_mod_cancel)
    also have "\<dots> = 0"
      using c m by (metis add_diff_inverse_nat mod_add_left_eq mod_self not_less_iff_gr_or_eq)
    finally show ?thesis using len by simp
  next
    case False
    with off show ?thesis by simp
  qed
qed

lemma read_release_in_bounds:
  "read_release r off n = (Some d, r') \<Longrightarrow> unat off mod cap r + n \<le> cap r"
  by (auto simp: read_release_def split: if_splits)

section \<open>Properties\<close>

text \<open>C9. A channel on a fresh ring is a queue: whatever payloads the producer offers and whenever the
  consumer reads, what the consumer reads is what the ring accepted, complete, unchanged and in
  order (the payloads the ring refused travel in frames). The bound on the number of steps keeps
  the 64-bit cursors from wrapping; for the default capacity it is about two million million.\<close>

theorem shm_channel_fifo:
  assumes "0 < c" "c \<le> MAX_SHM_CAP" "length ops \<le> (2 ^ 64 - 1) div (2 * c)"
    and "chan_run try_write read_release \<lparr>cap = c, head = 0, tail = 0, mem = replicate c 0\<rparr> [] ops = (out, acc)"
  shows "out = map Some (take (length out) acc)"
proof -
  have "length ops \<le> ring_budget \<lparr>cap = c, head = 0, tail = 0, mem = replicate c 0\<rparr>"
    using assms(3) by (simp add: ring_budget_def)
  from ring.chan_run_fifo [OF ring_rep_fresh [OF assms(1,2)] _ this assms(4)] show ?thesis by simp
qed

theorem shm_channel_fifo_witness:
  "chan_run try_write read_release \<lparr>cap = 8, head = 0, tail = 0, mem = replicate 8 0\<rparr> []
     [Produce [1, 2, 3], Produce [4, 5, 6, 7], Produce [8, 9], Consume, Consume, Produce [8, 9], Consume]
   = (map Some [[1, 2, 3], [4, 5, 6, 7], [8, 9]], [[1, 2, 3], [4, 5, 6, 7], [8, 9]])"
proof -
  let ?ops = "[Produce [1, 2, 3], Produce [4, 5, 6, 7], Produce [8, 9], Consume, Consume, Produce [8, 9], Consume]"
  let ?r = "\<lparr>cap = 8, head = 0, tail = 0, mem = replicate 8 0\<rparr>"
  have run: "chan_run try_write read_release ?r [] ?ops
      = ([Some [1, 2, 3], Some [4, 5, 6, 7], Some [8, 9]], [[1, 2, 3], [4, 5, 6, 7], [8, 9]])"
    by code_simp
  from shm_channel_fifo [OF _ _ _ run] run show ?thesis by (simp add: MAX_SHM_CAP_def)
qed

text \<open>With a capacity that divides \<open>2 ^ 64\<close>, as the default does, a write stays inside the mapping
  for every value of the two cursors, which the peer can overwrite at any time.\<close>

lemma shm_write_in_bounds:
  assumes "ring_wf r" "cap r dvd 2 ^ 64" "try_write r d = (Some off, r')"
  shows "unat off mod cap r + length d \<le> length (mem r) \<and> length (mem r') = length (mem r)"
proof -
  from try_write_in_bounds [OF assms] assms(1)
  have fit: "unat off mod cap r + length d \<le> length (mem r)" by (simp add: ring_wf_def)
  moreover from assms(3)
  have "r' = r\<lparr>mem := blit (mem r) (unat off mod cap r) d, head := off + word_of_nat (length d)\<rparr>"
    by (auto simp: try_write_def Let_def split: if_splits)
  ultimately show ?thesis by simp
qed

text \<open>Reading never leaves the mapping, for any capacity, any cursors and any reference: the physical
  range is checked.\<close>

lemma shm_read_in_bounds:
  assumes "ring_wf r" "read_release r off n = (Some d, r')"
  shows "unat off mod cap r + n \<le> length (mem r) \<and> length d = n \<and> off + word_of_nat n \<le> head r"
  using assms read_release_in_bounds [OF assms(2)]
  by (auto simp: ring_wf_def read_release_def slice_def not_less split: if_splits)

text \<open>With a capacity that does not divide \<open>2 ^ 64\<close>, which \<open>from_fd\<close> accepts, there are cursors under
  which a write leaves the mapping: the skip to the start of the next lap wraps the cursor, and
  the position is then not the start of the memory.\<close>

lemma shm_write_out_of_bounds:
  "\<exists>r r' d off. ring_from_fd (- 1) 5 (replicate 7 0) 7 None = Returns r \<and> ring_wf r
     \<and> try_write r d = (Some off, r') \<and> length (mem r) < unat off mod cap r + length d"
proof -
  let ?r = "\<lparr>cap = 7, head = - 1, tail = 5, mem = replicate 7 (0 :: u8)\<rparr>"
  have m: "unat (- 1 :: u64) mod 7 = 1"
    by (simp add: unsigned_minus_1_eq_mask mask_eq_exp_minus_1)
  have "fst (try_write ?r (replicate 7 1)) = Some 5"
    by (simp add: try_write_def Let_def m [unfolded One_nat_def])
  then have w: "try_write ?r (replicate 7 1) = (Some 5, snd (try_write ?r (replicate 7 1)))"
    by (simp add: prod_eq_iff)
  have "length (mem ?r) < unat (5 :: u64) mod cap ?r + length (replicate 7 (1 :: u8))" by simp
  with w show ?thesis
    by (intro exI [of _ ?r] exI [of _ "snd (try_write ?r (replicate 7 1))"] exI [of _ "replicate 7 1"]
        exI [of _ 5] conjI) (simp_all add: ring_from_fd_def ring_wf_def MAX_SHM_CAP_def)
qed

text \<open>An empty ring does not accept every record of at most its capacity: the record must fit before
  the end of the current lap, or into the part of the ring before the write position. A record of
  at most half the capacity always fits.\<close>

lemma empty_ring_accepts:
  assumes "ring_wf r" "head r = tail r" "unat (head r) + 2 * cap r < 2 ^ 64"
  shows "fst (try_write r d) \<noteq> None \<longleftrightarrow>
    d \<noteq> [] \<and> (unat (head r) mod cap r + length d \<le> cap r \<or> length d \<le> unat (head r) mod cap r)"
proof -
  let ?m = "unat (head r) mod cap r"
  define k where "k = cap r - ?m"
  have c: "0 < cap r" "cap r < 2 ^ 64" using assms(1,3) by (simp_all add: ring_wf_def)
  then have m: "?m < cap r" by simp
  then have k: "cap r < k + length d \<longleftrightarrow> ?m < length d" by (auto simp: k_def)
  have lt: "(word_of_nat (cap r) :: u64) < word_of_nat n \<longleftrightarrow> cap r < n" if "n < 2 ^ 64" for n
    using that of_nat_less_u64 [OF c(2)] by (simp add: unat_of_nat_u64)
  show ?thesis
  proof (cases "d = [] \<or> cap r < length d")
    case True
    with m show ?thesis by (auto simp: try_write_def)
  next
    case False
    then have d: "d \<noteq> []" "\<not> cap r < length d" by auto
    have "head r + word_of_nat k + word_of_nat (length d) - tail r = word_of_nat (k + length d)"
      "head r + word_of_nat (length d) - tail r = word_of_nat (length d)"
      by (simp_all add: assms(2))
    moreover have "k + length d < 2 ^ 64" "length d < 2 ^ 64" using d assms(3) by (auto simp: k_def)
    ultimately show ?thesis
      using d k lt m unfolding try_write_def Let_def k_def [symmetric]
      by (cases "cap r < ?m + length d") (simp_all del: of_nat_add)
  qed
qed

text \<open>The descriptor exchange over the socket: what a completed send put on the socket gives the
  receiver that descriptor, or a refusal for a decline, however often either side had to wait.\<close>

lemma fd_exchange:
  assumes "send_fd_blocking fd sevs = Ready (Inr m)" "send_fd_decline devs = Ready (Inr n)" "0 \<le> fd"
  shows "recv_fd_blocking (replicate k (Recv_again Poll_fired) @ Recv_msg m # evs) = Ready (Inr (Some fd))
    \<and> recv_fd_blocking (replicate k (Recv_again Poll_fired) @ Recv_msg n # evs) = Ready (Inr None)"
proof -
  have sent: "msg = msg'" if "send_retry msg evs = Ready (Inr msg')" for msg msg' :: fd_msg and evs
    using that by (induction evs) (auto split: send_ev.splits sum.splits)
  have "m = \<lparr>carrier = 1, rights = Some (True, fd)\<rparr>" "n = \<lparr>carrier = 0, rights = None\<rparr>"
    using assms(1,2) sent by (auto simp: send_fd_blocking_def send_fd_decline_def)
  with assms(3) show ?thesis
    by (induction k) (simp_all add: poll_wait_def)
qed

end
