(* ===== verification/Cache_Result.thy ===== *)
theory Cache_Result
  imports Ohmcp_Prelude "HOL-Library.AList" "HOL-Library.Multiset"
begin

text \<open>
  The content-addressed result cache, \<open>ohmcp-cache/src/result_cache.rs\<close>: keys, entries, lookup
  with expiry, insertion with sampled LRU eviction. The hash map is an association list with
  distinct keys; the order in which it iterates is the parameter \<open>order\<close>, of which only that it
  enumerates the entries is known. \<open>Instant::now()\<close> is an argument, in nanoseconds.
\<close>

section \<open>Keys\<close>

type_synonym cache_key = bytes

definition key_preimage :: "string \<Rightarrow> bytes \<Rightarrow> bytes" where
  "key_preimage tool_name canonical_args = as_bytes tool_name @ [0] @ canonical_args"

definition cache_key_compute :: "(bytes \<Rightarrow> bytes) \<Rightarrow> string \<Rightarrow> bytes \<Rightarrow> cache_key" where
  "cache_key_compute sha256 tool_name canonical_args = sha256 (key_preimage tool_name canonical_args)"

definition cache_key_from_slice :: "bytes \<Rightarrow> cache_key option" where
  "cache_key_from_slice s = (if length s = 32 then Some s else None)"

section \<open>The cache\<close>

record entry =
  e_value :: bytes
  inserted :: nat
  last_used :: nat

record result_cache =
  entries :: "(cache_key \<times> entry) list"
  capacity :: nat
  ttl :: nat
  hits :: u64
  misses :: u64

definition cache_new :: "nat \<Rightarrow> nat \<Rightarrow> result_cache" where
  "cache_new c t = \<lparr>entries = [], capacity = c, ttl = t, hits = 0, misses = 0\<rparr>"

definition cache_get :: "nat \<Rightarrow> cache_key \<Rightarrow> result_cache \<Rightarrow> bytes option \<times> result_cache" where
  "cache_get now key c =
     (case map_of (entries c) key of
        Some e \<Rightarrow>
          if now - inserted e \<le> ttl c
          then (Some (e_value e),
                c\<lparr>entries := AList.update key (e\<lparr>last_used := now\<rparr>) (entries c), hits := hits c + 1\<rparr>)
          else (None, c\<lparr>entries := AList.delete key (entries c), misses := misses c + 1\<rparr>)
      | None \<Rightarrow> (None, c\<lparr>misses := misses c + 1\<rparr>))"

text \<open>The sample is the first eight entries in iteration order.\<close>

definition evict_lru ::
  "((cache_key \<times> entry) list \<Rightarrow> (cache_key \<times> entry) list) \<Rightarrow> result_cache \<Rightarrow> result_cache" where
  "evict_lru order c =
     (case min_by_key (\<lambda>(k, e). last_used e) (take 8 (order (entries c))) of
        None \<Rightarrow> c
      | Some (k, e) \<Rightarrow> c\<lparr>entries := AList.delete k (entries c)\<rparr>)"

definition cache_put ::
  "((cache_key \<times> entry) list \<Rightarrow> (cache_key \<times> entry) list) \<Rightarrow> nat \<Rightarrow> cache_key \<Rightarrow> bytes
   \<Rightarrow> result_cache \<Rightarrow> result_cache" where
  "cache_put order now key v c =
     (let c' = (if capacity c \<le> length (entries c) \<and> map_of (entries c) key = None
                then evict_lru order c else c)
      in c'\<lparr>entries := AList.update key \<lparr>e_value = v, inserted = now, last_used = now\<rparr> (entries c')\<rparr>)"

definition cache_stats :: "result_cache \<Rightarrow> u64 \<times> u64" where
  "cache_stats c = (hits c, misses c)"

section \<open>Keys identify calls\<close>

lemma as_bytes_zero: "0 \<in> set (as_bytes s) \<longleftrightarrow> CHR 0x00 \<in> set s"
proof -
  have nul: "(of_char (CHR 0x00) :: nat) = 0" by simp
  have "(of_char c :: u8) = 0 \<longleftrightarrow> c = CHR 0x00" for c
  proof -
    have "(of_char c :: u8) = 0 \<longleftrightarrow> unat (of_char c :: u8) = 0" by (rule unat_0_iff [symmetric])
    also have "\<dots> \<longleftrightarrow> (of_char c :: nat) = of_char (CHR 0x00)" by (simp only: unat_of_char nul)
    also have "\<dots> \<longleftrightarrow> c = CHR 0x00" by (rule of_char_eq_iff)
    finally show ?thesis .
  qed
  then show ?thesis by (simp only: as_bytes_def set_map image_iff) metis
qed

lemma append_zero_split:
  assumes "xs @ [0] @ ys = xs' @ [0] @ ys'" "0 \<notin> set xs" "0 \<notin> set xs'"
  shows "xs = xs' \<and> ys = ys'"
  using assms
proof (induction xs arbitrary: xs')
  case Nil
  then show ?case by (cases xs') auto
next
  case (Cons x xs)
  then show ?case by (cases xs') auto
qed

lemma key_preimage_tool:
  assumes "CHR 0x00 \<notin> set t" "CHR 0x00 \<notin> set t'" "key_preimage t a = key_preimage t' a'"
  shows "t = t' \<and> a = a'"
  using append_zero_split [of "as_bytes t" a "as_bytes t'" a'] assms
  by (auto simp: key_preimage_def as_bytes_zero)

text \<open>Serialised JSON holds no zero byte, so the last zero byte of a preimage ends the tool's name.\<close>

lemma key_preimage_args:
  assumes "0 \<notin> set a" "0 \<notin> set a'" "key_preimage t a = key_preimage t' a'"
  shows "t = t' \<and> a = a'"
proof -
  have "rev a @ [0] @ rev (as_bytes t) = rev a' @ [0] @ rev (as_bytes t')"
    using arg_cong [OF assms(3), of rev] by (simp add: key_preimage_def)
  with append_zero_split assms(1,2) have "rev a = rev a' \<and> rev (as_bytes t) = rev (as_bytes t')"
    by (metis set_rev)
  then show ?thesis by simp
qed

section \<open>Invariant\<close>

definition cache_wf :: "result_cache \<Rightarrow> bool" where
  "cache_wf c \<longleftrightarrow> distinct (map fst (entries c)) \<and> length (entries c) \<le> max 1 (capacity c)"

text \<open>An iteration order of the map.\<close>

definition enumerates :: "((cache_key \<times> entry) list \<Rightarrow> (cache_key \<times> entry) list) \<Rightarrow> bool" where
  "enumerates order \<longleftrightarrow> (\<forall>xs. mset (order xs) = mset xs)"

lemma enumerates_set: "enumerates order \<Longrightarrow> set (order xs) = set xs"
  by (metis enumerates_def set_mset_mset)

lemma enumerates_length: "enumerates order \<Longrightarrow> length (order xs) = length xs"
  by (metis enumerates_def size_mset)

lemma length_delete_key:
  "distinct (map fst xs) \<Longrightarrow> k \<in> fst ` set xs \<Longrightarrow> Suc (length (AList.delete k xs)) = length xs"
proof (induction xs)
  case Nil
  then show ?case by simp
next
  case (Cons x xs)
  obtain k' v where x: "x = (k', v)" by fastforce
  show ?case
  proof (cases "k' = k")
    case True
    with Cons.prems x have "k \<notin> fst ` set xs" by auto
    then have "AList.delete k xs = xs" by (rule delete_id)
    with True x show ?thesis by simp
  next
    case False
    with Cons x show ?thesis by auto
  qed
qed

lemma length_update_key:
  "length (AList.update k v xs) = (if k \<in> fst ` set xs then length xs else Suc (length xs))"
  by (induction xs) auto

lemma length_update_known: "map_of xs k = Some e \<Longrightarrow> length (AList.update k v xs) = length xs"
  by (metis length_update_key map_of_eq_None_iff option.distinct(1))

lemma length_delete_le: "length (AList.delete k xs) \<le> length xs"
  by (simp add: AList.delete_eq)

lemma map_of_None_key: "map_of xs k = None \<longleftrightarrow> k \<notin> fst ` set xs"
  by (rule map_of_eq_None_iff)

lemma cache_new_wf: "cache_wf (cache_new c t)"
  by (simp add: cache_wf_def cache_new_def)

lemma cache_get_wf: "cache_wf c \<Longrightarrow> cache_get now k c = (r, c') \<Longrightarrow> cache_wf c' \<and> capacity c' = capacity c"
  using map_of_None_key [of "entries c" k] length_delete_le [of k "entries c"]
  by (auto simp: cache_get_def cache_wf_def distinct_update distinct_delete length_update_known
      split: option.splits if_splits)

text \<open>Eviction removes exactly one entry, the least recently used of the sample.\<close>

lemma evict_lru_victim:
  assumes "enumerates order" "entries c \<noteq> []"
  obtains k e where "(k, e) \<in> set (take 8 (order (entries c)))" "(k, e) \<in> set (entries c)"
    "\<forall>(k', e') \<in> set (take 8 (order (entries c))). last_used e \<le> last_used e'"
    "evict_lru order c = c\<lparr>entries := AList.delete k (entries c)\<rparr>"
proof -
  let ?s = "take 8 (order (entries c))"
  have "?s \<noteq> []"
    using assms enumerates_length [of order "entries c"] by (cases "order (entries c)") auto
  then obtain k e where m: "min_by_key (\<lambda>(k, e). last_used e) ?s = Some (k, e)"
    using min_by_key_None [of "\<lambda>(k, e). last_used e" ?s] by (cases "min_by_key (\<lambda>(k, e). last_used e) ?s") auto
  from min_by_key_Some [OF m] have "(k, e) \<in> set ?s"
    and "\<forall>(k', e') \<in> set ?s. last_used e \<le> last_used e'" by auto
  moreover from this have "(k, e) \<in> set (entries c)"
    using enumerates_set [OF assms(1)] in_set_takeD by metis
  moreover have "evict_lru order c = c\<lparr>entries := AList.delete k (entries c)\<rparr>"
    by (simp add: evict_lru_def m)
  ultimately show ?thesis using that by blast
qed


lemma evict_lru_length:
  assumes "enumerates order" "distinct (map fst (entries c))" "entries c \<noteq> []"
  shows "Suc (length (entries (evict_lru order c))) = length (entries c)"
proof -
  from evict_lru_victim [OF assms(1,3)] obtain k e where
    "(k, e) \<in> set (entries c)" "evict_lru order c = c\<lparr>entries := AList.delete k (entries c)\<rparr>" .
  then show ?thesis using length_delete_key [OF assms(2), of k] by (simp add: rev_image_eqI)
qed

lemma evict_lru_nil: "enumerates order \<Longrightarrow> entries c = [] \<Longrightarrow> evict_lru order c = c"
  using enumerates_length [of order "[]"] by (simp add: evict_lru_def)

lemma evict_lru_frame: "capacity (evict_lru order c) = capacity c" "ttl (evict_lru order c) = ttl c"
  by (auto simp: evict_lru_def split: option.splits)

lemma evict_lru_lookup:
  "map_of (entries (evict_lru order c)) k = map_of (entries c) k
   \<or> map_of (entries (evict_lru order c)) k = None"
  by (auto simp: evict_lru_def delete_conv' split: option.splits)

lemma evict_lru_distinct:
  "distinct (map fst (entries c)) \<Longrightarrow> distinct (map fst (entries (evict_lru order c)))"
  by (auto simp: evict_lru_def distinct_delete split: option.splits)

lemma cache_put_wf:
  assumes "enumerates order" "cache_wf c"
  shows "cache_wf (cache_put order now k v c)" "capacity (cache_put order now k v c) = capacity c"
proof -
  show "capacity (cache_put order now k v c) = capacity c"
    by (simp add: cache_put_def evict_lru_frame Let_def)
  have d: "distinct (map fst (entries c))" and l: "length (entries c) \<le> max 1 (capacity c)"
    using assms(2) by (auto simp: cache_wf_def)
  show "cache_wf (cache_put order now k v c)"
  proof (cases "capacity c \<le> length (entries c) \<and> map_of (entries c) k = None")
    case True
    have "length (entries (evict_lru order c)) < max 1 (capacity c)"
      using evict_lru_length [OF assms(1) d] evict_lru_nil [OF assms(1), of c] l
      by (cases "entries c = []") auto
    then show ?thesis
      using True evict_lru_distinct [OF d, of order]
      by (auto simp: cache_put_def cache_wf_def evict_lru_frame distinct_update length_update_key Let_def)
  next
    case False
    then show ?thesis
      using d l by (auto simp: cache_put_def cache_wf_def distinct_update length_update_key map_of_eq_None_iff)
  qed
qed

section \<open>What a lookup can return\<close>

text \<open>The value stored under a key, expired or not.\<close>

definition cache_view :: "result_cache \<Rightarrow> cache_key \<Rightarrow> bytes option" where
  "cache_view c k = map_option e_value (map_of (entries c) k)"

lemma cache_get_view:
  assumes "cache_get now k c = (r, c')"
  shows "r = None \<or> r = cache_view c k" "cache_view c' k' = cache_view c k' \<or> cache_view c' k' = None"
  using assms
  by (auto simp: cache_get_def cache_view_def update_conv' delete_conv' split: option.splits if_splits)

lemma cache_put_view: "cache_view (cache_put order now k v c) k = Some v"
  by (simp add: cache_put_def cache_view_def Let_def update_conv')

lemma cache_put_view_other:
  "k' \<noteq> k \<Longrightarrow> cache_view (cache_put order now k v c) k' = cache_view c k'
    \<or> cache_view (cache_put order now k v c) k' = None"
  using evict_lru_lookup [of order c k'] by (auto simp: cache_put_def cache_view_def update_conv' Let_def)

text \<open>A lookup within the time to live of the insertion finds the value, at any number of lookups.\<close>

definition fresh :: "nat \<Rightarrow> cache_key \<Rightarrow> result_cache \<Rightarrow> bool" where
  "fresh now k c \<longleftrightarrow> (\<exists>e. map_of (entries c) k = Some e \<and> now - inserted e \<le> ttl c)"

lemma cache_get_fresh:
  "fresh now k c \<Longrightarrow> \<exists>c'. cache_get now k c = (cache_view c k, c') \<and> fresh now k c'
     \<and> cache_view c' = cache_view c"
  by (auto simp: fresh_def cache_get_def cache_view_def update_conv' fun_eq_iff)

lemma cache_get_stale: "\<not> fresh now k c \<Longrightarrow> \<exists>c'. cache_get now k c = (None, c')"
  by (auto simp: fresh_def cache_get_def split: option.splits)

lemma cache_get_Some: "cache_get now k c = (Some v, c') \<Longrightarrow> fresh now k c \<and> cache_view c k = Some v"
  by (auto simp: fresh_def cache_get_def cache_view_def split: option.splits if_splits)

lemma cache_put_fresh: "now \<le> inserted_at + ttl c \<Longrightarrow> fresh now k (cache_put order inserted_at k v c)"
  by (auto simp: fresh_def cache_put_def Let_def update_conv' evict_lru_frame)

section \<open>The interface the pipeline and the server use\<close>

datatype 'k cache_op = Op_get nat 'k | Op_put nat 'k bytes

text \<open>
  Every hit of a run agrees with the last value put under its key; \<open>m\<close> keeps those values.
\<close>

fun hits_agree ::
  "(nat \<Rightarrow> 'k \<Rightarrow> 's \<Rightarrow> bytes option \<times> 's) \<Rightarrow> (nat \<Rightarrow> 'k \<Rightarrow> bytes \<Rightarrow> 's \<Rightarrow> 's) \<Rightarrow> 's \<Rightarrow> ('k \<rightharpoonup> bytes)
   \<Rightarrow> 'k cache_op list \<Rightarrow> bool" where
  "hits_agree get put s m [] \<longleftrightarrow> True"
| "hits_agree get put s m (Op_get t k # ops) \<longleftrightarrow>
     (case get t k s of (r, s') \<Rightarrow> (r = None \<or> r = m k) \<and> hits_agree get put s' m ops)"
| "hits_agree get put s m (Op_put t k v # ops) \<longleftrightarrow> hits_agree get put (put t k v s) (m(k \<mapsto> v)) ops"

locale result_store =
  fixes get :: "nat \<Rightarrow> 'k \<Rightarrow> 's \<Rightarrow> bytes option \<times> 's"
    and put :: "nat \<Rightarrow> 'k \<Rightarrow> bytes \<Rightarrow> 's \<Rightarrow> 's"
    and view :: "'s \<Rightarrow> 'k \<Rightarrow> bytes option"
  assumes get_view: "get t k s = (r, s') \<Longrightarrow> r = None \<or> r = view s k"
    and get_keeps: "get t k s = (r, s') \<Longrightarrow> view s' k' = view s k' \<or> view s' k' = None"
    and put_view: "view (put t k v s) k = Some v"
    and put_other: "k' \<noteq> k \<Longrightarrow> view (put t k v s) k' = view s k' \<or> view (put t k v s) k' = None"
begin

lemma view_within_put:
  assumes "\<forall>k. view s k = None \<or> view s k = m k"
  shows "\<forall>k'. view (put t k v s) k' = None \<or> view (put t k v s) k' = (m(k \<mapsto> v)) k'"
  using assms put_view put_other by (metis fun_upd_apply)

lemma run_hits_agree:
  assumes "\<forall>k. view s k = None \<or> view s k = m k"
  shows "hits_agree get put s m ops"
  using assms
proof (induction ops arbitrary: s m)
  case Nil
  show ?case by simp
next
  case (Cons op ops)
  show ?case
  proof (cases op)
    case (Op_get t k)
    obtain r s' where g: "get t k s = (r, s')" by fastforce
    have "\<forall>k. view s' k = None \<or> view s' k = m k"
      using get_keeps [OF g] Cons.prems by metis
    with Cons.IH have "hits_agree get put s' m ops" by blast
    moreover have "r = None \<or> r = m k"
      using get_view [OF g] Cons.prems by metis
    ultimately show ?thesis by (simp add: Op_get g)
  next
    case (Op_put t k v)
    with Cons.IH view_within_put [OF Cons.prems] show ?thesis by simp
  qed
qed

end

interpretation lru: result_store cache_get "cache_put order" cache_view for order
  by unfold_locales
    (fact cache_get_view(1), fact cache_get_view(2), fact cache_put_view, fact cache_put_view_other)

section \<open>Properties\<close>

text \<open>A cache used by a sequence of lookups and insertions.\<close>

fun cache_apply ::
  "((cache_key \<times> entry) list \<Rightarrow> (cache_key \<times> entry) list) \<Rightarrow> cache_key cache_op \<Rightarrow> result_cache \<Rightarrow> result_cache" where
  "cache_apply order (Op_get t k) c = snd (cache_get t k c)"
| "cache_apply order (Op_put t k v) c = cache_put order t k v c"

lemma cache_apply_wf:
  "enumerates order \<Longrightarrow> cache_wf c \<Longrightarrow> cache_wf (cache_apply order op c) \<and> capacity (cache_apply order op c) = capacity c"
proof (cases op)
  case (Op_get t k)
  then show "cache_wf c \<Longrightarrow> ?thesis"
    using cache_get_wf [of c t k "fst (cache_get t k c)" "snd (cache_get t k c)"] by simp
next
  case (Op_put t k v)
  then show "enumerates order \<Longrightarrow> cache_wf c \<Longrightarrow> ?thesis" using cache_put_wf by simp
qed

lemma cache_run_wf:
  "enumerates order \<Longrightarrow> cache_wf c \<Longrightarrow>
    cache_wf (fold (cache_apply order) ops c) \<and> capacity (fold (cache_apply order) ops c) = capacity c"
  by (induction ops arbitrary: c) (simp_all add: cache_apply_wf)

lemma gets_keep_entry:
  assumes "\<forall>op \<in> set ops. \<exists>t k. op = Op_get t k \<and> t \<le> now"
    and "map_of (entries c) k = Some e" "now - inserted e \<le> ttl c"
  shows "\<exists>e'. map_of (entries (fold (cache_apply order) ops c)) k = Some e' \<and> inserted e' = inserted e
    \<and> e_value e' = e_value e \<and> ttl (fold (cache_apply order) ops c) = ttl c"
  using assms
proof (induction ops arbitrary: c e)
  case Nil
  then show ?case by simp
next
  case (Cons op ops)
  then obtain t k' where op: "op = Op_get t k'" and t: "t \<le> now" by auto
  let ?c = "snd (cache_get t k' c)"
  have "t - inserted e \<le> ttl c" using Cons.prems(3) t by simp
  then have "\<exists>e1. map_of (entries ?c) k = Some e1 \<and> inserted e1 = inserted e \<and> e_value e1 = e_value e \<and> ttl ?c = ttl c"
    using Cons.prems(2) by (cases "k' = k") (auto simp: cache_get_def update_conv' delete_conv' split: option.splits)
  then obtain e1 where e1: "map_of (entries ?c) k = Some e1" "inserted e1 = inserted e"
    "e_value e1 = e_value e" "ttl ?c = ttl c" by blast
  moreover have "\<exists>e'. map_of (entries (fold (cache_apply order) ops ?c)) k = Some e' \<and> inserted e' = inserted e1
    \<and> e_value e' = e_value e1 \<and> ttl (fold (cache_apply order) ops ?c) = ttl ?c"
    using Cons.prems e1 by (intro Cons.IH) auto
  ultimately show ?case by (simp add: op)
qed

lemma gets_keep_none:
  assumes "\<forall>op \<in> set ops. \<exists>t k. op = Op_get t k" "\<not> fresh now k c"
  shows "\<not> fresh now k (fold (cache_apply order) ops c)"
  using assms
proof (induction ops arbitrary: c)
  case Nil
  then show ?case by simp
next
  case (Cons op ops)
  then obtain t k' where op: "op = Op_get t k'" by auto
  have "\<not> fresh now k (snd (cache_get t k' c))"
    using Cons.prems(2) by (auto simp: fresh_def cache_get_def update_conv' delete_conv' split: option.splits if_splits)
  with Cons op show ?case by simp
qed

text \<open>C25. The cache never holds more entries than its capacity (one, for a capacity of zero) and never
  two under one key, through any sequence of lookups and insertions and whatever the iteration
  order of the map.\<close>

theorem cache_bounded:
  assumes "enumerates order"
  shows "length (entries (fold (cache_apply order) ops (cache_new n t))) \<le> max 1 n
    \<and> distinct (map fst (entries (fold (cache_apply order) ops (cache_new n t))))"
proof -
  have "capacity (cache_new n t) = n" by (simp add: cache_new_def)
  with cache_run_wf [OF assms cache_new_wf, of ops n t] show ?thesis
    by (auto simp: cache_wf_def)
qed

theorem cache_bounded_witness:
  "length (entries (fold (cache_apply rev) [Op_put 0 [1] [9], Op_put 1 [2] [8], Op_put 2 [3] [7]] (cache_new 2 10))) \<le> 2"
proof -
  have "enumerates rev" by (simp add: enumerates_def)
  from cache_bounded [OF this, of "[Op_put 0 [1] [9], Op_put 1 [2] [8], Op_put 2 [3] [7]]" 2 10]
  show ?thesis by simp
qed


text \<open>Exactly the time to live: with no later insertion, a lookup finds the value up to and including
  \<open>ttl\<close> after its insertion and not afterwards, however many lookups (of any key) come between.\<close>

lemma cache_entry_lifetime:
  assumes "\<forall>op \<in> set ops. \<exists>t k. op = Op_get t k \<and> t \<le> now"
  shows "fst (cache_get now k (fold (cache_apply order) ops (cache_put order t0 k v c)))
    = (if now - t0 \<le> ttl c then Some v else None)"
proof -
  let ?c = "cache_put order t0 k v c"
  have put: "map_of (entries ?c) k = Some \<lparr>e_value = v, inserted = t0, last_used = t0\<rparr>" "ttl ?c = ttl c"
    by (simp_all add: cache_put_def Let_def update_conv' evict_lru_frame)
  show ?thesis
  proof (cases "now - t0 \<le> ttl c")
    case True
    with gets_keep_entry [OF assms put(1), of order] put(2) show ?thesis
      by (auto simp: cache_get_def)
  next
    case False
    with put have "\<not> fresh now k ?c" by (simp add: fresh_def)
    then have "\<not> fresh now k (fold (cache_apply order) ops ?c)"
      using assms by (intro gets_keep_none) auto
    from cache_get_stale [OF this] False show ?thesis by fastforce
  qed
qed

text \<open>An insertion of a new key into a full cache evicts exactly one entry: one that was used least
  recently among the first eight the map iterates over. Every other entry stays, and the new one
  is found.\<close>

lemma eviction_is_sampled_lru:
  assumes "enumerates order" "cache_wf c" "entries c \<noteq> []" "length (entries c) = capacity c"
    and "map_of (entries c) key = None"
  shows "\<exists>k e. (k, e) \<in> set (take 8 (order (entries c)))
    \<and> (\<forall>(k', e') \<in> set (take 8 (order (entries c))). last_used e \<le> last_used e')
    \<and> map_of (entries (cache_put order now key v c))
        = (map_of (entries c))(k := None, key \<mapsto> \<lparr>e_value = v, inserted = now, last_used = now\<rparr>)"
proof -
  from evict_lru_victim [OF assms(1,3)] obtain k e where
    "(k, e) \<in> set (take 8 (order (entries c)))"
    "\<forall>(k', e') \<in> set (take 8 (order (entries c))). last_used e \<le> last_used e'"
    and v: "evict_lru order c = c\<lparr>entries := AList.delete k (entries c)\<rparr>" .
  moreover have "map_of (entries (cache_put order now key v c))
      = (map_of (entries c))(k := None, key \<mapsto> \<lparr>e_value = v, inserted = now, last_used = now\<rparr>)"
    using assms(4,5) v by (simp add: cache_put_def Let_def update_conv' delete_conv')
  ultimately show ?thesis by blast
qed

text \<open>The input of the key hash identifies the call: two calls whose serialised arguments hold no zero
  byte, as JSON text does not, have the same preimage only if tool and arguments are the same.\<close>

lemma key_preimage_identifies_call:
  assumes "0 \<notin> set a" "0 \<notin> set a'" "key_preimage t a = key_preimage t' a'"
  shows "t = t' \<and> a = a'"
  by (rule key_preimage_args [OF assms])

end
