(* ===== verification/Core_Json.thy ===== *)
theory Core_Json
  imports Ohmcp_Prelude "HOL-Library.List_Lexorder" "HOL-Library.Char_ord" "HOL-Library.Monad_Syntax"
begin

text \<open>
  JSON documents as \<open>serde_json\<close> presents them, the accessors of its \<open>Value\<close> type, and what the
  derived \<open>Deserialize\<close> implementations do with a document. An object is the list of its members
  in document order; a \<open>Value\<close> is a document in normal form (the map type of this build is a
  \<open>BTreeMap\<close>: members sorted by key, the last duplicate wins). A floating-point number is its 64
  bits; nothing here computes with it.
\<close>

datatype json =
    JNull
  | JBool bool
  | JPos u64
  | JNeg int
  | JFloat u64
  | JStr string
  | JArr "json list"
  | JObj "(string \<times> json) list"

section \<open>Values\<close>

text \<open>\<open>BTreeMap::insert\<close> on the sorted member list.\<close>

fun member_insert :: "string \<Rightarrow> json \<Rightarrow> (string \<times> json) list \<Rightarrow> (string \<times> json) list" where
  "member_insert k v [] = [(k, v)]"
| "member_insert k v ((k', v') # ms) =
     (if k = k' then (k, v) # ms
      else if k < k' then (k, v) # (k', v') # ms
      else (k', v') # member_insert k v ms)"

definition members_norm :: "(string \<times> json) list \<Rightarrow> (string \<times> json) list" where
  "members_norm ms = fold (\<lambda>(k, v). member_insert k v) ms []"

text \<open>A document read as a \<open>Value\<close>.\<close>

primrec to_value :: "json \<Rightarrow> json" where
  "to_value JNull = JNull"
| "to_value (JBool b) = JBool b"
| "to_value (JPos n) = JPos n"
| "to_value (JNeg i) = JNeg i"
| "to_value (JFloat w) = JFloat w"
| "to_value (JStr s) = JStr s"
| "to_value (JArr vs) = JArr (map to_value vs)"
| "to_value (JObj ms) = JObj (members_norm (map (map_prod id to_value) ms))"

definition is_value :: "json \<Rightarrow> bool" where
  "is_value v \<longleftrightarrow> to_value v = v"

definition is_null :: "json \<Rightarrow> bool" where
  "is_null v \<longleftrightarrow> v = JNull"

text \<open>\<open>Value::get\<close> with a string index.\<close>

fun json_get :: "string \<Rightarrow> json \<Rightarrow> json option" where
  "json_get k (JObj ms) = map_of ms k"
| "json_get k _ = None"

fun as_str :: "json \<Rightarrow> string option" where
  "as_str (JStr s) = Some s"
| "as_str _ = None"

fun as_u64 :: "json \<Rightarrow> u64 option" where
  "as_u64 (JPos n) = Some n"
| "as_u64 _ = None"

fun as_bool :: "json \<Rightarrow> bool option" where
  "as_bool (JBool b) = Some b"
| "as_bool _ = None"

fun as_array :: "json \<Rightarrow> json list option" where
  "as_array (JArr vs) = Some vs"
| "as_array _ = None"

lemma as_str_None: "as_str v = None \<longleftrightarrow> (\<forall>s. v \<noteq> JStr s)"
  by (cases v) auto

lemma map_of_member_insert: "map_of (member_insert k v ms) = (map_of ms)(k \<mapsto> v)"
  by (induction ms) (auto simp: fun_eq_iff)

text \<open>Looking a key up in a \<open>Value\<close> finds its last occurrence in the document.\<close>

lemma map_of_members_norm: "map_of (members_norm ms) = map_of (rev ms)"
proof -
  have "map_of (fold (\<lambda>(k, v). member_insert k v) ms acc) = map_of acc ++ map_of (rev ms)" for acc
    by (induction ms arbitrary: acc) (auto simp: map_of_member_insert fun_eq_iff map_add_def split: option.splits)
  from this [of "[]"] show ?thesis by (simp add: members_norm_def)
qed

lemma member_insert_sorted:
  "sorted_wrt (<) (map fst ms) \<Longrightarrow> sorted_wrt (<) (map fst (member_insert k v ms))
    \<and> fst ` set (member_insert k v ms) = insert k (fst ` set ms)"
proof (induction ms)
  case (Cons m ms)
  obtain k' v' where m: "m = (k', v')" by fastforce
  from Cons.prems have "sorted_wrt (<) (map fst ms)" by simp
  note IH = Cons.IH [OF this]
  show ?case
  proof (cases "k = k' \<or> k < k'")
    case True
    moreover have "\<forall>a \<in> set (map fst ms). k' < a" using Cons.prems m by simp
    ultimately show ?thesis using Cons.prems m by (cases "k = k'") (auto intro: less_trans)
  next
    case False
    then have "k' < k" by auto
    with False IH Cons.prems m show ?thesis by auto
  qed
qed simp

lemma members_norm_sorted: "sorted_wrt (<) (map fst (members_norm ms))"
proof -
  have "sorted_wrt (<) (map fst acc) \<Longrightarrow> sorted_wrt (<) (map fst (fold (\<lambda>(k, v). member_insert k v) ms acc))" for acc
    by (induction ms arbitrary: acc) (auto simp: member_insert_sorted)
  from this [of "[]"] show ?thesis by (simp add: members_norm_def)
qed

lemma member_insert_last:
  "\<forall>k' \<in> fst ` set ms. k' < k \<Longrightarrow> member_insert k v ms = ms @ [(k, v)]"
  by (induction ms) fastforce+

lemma members_norm_id: "sorted_wrt (<) (map fst ms) \<Longrightarrow> members_norm ms = ms"
proof -
  have "sorted_wrt (<) (map fst (acc @ ms)) \<Longrightarrow> fold (\<lambda>(k, v). member_insert k v) ms acc = acc @ ms" for acc
    by (induction ms arbitrary: acc) (auto simp: member_insert_last sorted_wrt_append)
  from this [of "[]"] show "sorted_wrt (<) (map fst ms) \<Longrightarrow> members_norm ms = ms"
    by (simp add: members_norm_def)
qed

lemma map_member_insert:
  "map (map_prod id g) (member_insert k v ms) = member_insert k (g v) (map (map_prod id g) ms)"
  by (induction ms) auto

lemma map_members_norm: "map (map_prod id g) (members_norm ms) = members_norm (map (map_prod id g) ms)"
proof -
  have "map (map_prod id g) (fold (\<lambda>(k, v). member_insert k v) ms acc)
      = fold (\<lambda>(k, v). member_insert k v) (map (map_prod id g) ms) (map (map_prod id g) acc)" for acc
    by (induction ms arbitrary: acc) (auto simp: map_member_insert)
  then show ?thesis by (simp add: members_norm_def)
qed

lemma to_value_is_value [simp]: "is_value (to_value v)"
proof -
  have "to_value (to_value v) = to_value v"
  proof (induction v)
    case (JObj ms)
    have "map (map_prod id to_value) (map (map_prod id to_value) ms) = map (map_prod id to_value) ms"
      using JObj by (fastforce simp: map_prod_def)
    then have "members_norm (map (map_prod id to_value) (members_norm (map (map_prod id to_value) ms)))
        = members_norm (map (map_prod id to_value) ms)"
      by (simp only: map_members_norm members_norm_id members_norm_sorted)
    then show ?case by simp
  qed (auto simp: o_def)
  then show ?thesis by (simp add: is_value_def)
qed

section \<open>Derived deserialisers\<close>

text \<open>
  The visitor of a struct with the given fields: an object gives each field at most once and
  others are skipped; an array gives the fields in order.
\<close>

fun struct_fields :: "string list \<Rightarrow> json \<Rightarrow> (string \<rightharpoonup> json) option" where
  "struct_fields ks (JObj ms) =
     (let known = filter (\<lambda>(k, v). k \<in> set ks) ms
      in if distinct (map fst known) then Some (map_of known) else None)"
| "struct_fields ks (JArr vs) = (if length ks < length vs then None else Some (map_of (zip ks vs)))"
| "struct_fields ks _ = None"

text \<open>A field without and one with \<open>#[serde(default)]\<close>.\<close>

definition required :: "(json \<Rightarrow> 'a option) \<Rightarrow> string \<Rightarrow> (string \<rightharpoonup> json) \<Rightarrow> 'a option" where
  "required de k m = Option.bind (m k) de"

definition defaulted :: "'a \<Rightarrow> (json \<Rightarrow> 'a option) \<Rightarrow> string \<Rightarrow> (string \<rightharpoonup> json) \<Rightarrow> 'a option" where
  "defaulted d de k m = (case m k of None \<Rightarrow> Some d | Some v \<Rightarrow> de v)"

text \<open>The field types that occur: \<open>String\<close>, \<open>u64\<close>, \<open>i64\<close>, \<open>bool\<close>, \<open>Value\<close>, \<open>Option\<close> and \<open>Vec\<close>.\<close>

definition de_str :: "json \<Rightarrow> string option" where "de_str = as_str"
definition de_u64 :: "json \<Rightarrow> u64 option" where "de_u64 = as_u64"
definition de_bool :: "json \<Rightarrow> bool option" where "de_bool = as_bool"
definition de_value :: "json \<Rightarrow> json option" where "de_value v = Some (to_value v)"

fun de_i64 :: "json \<Rightarrow> int option" where
  "de_i64 (JPos n) = (if uint n < 2 ^ 63 then Some (uint n) else None)"
| "de_i64 (JNeg i) = (if - (2 ^ 63) \<le> i then Some i else None)"
| "de_i64 _ = None"

definition de_option :: "(json \<Rightarrow> 'a option) \<Rightarrow> json \<Rightarrow> 'a option option" where
  "de_option de v = (if v = JNull then Some None else map_option Some (de v))"

fun de_all :: "(json \<Rightarrow> 'a option) \<Rightarrow> json list \<Rightarrow> 'a list option" where
  "de_all de [] = Some []"
| "de_all de (v # vs) = do { a \<leftarrow> de v; as \<leftarrow> de_all de vs; Some (a # as) }"

definition de_vec :: "(json \<Rightarrow> 'a option) \<Rightarrow> json \<Rightarrow> 'a list option" where
  "de_vec de v = Option.bind (as_array v) (de_all de)"

text \<open>Serialising: \<open>i64\<close>, and a field left out when it is \<open>None\<close>.\<close>

definition se_i64 :: "int \<Rightarrow> json" where
  "se_i64 i = (if i < 0 then JNeg i else JPos (word_of_int i))"

definition se_opt :: "string \<Rightarrow> ('a \<Rightarrow> json) \<Rightarrow> 'a option \<Rightarrow> (string \<times> json) list" where
  "se_opt k se a = (case a of None \<Rightarrow> [] | Some b \<Rightarrow> [(k, se b)])"

named_theorems serde_simps

lemma de_prim [serde_simps]:
  "de_str (JStr s) = Some s" "de_u64 (JPos n) = Some n" "de_bool (JBool b) = Some b"
  "is_value v \<Longrightarrow> de_value v = Some v"
  by (simp_all add: de_str_def de_u64_def de_bool_def de_value_def is_value_def)

lemma de_se_i64 [serde_simps]: "- (2 ^ 63) \<le> i \<Longrightarrow> i < 2 ^ 63 \<Longrightarrow> de_i64 (se_i64 i) = Some i"
  by (auto simp: se_i64_def unsigned_of_int take_bit_int_eq_self)

lemma de_option_Some [serde_simps]: "v \<noteq> JNull \<Longrightarrow> de_option de v = map_option Some (de v)"
  by (simp add: de_option_def)

lemma de_all_map: "\<forall>a \<in> set as. de (se a) = Some a \<Longrightarrow> de_all de (map se as) = Some as"
  by (induction as) simp_all

lemma de_vec_map [serde_simps]:
  "\<forall>a \<in> set as. de (se a) = Some a \<Longrightarrow> de_vec de (JArr (map se as)) = Some as"
  by (simp add: de_vec_def de_all_map)

end
