(* ===== verification/External.thy ===== *)
theory External
  imports Core_Json
begin

text \<open>
  The third-party crates the stack calls, as one record of functions that the definitions take
  as an argument, and the documented behaviour of each as a named predicate: \<open>lz4_flex\<close>,
  \<open>sha2\<close>, \<open>hmac\<close>, \<open>x25519-dalek\<close>, \<open>chacha20poly1305\<close> and \<open>serde_json\<close>.
\<close>

record ext =
  lz_compress :: "bytes \<Rightarrow> bytes"
  lz_decompress :: "bytes \<Rightarrow> string + bytes"
  sha256 :: "bytes \<Rightarrow> bytes"
  hmac_sha256 :: "bytes \<Rightarrow> bytes \<Rightarrow> bytes"
  x25519_public :: "bytes \<Rightarrow> bytes"
  x25519_dh :: "bytes \<Rightarrow> bytes \<Rightarrow> bytes"
  aead_seal :: "bytes \<Rightarrow> bytes \<Rightarrow> bytes \<Rightarrow> bytes \<Rightarrow> bytes"
  aead_open :: "bytes \<Rightarrow> bytes \<Rightarrow> bytes \<Rightarrow> bytes \<Rightarrow> bytes option"
  to_vec :: "json \<Rightarrow> bytes"
  from_slice :: "bytes \<Rightarrow> string + json"

text \<open>Decompression inverts compression.\<close>

definition lz4_ok :: "ext \<Rightarrow> bool" where
  "lz4_ok x \<longleftrightarrow> (\<forall>p. lz_decompress x (lz_compress x p) = Inr p)"

text \<open>Opening inverts sealing; a sealed text is the plaintext's length plus a 16-byte tag.\<close>

definition aead_ok :: "ext \<Rightarrow> bool" where
  "aead_ok x \<longleftrightarrow> (\<forall>k n a p. aead_open x k n a (aead_seal x k n a p) = Some p
     \<and> length (aead_seal x k n a p) = length p + 16)"

text \<open>
  Authenticity, idealised: only a sealed text opens, and the same sealed text is not made under
  two different pieces of (9-byte) associated data.
\<close>

definition aead_authentic :: "ext \<Rightarrow> bool" where
  "aead_authentic x \<longleftrightarrow>
     (\<forall>k n a c p. aead_open x k n a c = Some p \<longrightarrow> c = aead_seal x k n a p)
     \<and> (\<forall>k n a a' p p'. length a = 9 \<and> length a' = 9 \<and> aead_seal x k n a p = aead_seal x k n a' p'
          \<longrightarrow> a = a')"

text \<open>The two sides of a key exchange compute the same shared secret.\<close>

definition x25519_ok :: "ext \<Rightarrow> bool" where
  "x25519_ok x \<longleftrightarrow> (\<forall>a b. x25519_dh x a (x25519_public x b) = x25519_dh x b (x25519_public x a))"

text \<open>
  A sample of functions with these laws, on which the hypotheses of the properties are checked
  to be satisfiable. It is not a model of the crates.
\<close>

definition sample_tag :: "bytes \<Rightarrow> bytes" where
  "sample_tag a = take 16 (a @ replicate 16 0)"

definition sample_ext :: ext where
  "sample_ext = \<lparr>lz_compress = id, lz_decompress = Inr,
     sha256 = (\<lambda>p. take 32 (p @ replicate 32 0)),
     hmac_sha256 = (\<lambda>k m. take 32 (k @ m @ replicate 32 0)),
     x25519_public = id,
     x25519_dh = (\<lambda>a b. [foldr (+) a 0 + foldr (+) b 0]),
     aead_seal = (\<lambda>k n a p. p @ sample_tag a),
     aead_open = (\<lambda>k n a c. if 16 \<le> length c \<and> drop (length c - 16) c = sample_tag a
                   then Some (take (length c - 16) c) else None),
     to_vec = (\<lambda>v. []),
     from_slice = (\<lambda>b. Inr JNull)\<rparr>"

lemma length_sample_tag [simp]: "length (sample_tag a) = 16"
  by (simp add: sample_tag_def)

lemma sample_lz4_ok: "lz4_ok sample_ext"
  by (simp add: lz4_ok_def sample_ext_def)

lemma sample_aead_ok: "aead_ok sample_ext"
  by (simp add: aead_ok_def sample_ext_def)

lemma sample_aead_authentic: "aead_authentic sample_ext"
proof -
  have "a = a'" if "length a = 9" "length a' = 9" "sample_tag a = sample_tag a'" for a a'
    using that by (simp add: sample_tag_def)
  moreover have "c = p @ sample_tag a"
    if "(if 16 \<le> length c \<and> drop (length c - 16) c = sample_tag a
         then Some (take (length c - 16) c) else None) = Some p" for a c p
    using that by (metis append_take_drop_id option.distinct(1) option.inject)
  ultimately show ?thesis
    unfolding aead_authentic_def sample_ext_def
    by (simp add: append_eq_append_conv)
qed

lemma sample_x25519_ok: "x25519_ok sample_ext"
  by (simp add: x25519_ok_def sample_ext_def add.commute)

end
