(* ===== verification/Cache_Compress.thy ===== *)
theory Cache_Compress
  imports External
begin

text \<open>Transparent compression, \<open>ohmcp-cache/src/compress.rs\<close>.\<close>

definition COMPRESS_THRESHOLD :: nat where "COMPRESS_THRESHOLD = 512"

definition maybe_compress :: "ext \<Rightarrow> bytes \<Rightarrow> bytes \<times> bool" where
  "maybe_compress x p =
     (if length p < COMPRESS_THRESHOLD then (p, False)
      else let c = lz_compress x p in
        if length c < length p then (c, True) else (p, False))"

definition maybe_decompress :: "ext \<Rightarrow> bytes \<Rightarrow> bool \<Rightarrow> string + bytes" where
  "maybe_decompress x p is_compressed =
     (if \<not> is_compressed then Inr p else lz_decompress x p)"

lemma compress_roundtrip:
  "lz4_ok x \<Longrightarrow> maybe_compress x p = (d, c) \<Longrightarrow> maybe_decompress x d c = Inr p"
  by (auto simp: maybe_compress_def maybe_decompress_def lz4_ok_def Let_def split: if_splits)

text \<open>Compression never makes a payload longer, and marks it only when it made it shorter.\<close>

lemma compress_never_grows:
  "maybe_compress x p = (d, c) \<Longrightarrow> (if c then length d < length p else d = p)"
  by (auto simp: maybe_compress_def Let_def split: if_splits)

section \<open>Properties\<close>

text \<open>Compression is transparent and never costs bytes: what \<open>maybe_compress\<close> made, with its mark,
  decompresses to the payload, and it is no longer than the payload.\<close>

lemma compression_transparent:
  assumes "lz4_ok x"
  shows "maybe_decompress x (fst (maybe_compress x p)) (snd (maybe_compress x p)) = Inr p
    \<and> length (fst (maybe_compress x p)) \<le> length p"
  using compress_roundtrip [OF assms, of p] compress_never_grows [of x p]
  by (cases "maybe_compress x p") (auto split: if_splits)

end
