(* ===== verification/Security_Acl.thy ===== *)
theory Security_Acl
  imports Main
begin

text \<open>
  The errors of \<open>ohmcp-security/src/lib.rs\<close> and the tool access list of
  \<open>ohmcp-security/src/acl.rs\<close>.
\<close>

datatype security_error = Auth_failed | Decrypt_failed | Access_denied string

text \<open>The \<open>Display\<close> of the error type.\<close>

fun security_error_text :: "security_error \<Rightarrow> string" where
  "security_error_text Auth_failed = ''authentication failed''"
| "security_error_text Decrypt_failed = ''decryption failed''"
| "security_error_text (Access_denied t) = ''access denied for tool '' @ t"

record tool_acl =
  grants :: "string \<Rightarrow> string set option"
  allow_all :: "string set"

definition acl_new :: tool_acl where
  "acl_new = \<lparr>grants = Map.empty, allow_all = {}\<rparr>"

definition acl_grant :: "string \<Rightarrow> string \<Rightarrow> tool_acl \<Rightarrow> tool_acl" where
  "acl_grant agent tool a =
     a\<lparr>grants := (grants a)(agent \<mapsto> insert tool (case grants a agent of None \<Rightarrow> {} | Some s \<Rightarrow> s))\<rparr>"

definition acl_grant_all :: "string \<Rightarrow> tool_acl \<Rightarrow> tool_acl" where
  "acl_grant_all agent a = a\<lparr>allow_all := insert agent (allow_all a)\<rparr>"

definition acl_check :: "tool_acl \<Rightarrow> string \<Rightarrow> string \<Rightarrow> security_error + unit" where
  "acl_check a agent tool =
     (if agent \<in> allow_all a then Inr ()
      else if (case grants a agent of None \<Rightarrow> False | Some s \<Rightarrow> tool \<in> s) then Inr ()
      else Inl (Access_denied tool))"

definition acl_allows :: "tool_acl \<Rightarrow> string \<Rightarrow> string \<Rightarrow> bool" where
  "acl_allows a agent tool \<longleftrightarrow> acl_check a agent tool = Inr ()"

lemma acl_allows_iff:
  "acl_allows a agent tool \<longleftrightarrow>
     agent \<in> allow_all a \<or> (\<exists>s. grants a agent = Some s \<and> tool \<in> s)"
  by (auto simp: acl_allows_def acl_check_def split: option.splits)

text \<open>Nothing is allowed at first; each grant allows exactly what it names.\<close>

lemma acl_new_denies: "\<not> acl_allows acl_new agent tool"
  by (simp add: acl_allows_iff acl_new_def)

lemma acl_grant_allows:
  "acl_allows (acl_grant ag t a) agent tool \<longleftrightarrow> agent = ag \<and> tool = t \<or> acl_allows a agent tool"
  by (auto simp: acl_allows_iff acl_grant_def split: option.splits)

lemma acl_grant_all_allows:
  "acl_allows (acl_grant_all ag a) agent tool \<longleftrightarrow> agent = ag \<or> acl_allows a agent tool"
  by (auto simp: acl_allows_iff acl_grant_all_def)

text \<open>A policy as the list of grants that made it.\<close>

datatype acl_op = Grant string string | Grant_all string

fun acl_apply :: "acl_op \<Rightarrow> tool_acl \<Rightarrow> tool_acl" where
  "acl_apply (Grant ag t) a = acl_grant ag t a"
| "acl_apply (Grant_all ag) a = acl_grant_all ag a"

lemma acl_ops_allow:
  "acl_allows (fold acl_apply ops a) agent tool \<longleftrightarrow>
     acl_allows a agent tool \<or> Grant agent tool \<in> set ops \<or> Grant_all agent \<in> set ops"
proof (induction ops arbitrary: a)
  case Nil
  then show ?case by simp
next
  case (Cons op ops)
  then show ?case by (cases op) (auto simp: acl_grant_allows acl_grant_all_allows)
qed

section \<open>Properties\<close>

text \<open>Least privilege: after any sequence of grants, an agent may call exactly the tools it was
  granted, or all of them if it was granted all; no grant reaches another agent.\<close>

lemma acl_allows_exactly_the_grants:
  "acl_allows (fold acl_apply ops acl_new) agent tool \<longleftrightarrow> Grant agent tool \<in> set ops \<or> Grant_all agent \<in> set ops"
  by (simp add: acl_ops_allow acl_new_denies)

end
