(* ===== verification/Security_Crypto.thy ===== *)
theory Security_Crypto
  imports External Security_Acl
begin

text \<open>
  Session encryption, \<open>ohmcp-security/src/crypto.rs\<close>: nonces from a random prefix and a counter,
  and the layout nonce, ciphertext, tag.
\<close>

record session_cipher =
  c_key :: bytes
  nonce_prefix :: bytes
  nonce_counter :: u64

text \<open>\<open>SessionCipher::new\<close>; the four random bytes of the prefix are an argument.\<close>

definition cipher_new :: "bytes \<Rightarrow> bytes \<Rightarrow> session_cipher" where
  "cipher_new key rnd = \<lparr>c_key = key, nonce_prefix = rnd, nonce_counter = 0\<rparr>"

definition next_nonce :: "session_cipher \<Rightarrow> bytes" where
  "next_nonce c = nonce_prefix c @ u64_to_le (nonce_counter c)"

definition cipher_encrypt :: "ext \<Rightarrow> session_cipher \<Rightarrow> bytes \<Rightarrow> bytes \<Rightarrow> bytes \<times> session_cipher" where
  "cipher_encrypt x c plaintext aad =
     (next_nonce c @ aead_seal x (c_key c) (next_nonce c) aad plaintext,
      c\<lparr>nonce_counter := nonce_counter c + 1\<rparr>)"

definition cipher_decrypt :: "ext \<Rightarrow> session_cipher \<Rightarrow> bytes \<Rightarrow> bytes \<Rightarrow> security_error + bytes" where
  "cipher_decrypt x c data aad =
     (if length data < 12 + 16 then Inl Decrypt_failed
      else case aead_open x (c_key c) (take 12 data) aad (drop 12 data) of
          None \<Rightarrow> Inl Decrypt_failed
        | Some p \<Rightarrow> Inr p)"

text \<open>The one-shot helpers.\<close>

definition encrypt_once :: "ext \<Rightarrow> bytes \<Rightarrow> bytes \<Rightarrow> bytes \<Rightarrow> bytes \<Rightarrow> bytes" where
  "encrypt_once x rnd key plaintext aad = fst (cipher_encrypt x (cipher_new key rnd) plaintext aad)"

definition decrypt_once :: "ext \<Rightarrow> bytes \<Rightarrow> bytes \<Rightarrow> bytes \<Rightarrow> bytes \<Rightarrow> security_error + bytes" where
  "decrypt_once x rnd key data aad = cipher_decrypt x (cipher_new key rnd) data aad"

definition cipher_wf :: "session_cipher \<Rightarrow> bool" where
  "cipher_wf c \<longleftrightarrow> length (nonce_prefix c) = 4"

lemma length_next_nonce [simp]: "cipher_wf c \<Longrightarrow> length (next_nonce c) = 12"
  by (simp add: next_nonce_def cipher_wf_def)

lemma cipher_encrypt_wf: "cipher_wf c \<Longrightarrow> cipher_encrypt x c p a = (d, c') \<Longrightarrow> cipher_wf c' \<and> c_key c' = c_key c"
  by (auto simp: cipher_encrypt_def cipher_wf_def)

text \<open>Whoever holds the key reads what was encrypted under it; the counters do not matter.\<close>

lemma cipher_roundtrip:
  assumes "aead_ok x" "cipher_wf c" "c_key c = c_key c2" "cipher_encrypt x c p a = (d, c')"
  shows "cipher_decrypt x c2 d a = Inr p"
proof -
  have d: "d = next_nonce c @ aead_seal x (c_key c) (next_nonce c) a p"
    using assms(4) by (simp add: cipher_encrypt_def)
  have n: "length (next_nonce c) = 12" using assms(2) by simp
  have "length d = 12 + (length p + 16)"
    using assms(1) n by (simp add: d aead_ok_def)
  moreover have "take 12 d = next_nonce c" "drop 12 d = aead_seal x (c_key c) (next_nonce c) a p"
    using n by (simp_all add: d)
  ultimately show ?thesis
    using assms(1,3) by (simp add: cipher_decrypt_def aead_ok_def)
qed

lemma cipher_tamper:
  assumes "aead_ok x" "aead_authentic x" "cipher_wf c" "c_key c = c_key c2"
    and "cipher_encrypt x c p a = (d, c')" "length a = 9" "length a' = 9" "a' \<noteq> a"
  shows "cipher_decrypt x c2 d a' = Inl Decrypt_failed"
proof -
  have d: "d = next_nonce c @ aead_seal x (c_key c) (next_nonce c) a p"
    using assms(5) by (simp add: cipher_encrypt_def)
  have n: "length (next_nonce c) = 12" using assms(3) by simp
  have "aead_open x (c_key c) (next_nonce c) a' (aead_seal x (c_key c) (next_nonce c) a p) = None"
  proof (rule ccontr)
    assume "\<not> ?thesis"
    then obtain p' where
      "aead_open x (c_key c) (next_nonce c) a' (aead_seal x (c_key c) (next_nonce c) a p) = Some p'"
      by auto
    with assms(2) have "aead_seal x (c_key c) (next_nonce c) a p = aead_seal x (c_key c) (next_nonce c) a' p'"
      unfolding aead_authentic_def by blast
    with assms(2,6,7) have "a = a'"
      unfolding aead_authentic_def by blast
    with assms(8) show False by simp
  qed
  moreover have "take 12 d = next_nonce c" "drop 12 d = aead_seal x (c_key c) (next_nonce c) a p"
    using n by (simp_all add: d)
  ultimately show ?thesis
    using assms(4) by (simp add: cipher_decrypt_def)
qed

section \<open>Nonces\<close>

text \<open>The nonces of a run of encryptions.\<close>

fun nonces_of_run :: "ext \<Rightarrow> session_cipher \<Rightarrow> (bytes \<times> bytes) list \<Rightarrow> bytes list" where
  "nonces_of_run x c [] = []"
| "nonces_of_run x c ((p, a) # ms) =
     (case cipher_encrypt x c p a of (d, c') \<Rightarrow> take 12 d # nonces_of_run x c' ms)"

lemma nonces_of_run_nth:
  assumes "cipher_wf c"
  shows "nonces_of_run x c ms =
    map (\<lambda>i. nonce_prefix c @ u64_to_le (nonce_counter c + word_of_nat i)) [0..<length ms]"
  using assms
proof (induction ms arbitrary: c)
  case Nil
  then show ?case by simp
next
  case (Cons m ms)
  obtain p a where m: "m = (p, a)" by fastforce
  let ?c = "c\<lparr>nonce_counter := nonce_counter c + 1\<rparr>"
  have t: "take 12 (next_nonce c @ aead_seal x (c_key c) (next_nonce c) a p) = next_nonce c"
    by (metis Cons.prems append_eq_conv_conj length_next_nonce)
  have "nonces_of_run x c (m # ms) = next_nonce c # nonces_of_run x ?c ms"
    by (simp add: m cipher_encrypt_def t del: take_append)
  also have "nonces_of_run x ?c ms
      = map (\<lambda>i. nonce_prefix c @ u64_to_le (nonce_counter c + word_of_nat i)) (map Suc [0..<length ms])"
    using Cons.IH [of ?c] Cons.prems by (simp add: cipher_wf_def algebra_simps)
  also have "next_nonce c # \<dots>
      = map (\<lambda>i. nonce_prefix c @ u64_to_le (nonce_counter c + word_of_nat i)) (0 # map Suc [0..<length ms])"
    by (simp add: next_nonce_def)
  also have "0 # map Suc [0..<length ms] = [0..<length (m # ms)]"
    by (simp add: map_Suc_upt upt_conv_Cons del: upt_Suc)
  finally show ?case .
qed

lemma u64_to_le_inj: "u64_to_le a = u64_to_le b \<longleftrightarrow> a = b"
  by (metis u64_roundtrip)

lemma nonces_distinct:
  assumes "cipher_wf c" "length ms \<le> 2 ^ 64"
  shows "distinct (nonces_of_run x c ms)"
proof -
  have "inj_on (\<lambda>i. nonce_prefix c @ u64_to_le (nonce_counter c + word_of_nat i)) {0..<length ms}"
  proof (rule inj_onI)
    fix i j
    assume ij: "i \<in> {0..<length ms}" "j \<in> {0..<length ms}"
      and "nonce_prefix c @ u64_to_le (nonce_counter c + word_of_nat i)
        = nonce_prefix c @ u64_to_le (nonce_counter c + word_of_nat j)"
    then have "(word_of_nat i :: u64) = word_of_nat j"
      by (simp add: u64_to_le_inj)
    then have "unat (word_of_nat i :: u64) = unat (word_of_nat j :: u64)" by simp
    moreover have "i < 2 ^ 64" "j < 2 ^ 64" using ij assms(2) by auto
    ultimately show "i = j" by (simp add: unat_of_nat)
  qed
  then show ?thesis
    by (simp add: nonces_of_run_nth [OF assms(1)] distinct_map)
qed

section \<open>Properties\<close>

text \<open>C33. Within one session a cipher never uses a nonce twice, for up to \<open>2 ^ 64\<close> messages of any kind.\<close>

theorem nonces_never_repeat:
  assumes "length rnd = 4" "length ms \<le> 2 ^ 64"
  shows "distinct (nonces_of_run x (cipher_new key rnd) ms)"
  using assms by (intro nonces_distinct) (simp_all add: cipher_wf_def cipher_new_def)

theorem nonces_never_repeat_witness:
  "distinct (nonces_of_run sample_ext (cipher_new [] [1, 2, 3, 4]) [([5], [6]), ([7], [8]), ([5], [6])])"
  by (rule nonces_never_repeat) simp_all

text \<open>The two ends of a session hold the same key and start their counters at zero, so if they draw
  the same four-byte prefix their messages use the same nonces, one by one.\<close>

lemma equal_prefixes_reuse_nonces:
  assumes "length rnd = 4" "length ms \<le> length ns"
  shows "nonces_of_run x (cipher_new key rnd) ms = take (length ms) (nonces_of_run x (cipher_new key rnd) ns)"
proof -
  have w: "cipher_wf (cipher_new key rnd)" using assms(1) by (simp add: cipher_wf_def cipher_new_def)
  show ?thesis
    using assms(2) by (simp add: nonces_of_run_nth [OF w] take_map)
qed

end
