(* ===== verification/Client_Pipeline.thy ===== *)
theory Client_Pipeline
  imports Core_Frame Cache_Result Cache_Compress Security_Crypto
begin

unbundle bit_operations_syntax

text \<open>
  The payload pipeline both ends run, \<open>ohmcp-client/src/pipeline.rs\<close>: cache references, then
  compression, then encryption on the way out, the inverse on the way in.
\<close>

section \<open>The pipeline\<close>

record pipeline =
  p_cipher :: "session_cipher option"
  p_cache :: result_cache

text \<open>\<open>Duration::from_secs(300)\<close> in nanoseconds.\<close>

definition CLIENT_CACHE_TTL :: nat where "CLIENT_CACHE_TTL = 300 * 10 ^ 9"

definition pipeline_new :: pipeline where
  "pipeline_new = \<lparr>p_cipher = None, p_cache = cache_new 4096 CLIENT_CACHE_TTL\<rparr>"

text \<open>\<open>rnd\<close> is the prefix \<open>SessionCipher::new\<close> draws.\<close>

definition enable_encryption :: "bytes \<Rightarrow> bytes \<Rightarrow> pipeline \<Rightarrow> pipeline" where
  "enable_encryption rnd key p = p\<lparr>p_cipher := Some (cipher_new key rnd)\<rparr>"

definition encryption_enabled :: "pipeline \<Rightarrow> bool" where
  "encryption_enabled p \<longleftrightarrow> p_cipher p \<noteq> None"

definition frame_aad :: "msg_type \<Rightarrow> u64 \<Rightarrow> bytes" where
  "frame_aad t i = msg_type_to_u8 t # u64_to_le i"

text \<open>The frame and its flags, and the pipeline with the nonce counter advanced.\<close>

definition wrap :: "ext \<Rightarrow> msg_type \<Rightarrow> u64 \<Rightarrow> bytes \<Rightarrow> pipeline \<Rightarrow> (frame \<times> frame_flags) \<times> pipeline" where
  "wrap x t i plain p =
     (case maybe_compress x plain of (data, was_compressed) \<Rightarrow>
        let fl = (if was_compressed then FLAG_NONE OR COMPRESSED else FLAG_NONE) in
        case p_cipher p of
          Some c \<Rightarrow>
            (case cipher_encrypt x c data (frame_aad t i) of (sealed, c') \<Rightarrow>
               ((\<lparr>header = \<lparr>flags = fl OR ENCRYPTED, msg_type = t, request_id = i, payload_len = len_u32 sealed\<rparr>,
                  payload = sealed\<rparr>, fl OR ENCRYPTED),
                p\<lparr>p_cipher := Some c'\<rparr>))
        | None \<Rightarrow>
            ((\<lparr>header = \<lparr>flags = fl, msg_type = t, request_id = i, payload_len = len_u32 data\<rparr>,
               payload = data\<rparr>, fl), p))"

definition wrap_cache_ref :: "ext \<Rightarrow> msg_type \<Rightarrow> u64 \<Rightarrow> cache_key \<Rightarrow> pipeline \<Rightarrow> frame \<times> pipeline" where
  "wrap_cache_ref x t i key p =
     (case p_cipher p of
        Some c \<Rightarrow>
          (case cipher_encrypt x c key (frame_aad t i) of (sealed, c') \<Rightarrow>
             (\<lparr>header = \<lparr>flags = CACHE_REF OR ENCRYPTED, msg_type = t, request_id = i,
                          payload_len = len_u32 sealed\<rparr>, payload = sealed\<rparr>,
              p\<lparr>p_cipher := Some c'\<rparr>))
      | None \<Rightarrow>
          (\<lparr>header = \<lparr>flags = CACHE_REF, msg_type = t, request_id = i, payload_len = len_u32 key\<rparr>,
            payload = key\<rparr>, p))"

text \<open>The decryption step of \<open>unwrap\<close>.\<close>

definition unseal :: "ext \<Rightarrow> frame \<Rightarrow> pipeline \<Rightarrow> string + bytes" where
  "unseal x f p =
     (if encrypted (flags (header f)) then
        (case p_cipher p of
           None \<Rightarrow> Inl ''encrypted frame but no session key''
         | Some c \<Rightarrow>
             (case cipher_decrypt x c (payload f) (frame_aad (msg_type (header f)) (request_id (header f))) of
                Inl e \<Rightarrow> Inl (security_error_text e)
              | Inr d \<Rightarrow> Inr d))
      else Inr (payload f))"

text \<open>\<open>now\<close> is the instant of the cache lookup, which is the only effect.\<close>

definition unwrap :: "ext \<Rightarrow> nat \<Rightarrow> frame \<Rightarrow> pipeline \<Rightarrow> (string + bytes) \<times> pipeline" where
  "unwrap x now f p =
     (case unseal x f p of
        Inl e \<Rightarrow> (Inl e, p)
      | Inr data \<Rightarrow>
          (case maybe_decompress x data (compressed (flags (header f))) of
             Inl e \<Rightarrow> (Inl e, p)
           | Inr plain \<Rightarrow>
               if cache_ref (flags (header f)) then
                 (case cache_key_from_slice plain of
                    None \<Rightarrow> (Inl ''bad cache ref'', p)
                  | Some key \<Rightarrow>
                      (case cache_get now key (p_cache p) of
                         (None, c) \<Rightarrow> (Inl ''cache ref miss'', p\<lparr>p_cache := c\<rparr>)
                       | (Some v, c) \<Rightarrow> (Inr v, p\<lparr>p_cache := c\<rparr>)))
               else (Inr plain, p)))"

definition remember ::
  "((cache_key \<times> entry) list \<Rightarrow> (cache_key \<times> entry) list) \<Rightarrow> nat \<Rightarrow> cache_key \<Rightarrow> bytes \<Rightarrow> pipeline \<Rightarrow> pipeline" where
  "remember order now key v p = p\<lparr>p_cache := cache_put order now key v (p_cache p)\<rparr>"

definition pipeline_cache_get :: "nat \<Rightarrow> cache_key \<Rightarrow> pipeline \<Rightarrow> bytes option \<times> pipeline" where
  "pipeline_cache_get now key p =
     (case cache_get now key (p_cache p) of (r, c) \<Rightarrow> (r, p\<lparr>p_cache := c\<rparr>))"

definition pipeline_cache_stats :: "pipeline \<Rightarrow> u64 \<times> u64" where
  "pipeline_cache_stats p = cache_stats (p_cache p)"

section \<open>Two ends of a session\<close>

text \<open>The state of a cipher is sound, and the two ends hold the same key or none.\<close>

definition pipeline_wf :: "pipeline \<Rightarrow> bool" where
  "pipeline_wf p \<longleftrightarrow> (\<forall>c. p_cipher p = Some c \<longrightarrow> cipher_wf c) \<and> cache_wf (p_cache p)"

definition same_key :: "pipeline \<Rightarrow> pipeline \<Rightarrow> bool" where
  "same_key p q \<longleftrightarrow> map_option c_key (p_cipher p) = map_option c_key (p_cipher q)"

lemma same_key_encryption: "same_key p q \<Longrightarrow> encryption_enabled q = encryption_enabled p"
  by (cases "p_cipher p"; cases "p_cipher q") (simp_all add: same_key_def encryption_enabled_def)

lemma length_frame_aad [simp]: "length (frame_aad t i) = 9"
  by (simp add: frame_aad_def)

lemma frame_aad_inj: "frame_aad t i = frame_aad t' i' \<longleftrightarrow> t = t' \<and> i = i'"
  by (auto simp: frame_aad_def u64_to_le_inj)

lemma pipeline_new_wf: "pipeline_wf pipeline_new"
  by (simp add: pipeline_wf_def pipeline_new_def cache_new_wf)

lemma enable_encryption_wf: "pipeline_wf p \<Longrightarrow> length rnd = 4 \<Longrightarrow> pipeline_wf (enable_encryption rnd key p)"
  by (simp add: pipeline_wf_def enable_encryption_def cipher_wf_def cipher_new_def)

text \<open>What \<open>wrap\<close> makes, on either branch.\<close>

lemma wrap_header:
  assumes "wrap x t i plain p = ((f, fl), p')"
  shows "msg_type (header f) = t" "request_id (header f) = i" "flags (header f) = fl"
    "payload_len (header f) = len_u32 (payload f)" "p_cache p' = p_cache p" "same_key p p'"
    "encrypted fl \<longleftrightarrow> encryption_enabled p" "\<not> cache_ref fl" "\<not> shm_ref fl" "\<not> cacheable fl"
    "pipeline_wf p \<Longrightarrow> pipeline_wf p'"
  using assms
  by (auto simp: wrap_def Let_def flag_bits encryption_enabled_def same_key_def cipher_encrypt_def
      pipeline_wf_def cipher_wf_def FLAG_NONE_def split: prod.splits option.splits if_splits)

lemma wrap_plain:
  assumes "wrap x t i plain p = ((f, fl), p')" "p_cipher p = None"
  shows "maybe_compress x plain = (payload f, compressed fl)"
  using assms by (auto simp: wrap_def Let_def flag_bits FLAG_NONE_def split: prod.splits if_splits)

lemma wrap_sealed:
  assumes "wrap x t i plain p = ((f, fl), p')" "p_cipher p = Some c"
  obtains data where "maybe_compress x plain = (data, compressed fl)"
    "cipher_encrypt x c data (frame_aad t i) = (payload f, the (p_cipher p'))"
  using assms
  by (auto simp: wrap_def Let_def flag_bits FLAG_NONE_def split: prod.splits if_splits)

text \<open>
  The receiver only looks at the three flags; another bit, such as the \<open>CACHEABLE\<close> mark the
  server adds afterwards, does not disturb it.
\<close>

definition same_meaning :: "frame \<Rightarrow> frame \<Rightarrow> bool" where
  "same_meaning f g \<longleftrightarrow> payload g = payload f
     \<and> msg_type (header g) = msg_type (header f) \<and> request_id (header g) = request_id (header f)
     \<and> compressed (flags (header g)) = compressed (flags (header f))
     \<and> encrypted (flags (header g)) = encrypted (flags (header f))
     \<and> cache_ref (flags (header g)) = cache_ref (flags (header f))"

definition mark_cacheable :: "frame \<Rightarrow> frame" where
  "mark_cacheable f = f\<lparr>header := (header f)\<lparr>flags := flags (header f) OR CACHEABLE\<rparr>\<rparr>"

lemma unwrap_same_meaning: "same_meaning f g \<Longrightarrow> unwrap x now g p = unwrap x now f p"
  by (simp add: same_meaning_def unwrap_def unseal_def cong: option.case_cong sum.case_cong)

lemma mark_cacheable_meaning: "same_meaning f (mark_cacheable f)"
  by (auto simp: same_meaning_def mark_cacheable_def flag_bits)

lemma unseal_wrap:
  assumes ok: "aead_ok x" and wf: "pipeline_wf p" and key: "same_key p q"
    and w: "wrap x t i plain p = ((f, fl), p')"
  shows "\<exists>data. unseal x f q = Inr data \<and> maybe_compress x plain = (data, compressed fl)"
proof (cases "p_cipher p")
  case None
  with wrap_header(3,7) [OF w] have "\<not> encrypted (flags (header f))"
    by (simp add: encryption_enabled_def)
  with wrap_plain [OF w None] show ?thesis by (simp add: unseal_def)
next
  case (Some c)
  from key Some obtain c2 where c2: "p_cipher q = Some c2" "c_key c = c_key c2"
    by (cases "p_cipher q") (auto simp: same_key_def)
  from wrap_sealed [OF w Some] obtain data where
    data: "maybe_compress x plain = (data, compressed fl)"
    and enc: "cipher_encrypt x c data (frame_aad t i) = (payload f, the (p_cipher p'))" .
  have "cipher_decrypt x c2 (payload f) (frame_aad t i) = Inr data"
    using cipher_roundtrip [OF ok _ c2(2) enc] wf Some by (simp add: pipeline_wf_def)
  with data c2 wrap_header(1,2,3,7) [OF w] Some show ?thesis
    by (simp add: unseal_def encryption_enabled_def)
qed

lemma wrap_unwrap:
  assumes "lz4_ok x" "aead_ok x" "pipeline_wf p" "same_key p q" "wrap x t i plain p = ((f, fl), p')"
  shows "unwrap x now f q = (Inr plain, q)"
proof -
  from unseal_wrap [OF assms(2-5)] obtain data where
    "unseal x f q = Inr data" "maybe_compress x plain = (data, compressed fl)" by blast
  with compress_roundtrip [OF assms(1)] wrap_header(3,8) [OF assms(5)] show ?thesis
    by (simp add: unwrap_def)
qed

section \<open>Properties\<close>

subsection \<open>A run of messages\<close>

text \<open>The interface of a payload channel: what one end sends, the linked other end receives.\<close>

fun send_all :: "('m \<Rightarrow> 'p \<Rightarrow> 'w \<times> 'p) \<Rightarrow> 'm list \<Rightarrow> 'p \<Rightarrow> 'w list" where
  "send_all snd_msg [] p = []"
| "send_all snd_msg (m # ms) p = (case snd_msg m p of (w, p') \<Rightarrow> w # send_all snd_msg ms p')"

fun receive_all :: "('w \<Rightarrow> 'q \<Rightarrow> 'r \<times> 'q) \<Rightarrow> 'w list \<Rightarrow> 'q \<Rightarrow> 'r list" where
  "receive_all rcv_msg [] q = []"
| "receive_all rcv_msg (w # ws) q = (case rcv_msg w q of (r, q') \<Rightarrow> r # receive_all rcv_msg ws q')"

locale payload_channel =
  fixes snd_msg :: "'m \<Rightarrow> 'p \<Rightarrow> 'w \<times> 'p"
    and rcv_msg :: "'w \<Rightarrow> 'q \<Rightarrow> (string + bytes) \<times> 'q"
    and body :: "'m \<Rightarrow> bytes"
    and linked :: "'p \<Rightarrow> 'q \<Rightarrow> bool"
  assumes delivers: "linked p q \<Longrightarrow> snd_msg m p = (w, p') \<Longrightarrow> \<exists>q'. rcv_msg w q = (Inr (body m), q') \<and> linked p' q'"
begin

lemma run_delivers: "linked p q \<Longrightarrow> receive_all rcv_msg (send_all snd_msg ms p) q = map (Inr \<circ> body) ms"
proof (induction ms arbitrary: p q)
  case Nil
  then show ?case by simp
next
  case (Cons m ms)
  obtain w p' where w: "snd_msg m p = (w, p')" by fastforce
  from delivers [OF Cons.prems w] obtain q' where "rcv_msg w q = (Inr (body m), q')" "linked p' q'" by blast
  with w Cons.IH show ?case by simp
qed

end

text \<open>One message: its type, id and payload, and whether the server marks it as cacheable.\<close>

datatype message = Message msg_type u64 bytes bool

fun wrap_message :: "ext \<Rightarrow> message \<Rightarrow> pipeline \<Rightarrow> frame \<times> pipeline" where
  "wrap_message x (Message t i b m) p =
     (case wrap x t i b p of ((f, fl), p') \<Rightarrow> (if m then mark_cacheable f else f, p'))"

fun message_body :: "message \<Rightarrow> bytes" where
  "message_body (Message t i b m) = b"

definition linked :: "ext \<Rightarrow> pipeline \<Rightarrow> pipeline \<Rightarrow> bool" where
  "linked x p q \<longleftrightarrow> lz4_ok x \<and> aead_ok x \<and> pipeline_wf p \<and> same_key p q"

lemma wrap_message_delivers:
  assumes "linked x p q" "wrap_message x m p = (f, p')"
  shows "unwrap x now f q = (Inr (message_body m), q) \<and> linked x p' q"
proof -
  obtain t i b mk where m: "m = Message t i b mk" by (cases m)
  obtain g fl p1 where w: "wrap x t i b p = ((g, fl), p1)" by (metis prod.exhaust)
  have "unwrap x now g q = (Inr b, q)"
    using assms(1) by (intro wrap_unwrap [OF _ _ _ _ w]) (simp_all add: linked_def)
  moreover have "unwrap x now f q = unwrap x now g q"
    using assms(2) unwrap_same_meaning [OF mark_cacheable_meaning] by (auto simp: m w)
  moreover have "linked x p1 q"
    using assms(1) wrap_header(6,11) [OF w] by (simp add: linked_def same_key_def)
  ultimately show ?thesis using assms(2) by (simp add: m w)
qed

interpretation pipe: payload_channel "wrap_message x" "unwrap x now" message_body "linked x" for x now
  by unfold_locales (use wrap_message_delivers in blast)

lemma unwrap_cache_ref:
  assumes "aead_ok x" "pipeline_wf p" "same_key p q" "length key = 32"
  shows "fst (unwrap x now (fst (wrap_cache_ref x t i key p)) q)
    = (if fresh now key (p_cache q) then Inr (the (cache_view (p_cache q) key)) else Inl ''cache ref miss'')"
proof -
  let ?f = "fst (wrap_cache_ref x t i key p)"
  have fl: "cache_ref (flags (header ?f))" "\<not> compressed (flags (header ?f))"
    by (auto simp: wrap_cache_ref_def flag_bits split: option.split prod.split)
  have "unseal x ?f q = Inr key"
  proof (cases "p_cipher p")
    case None
    with assms(3) show ?thesis
      by (auto simp: wrap_cache_ref_def unseal_def flag_bits)
  next
    case (Some c)
    with assms(3) obtain c2 where c2: "p_cipher q = Some c2" "c_key c = c_key c2"
      by (cases "p_cipher q") (auto simp: same_key_def)
    obtain d c' where e: "cipher_encrypt x c key (frame_aad t i) = (d, c')" by fastforce
    have "cipher_wf c" using assms(2) Some by (simp add: pipeline_wf_def)
    from cipher_roundtrip [OF assms(1) this c2(2) e] Some e c2 show ?thesis
      by (simp add: wrap_cache_ref_def unseal_def flag_bits)
  qed
  with fl have u: "unwrap x now ?f q = (case cache_get now key (p_cache q) of
      (None, c) \<Rightarrow> (Inl ''cache ref miss'', q\<lparr>p_cache := c\<rparr>) | (Some v, c) \<Rightarrow> (Inr v, q\<lparr>p_cache := c\<rparr>))"
    using assms(4) by (simp add: unwrap_def maybe_decompress_def cache_key_from_slice_def)
  show ?thesis
  proof (cases "fresh now key (p_cache q)")
    case True
    from cache_get_fresh [OF this] obtain c' where "cache_get now key (p_cache q) = (cache_view (p_cache q) key, c')"
      by blast
    moreover from True obtain v where "cache_view (p_cache q) key = Some v"
      by (auto simp: fresh_def cache_view_def)
    ultimately show ?thesis using True by (simp add: u)
  next
    case False
    from cache_get_stale [OF this] False show ?thesis by (auto simp: u)
  qed
qed

subsection \<open>Claims\<close>



text \<open>C16. On an encrypted session a frame cannot be moved to another request or another message type: the
  type and the id are authenticated, and a changed one fails to decrypt.\<close>

theorem header_is_authenticated:
  assumes "aead_ok x" "aead_authentic x" "pipeline_wf p" "same_key p q" "encryption_enabled p"
    and "wrap x t i plain p = ((f, fl), p')"
    and "payload g = payload f" "flags (header g) = fl"
    and "(msg_type (header g), request_id (header g)) \<noteq> (t, i)"
  shows "unwrap x now g q = (Inl ''decryption failed'', q)"
proof -
  from assms(5) obtain c where c: "p_cipher p = Some c" by (auto simp: encryption_enabled_def)
  with assms(4) obtain c2 where c2: "p_cipher q = Some c2" "c_key c = c_key c2"
    by (cases "p_cipher q") (auto simp: same_key_def)
  from wrap_sealed [OF assms(6) c] obtain data where
    e: "cipher_encrypt x c data (frame_aad t i) = (payload f, the (p_cipher p'))" .
  have wf: "cipher_wf c" using assms(3) c by (simp add: pipeline_wf_def)
  have "frame_aad (msg_type (header g)) (request_id (header g)) \<noteq> frame_aad t i"
    using assms(9) by (auto simp: frame_aad_inj)
  from cipher_tamper [OF assms(1,2) wf c2(2) e _ _ this]
  have "cipher_decrypt x c2 (payload g) (frame_aad (msg_type (header g)) (request_id (header g))) = Inl Decrypt_failed"
    by (simp add: assms(7))
  moreover have "encrypted (flags (header g))"
    using wrap_header(7) [OF assms(6)] assms(5,8) by simp
  ultimately show ?thesis
    by (simp add: unwrap_def unseal_def c2)
qed

theorem header_is_authenticated_witness:
  "let p = enable_encryption [1, 2, 3, 4] [9] pipeline_new;
       f = fst (fst (wrap sample_ext CallToolResult 8 [1, 2] p)) in
   fst (unwrap sample_ext 0 (f\<lparr>header := (header f)\<lparr>request_id := 999\<rparr>\<rparr>) p) = Inl ''decryption failed''"
proof -
  let ?p = "enable_encryption [1, 2, 3, 4] [9] pipeline_new"
  let ?f = "fst (fst (wrap sample_ext CallToolResult 8 [1, 2] ?p))"
  let ?g = "?f\<lparr>header := (header ?f)\<lparr>request_id := 999\<rparr>\<rparr>"
  obtain f fl p' where w: "wrap sample_ext CallToolResult 8 [1, 2] ?p = ((f, fl), p')" by (metis prod.exhaust)
  have "pipeline_wf ?p" by (rule enable_encryption_wf) (simp_all add: pipeline_new_wf)
  moreover have "same_key ?p ?p" "encryption_enabled ?p"
    by (simp_all add: same_key_def encryption_enabled_def enable_encryption_def)
  moreover have "payload ?g = payload f" "flags (header ?g) = fl"
    "(msg_type (header ?g), request_id (header ?g)) \<noteq> (CallToolResult, 8)"
    using wrap_header(3) [OF w] by (simp_all add: w)
  ultimately have "unwrap sample_ext 0 ?g ?p = (Inl ''decryption failed'', ?p)"
    by (intro header_is_authenticated [OF sample_aead_ok sample_aead_authentic _ _ _ w])
  then show ?thesis by (simp add: Let_def)
qed

end
