(* ===== verification/Security_Auth.thy ===== *)
theory Security_Auth
  imports External
begin

text \<open>
  Authentication and key derivation, \<open>ohmcp-security/src/auth.rs\<close>, and the hexadecimal helpers
  of \<open>ohmcpd/src/server.rs\<close> and \<open>ohmcp-client/src/lib.rs\<close> the handshake messages go through.
\<close>

section \<open>Challenge response and session keys\<close>

definition hmac_response :: "ext \<Rightarrow> bytes \<Rightarrow> bytes \<Rightarrow> bytes" where
  "hmac_response x token nonce = hmac_sha256 x token nonce"

definition verify_response :: "ext \<Rightarrow> bytes \<Rightarrow> bytes \<Rightarrow> bytes \<Rightarrow> bool" where
  "verify_response x token nonce response \<longleftrightarrow> hmac_sha256 x token nonce = response"

definition derive_session_key :: "ext \<Rightarrow> bytes \<Rightarrow> bytes \<Rightarrow> bytes" where
  "derive_session_key x token nonce = hmac_sha256 x token (as_bytes ''ohmcp-session'' @ nonce)"

text \<open>\<open>EphemeralKeyPair\<close>; \<open>generate\<close> takes the random secret as its argument.\<close>

record ephemeral_key_pair =
  secret :: bytes
  public :: bytes

definition ephemeral_generate :: "ext \<Rightarrow> bytes \<Rightarrow> ephemeral_key_pair" where
  "ephemeral_generate x rnd = \<lparr>secret = rnd, public = x25519_public x rnd\<rparr>"

definition derive_fs_session_key :: "ext \<Rightarrow> ephemeral_key_pair \<Rightarrow> bytes \<Rightarrow> bytes \<Rightarrow> bytes \<Rightarrow> bytes" where
  "derive_fs_session_key x kp peer_public token nonce =
     hmac_sha256 x token (as_bytes ''ohmcp-fs'' @ nonce @ x25519_dh x (secret kp) peer_public)"

lemma response_verifies: "verify_response x token nonce (hmac_response x token nonce)"
  by (simp add: verify_response_def hmac_response_def)

text \<open>Both sides of a handshake derive the same key.\<close>

lemma fs_key_agreement:
  assumes "x25519_ok x" "a = ephemeral_generate x ra" "b = ephemeral_generate x rb"
  shows "derive_fs_session_key x a (public b) token nonce = derive_fs_session_key x b (public a) token nonce"
  using assms by (simp add: derive_fs_session_key_def ephemeral_generate_def x25519_ok_def)

section \<open>Hexadecimal\<close>

definition hex_lower :: "nat \<Rightarrow> char" where
  "hex_lower n = ''0123456789abcdef'' ! n"

definition hex :: "bytes \<Rightarrow> string" where
  "hex data = concat (map (\<lambda>b. [hex_lower (unat b div 16), hex_lower (unat b mod 16)]) data)"

text \<open>\<open>char::to_digit(16)\<close>.\<close>

definition digit16 :: "char \<Rightarrow> nat option" where
  "digit16 c = (let n = of_char c in
     if 48 \<le> n \<and> n \<le> 57 then Some (n - 48)
     else if 97 \<le> n \<and> n \<le> 102 then Some (n - 87)
     else if 65 \<le> n \<and> n \<le> 70 then Some (n - 55)
     else None)"

fun digits16 :: "nat \<Rightarrow> string \<Rightarrow> nat option" where
  "digits16 acc [] = Some acc"
| "digits16 acc (c # cs) =
     (case digit16 c of
        None \<Rightarrow> None
      | Some d \<Rightarrow> if 255 < 16 * acc + d then None else digits16 (16 * acc + d) cs)"

text \<open>
  \<open>u8::from_str_radix(s, 16)\<close>: the empty string and a lone sign are errors, one leading plus is
  skipped, and a minus is not a digit of an unsigned number.
\<close>

definition u8_from_str_radix16 :: "string \<Rightarrow> u8 option" where
  "u8_from_str_radix16 s =
     (if s = [] \<or> s = ''+'' \<or> s = ''-'' then None
      else map_option word_of_nat (digits16 0 (if hd s = CHR ''+'' then tl s else s)))"

text \<open>
  \<open>&s[i..j]\<close> panics unless both ends are character boundaries: the two ends of the string and
  every byte that does not continue a UTF-8 sequence.
\<close>

definition is_char_boundary :: "string \<Rightarrow> nat \<Rightarrow> bool" where
  "is_char_boundary s i \<longleftrightarrow>
     i = 0 \<or> i = length s \<or> (i < length s \<and> \<not> (128 \<le> (of_char (s ! i) :: nat) \<and> (of_char (s ! i) :: nat) < 192))"

definition str_slice :: "string \<Rightarrow> nat \<Rightarrow> nat \<Rightarrow> string ret" where
  "str_slice s i j =
     (if i \<le> j \<and> is_char_boundary s i \<and> is_char_boundary s j then Ret (take (j - i) (drop i s))
      else Panicked)"

text \<open>The loop of \<open>unhex\<close> and \<open>unhex32\<close> over the start indices; the first bad pair ends it.\<close>

fun unhex_pairs :: "string \<Rightarrow> nat list \<Rightarrow> bytes option ret" where
  "unhex_pairs s [] = Ret (Some [])"
| "unhex_pairs s (i # is) =
     (case str_slice s i (i + 2) of
        Panicked \<Rightarrow> Panicked
      | Ret t \<Rightarrow>
          (case u8_from_str_radix16 t of
             None \<Rightarrow> Ret None
           | Some b \<Rightarrow>
               (case unhex_pairs s is of
                  Panicked \<Rightarrow> Panicked
                | Ret r \<Rightarrow> Ret (map_option (\<lambda>bs. b # bs) r))))"

definition unhex32 :: "string \<Rightarrow> bytes option ret" where
  "unhex32 s = (if length s \<noteq> 64 then Ret None else unhex_pairs s (map (\<lambda>i. i * 2) [0..<32]))"

definition unhex :: "string \<Rightarrow> bytes option ret" where
  "unhex s = (if odd (length s) then Ret None
              else unhex_pairs s (map (\<lambda>i. i * 2) [0..<length s div 2]))"

lemma length_hex [simp, codec_simps]: "length (hex bs) = 2 * length bs"
  by (induction bs) (simp_all add: hex_def)

lemma hex_lower_digit:
  assumes "n < 16"
  shows "digit16 (hex_lower n) = Some n \<and> hex_lower n \<noteq> CHR ''+'' \<and> (of_char (hex_lower n) :: nat) < 128"
proof -
  have "\<forall>n \<in> set [0..<16]. digit16 (hex_lower n) = Some n \<and> hex_lower n \<noteq> CHR ''+''
      \<and> (of_char (hex_lower n) :: nat) < 128"
    by (simp add: upt_rec hex_lower_def digit16_def Let_def)
  with assms show ?thesis by simp
qed

lemma from_str_radix_hex:
  "u8_from_str_radix16 [hex_lower (unat b div 16), hex_lower (unat b mod 16)] = Some b"
proof -
  have "unat b div 16 < 16" "unat b mod 16 < 16"
    using unat_byte_less [of b] by auto
  note d = hex_lower_digit [OF this(1)] hex_lower_digit [OF this(2)]
  have "16 * (unat b div 16) + unat b mod 16 = unat b" by simp
  with d show ?thesis
    using unat_byte_less [of b] by (simp add: u8_from_str_radix16_def)
qed

lemma hex_ascii: "c \<in> set (hex bs) \<Longrightarrow> (of_char c :: nat) < 128"
proof (induction bs)
  case Nil
  then show ?case by (simp add: hex_def)
next
  case (Cons b bs)
  have "unat b div 16 < 16" "unat b mod 16 < 16"
    using unat_byte_less [of b] by auto
  note d = this [THEN hex_lower_digit]
  from Cons d show ?case by (auto simp: hex_def)
qed

lemma nth_hex_ascii: "i < 2 * length bs \<Longrightarrow> (of_char (hex bs ! i) :: nat) < 128"
  by (rule hex_ascii [of _ bs]) simp

lemma hex_boundary: "i \<le> 2 * length bs \<Longrightarrow> is_char_boundary (hex bs) i"
  using nth_hex_ascii [of i bs] by (auto simp: is_char_boundary_def)

lemma hex_pair:
  "i < length bs \<Longrightarrow>
    take 2 (drop (2 * i) (hex bs)) = [hex_lower (unat (bs ! i) div 16), hex_lower (unat (bs ! i) mod 16)]"
proof (induction bs arbitrary: i)
  case Nil
  then show ?case by simp
next
  case (Cons b bs)
  have h: "hex (b # bs) = hex_lower (unat b div 16) # hex_lower (unat b mod 16) # hex bs"
    by (simp add: hex_def)
  show ?case
  proof (cases i)
    case 0
    then show ?thesis by (simp add: h)
  next
    case (Suc j)
    with Cons show ?thesis by (simp add: h)
  qed
qed

lemma str_slice_hex:
  "i < length bs \<Longrightarrow> str_slice (hex bs) (2 * i) (2 * i + 2)
     = Ret [hex_lower (unat (bs ! i) div 16), hex_lower (unat (bs ! i) mod 16)]"
  using hex_boundary [of "2 * i" bs] hex_boundary [of "2 * i + 2" bs] hex_pair [of i bs]
  by (simp add: str_slice_def)

lemma unhex_pairs_hex:
  "\<forall>i \<in> set is. i < length bs \<Longrightarrow>
     unhex_pairs (hex bs) (map (\<lambda>i. i * 2) is) = Ret (Some (map ((!) bs) is))"
proof (induction "is")
  case Nil
  then show ?case by simp
next
  case (Cons i "is")
  then have "str_slice (hex bs) (i * 2) (i * 2 + 2)
      = Ret [hex_lower (unat (bs ! i) div 16), hex_lower (unat (bs ! i) mod 16)]"
    using str_slice_hex [of i bs] by (simp add: mult.commute)
  with Cons show ?case by (simp add: from_str_radix_hex)
qed

lemma unhex_hex: "unhex (hex bs) = Ret (Some bs)"
  by (simp add: unhex_def unhex_pairs_hex map_nth)

lemma unhex32_hex: "length bs = 32 \<Longrightarrow> unhex32 (hex bs) = Ret (Some bs)"
proof -
  assume l: "length bs = 32"
  have "map ((!) bs) [0..<length bs] = bs" by (rule map_nth)
  with l show ?thesis by (simp add: unhex32_def unhex_pairs_hex del: upt_rec_numeral)
qed

text \<open>On ASCII input neither decoder panics.\<close>

lemma unhex_pairs_ascii:
  assumes "\<forall>c \<in> set s. (of_char c :: nat) < 128" "\<forall>i \<in> set is. i + 2 \<le> length s"
  shows "unhex_pairs s is \<noteq> Panicked"
  using assms(2)
proof (induction "is")
  case Nil
  then show ?case by simp
next
  case (Cons i "is")
  have "is_char_boundary s j" if "j \<le> length s" for j
    using that bspec [OF assms(1) nth_mem, of j] by (cases "j < length s") (auto simp: is_char_boundary_def)
  with Cons show ?case by (auto simp: str_slice_def split: option.splits ret.splits)
qed

section \<open>Properties\<close>

text \<open>The hexadecimal fields of the handshake decode to the bytes that were encoded; \<open>unhex32\<close> takes
  32 bytes and nothing else.\<close>

lemma hex_roundtrip:
  "unhex (hex bs) = Ret (Some bs) \<and> unhex32 (hex bs) = (if length bs = 32 then Ret (Some bs) else Ret None)"
  using unhex_hex unhex32_hex [of bs] by (simp add: unhex32_def)

text \<open>On ASCII text the decoders return; on other text they can panic, because they slice the string
  at every second byte: the even-length text of the euro sign and a letter is enough.\<close>

lemma unhex_panics_only_off_ascii:
  "(unhex s = Panicked \<longrightarrow> (\<exists>c \<in> set s. 128 \<le> (of_char c :: nat)))
   \<and> unhex [CHR 0xE2, CHR 0x82, CHR 0xAC, CHR 0x61] = Panicked"
proof
  have "unhex s \<noteq> Panicked" if "\<forall>c \<in> set s. (of_char c :: nat) < 128"
    using unhex_pairs_ascii [OF that, of "map (\<lambda>i. i * 2) [0..<length s div 2]"] by (auto simp: unhex_def)
  then show "unhex s = Panicked \<longrightarrow> (\<exists>c \<in> set s. 128 \<le> (of_char c :: nat))"
    by (meson not_less)
  show "unhex [CHR 0xE2, CHR 0x82, CHR 0xAC, CHR 0x61] = Panicked"
    by (simp add: unhex_def str_slice_def is_char_boundary_def upt_rec)
qed

end
