(* ===== verification/Core_Message.thy ===== *)
theory Core_Message
  imports Core_Json
begin

text \<open>
  The message structs of \<open>ohmcp-core/src/message.rs\<close> with their derived serialisers
  \<open>se_<struct>\<close> and deserialisers \<open>de_<struct>\<close>, one pair per struct, after the serde attributes
  (renames, defaults, options left out), and the round trip of each pair.
\<close>

lemmas serde_defs = required_def defaulted_def se_opt_def Let_def

text \<open>\<open>Implementation\<close>.\<close>

record implementation =
  impl_name :: string
  impl_version :: string

definition se_implementation :: "implementation \<Rightarrow> json" where
  "se_implementation r =
     JObj [(''name'', JStr (impl_name r)), (''version'', JStr (impl_version r))]"

definition de_implementation :: "json \<Rightarrow> implementation option" where
  "de_implementation v = do {
     m \<leftarrow> struct_fields [''name'', ''version''] v;
     a \<leftarrow> required de_str ''name'' m;
     b \<leftarrow> required de_str ''version'' m;
     Some \<lparr>impl_name = a, impl_version = b\<rparr> }"

lemma implementation_roundtrip [serde_simps]:
  "de_implementation (se_implementation r) = Some r"
  by (auto simp: de_implementation_def se_implementation_def serde_defs serde_simps)

text \<open>\<open>InitializeParams\<close>.\<close>

record initialize_params =
  ip_protocol_version :: string
  client_info :: implementation
  ip_capabilities :: json

definition se_initialize_params :: "initialize_params \<Rightarrow> json" where
  "se_initialize_params r =
     JObj ([(''protocolVersion'', JStr (ip_protocol_version r)), (''clientInfo'', se_implementation (client_info r))]
       @ [(''capabilities'', ip_capabilities r)])"

definition de_initialize_params :: "json \<Rightarrow> initialize_params option" where
  "de_initialize_params v = do {
     m \<leftarrow> struct_fields [''protocolVersion'', ''clientInfo'', ''capabilities''] v;
     a \<leftarrow> required de_str ''protocolVersion'' m;
     b \<leftarrow> required de_implementation ''clientInfo'' m;
     c \<leftarrow> defaulted JNull de_value ''capabilities'' m;
     Some \<lparr>ip_protocol_version = a, client_info = b, ip_capabilities = c\<rparr> }"

lemma initialize_params_roundtrip [serde_simps]:
  "is_value (ip_capabilities r) \<Longrightarrow> de_initialize_params (se_initialize_params r) = Some r"
  by (auto simp: de_initialize_params_def se_initialize_params_def serde_defs serde_simps)

text \<open>\<open>InitializeResult\<close>.\<close>

record initialize_result =
  ir_protocol_version :: string
  server_info :: implementation
  ir_capabilities :: json

definition se_initialize_result :: "initialize_result \<Rightarrow> json" where
  "se_initialize_result r =
     JObj ([(''protocolVersion'', JStr (ir_protocol_version r)), (''serverInfo'', se_implementation (server_info r))]
       @ [(''capabilities'', ir_capabilities r)])"

definition de_initialize_result :: "json \<Rightarrow> initialize_result option" where
  "de_initialize_result v = do {
     m \<leftarrow> struct_fields [''protocolVersion'', ''serverInfo'', ''capabilities''] v;
     a \<leftarrow> required de_str ''protocolVersion'' m;
     b \<leftarrow> required de_implementation ''serverInfo'' m;
     c \<leftarrow> defaulted JNull de_value ''capabilities'' m;
     Some \<lparr>ir_protocol_version = a, server_info = b, ir_capabilities = c\<rparr> }"

lemma initialize_result_roundtrip [serde_simps]:
  "is_value (ir_capabilities r) \<Longrightarrow> de_initialize_result (se_initialize_result r) = Some r"
  by (auto simp: de_initialize_result_def se_initialize_result_def serde_defs serde_simps)

text \<open>\<open>Tool\<close>.\<close>

record tool =
  tool_name :: string
  tool_description :: "string option"
  input_schema :: json

definition se_tool :: "tool \<Rightarrow> json" where
  "se_tool r =
     JObj ([(''name'', JStr (tool_name r))]
       @ se_opt ''description'' JStr (tool_description r)
       @ [(''inputSchema'', input_schema r)])"

definition de_tool :: "json \<Rightarrow> tool option" where
  "de_tool v = do {
     m \<leftarrow> struct_fields [''name'', ''description'', ''inputSchema''] v;
     a \<leftarrow> required de_str ''name'' m;
     b \<leftarrow> defaulted None (de_option de_str) ''description'' m;
     c \<leftarrow> required de_value ''inputSchema'' m;
     Some \<lparr>tool_name = a, tool_description = b, input_schema = c\<rparr> }"

lemma tool_roundtrip [serde_simps]:
  "is_value (input_schema r) \<Longrightarrow> de_tool (se_tool r) = Some r"
  by (auto simp: de_tool_def se_tool_def serde_defs serde_simps
      split: option.splits)

text \<open>\<open>ListToolsResult\<close>.\<close>

record list_tools_result =
  lt_tools :: "tool list"

definition se_list_tools_result :: "list_tools_result \<Rightarrow> json" where
  "se_list_tools_result r =
     JObj [(''tools'', JArr (map se_tool (lt_tools r)))]"

definition de_list_tools_result :: "json \<Rightarrow> list_tools_result option" where
  "de_list_tools_result v = do {
     m \<leftarrow> struct_fields [''tools''] v;
     a \<leftarrow> required (de_vec de_tool) ''tools'' m;
     Some \<lparr>lt_tools = a\<rparr> }"

lemma list_tools_result_roundtrip [serde_simps]:
  "\<forall>t \<in> set (lt_tools r). is_value (input_schema t) \<Longrightarrow> de_list_tools_result (se_list_tools_result r) = Some r"
  by (auto simp: de_list_tools_result_def se_list_tools_result_def serde_defs serde_simps)

text \<open>\<open>CallToolParams\<close>.\<close>

record call_tool_params =
  ct_name :: string
  ct_arguments :: json
  ct_meta :: "json option"

definition se_call_tool_params :: "call_tool_params \<Rightarrow> json" where
  "se_call_tool_params r =
     JObj ([(''name'', JStr (ct_name r)), (''arguments'', ct_arguments r)]
       @ se_opt ''_meta'' id (ct_meta r))"

definition de_call_tool_params :: "json \<Rightarrow> call_tool_params option" where
  "de_call_tool_params v = do {
     m \<leftarrow> struct_fields [''name'', ''arguments'', ''_meta''] v;
     a \<leftarrow> required de_str ''name'' m;
     b \<leftarrow> defaulted JNull de_value ''arguments'' m;
     c \<leftarrow> defaulted None (de_option de_value) ''_meta'' m;
     Some \<lparr>ct_name = a, ct_arguments = b, ct_meta = c\<rparr> }"

lemma call_tool_params_roundtrip [serde_simps]:
  "is_value (ct_arguments r) \<Longrightarrow> \<forall>v. ct_meta r = Some v \<longrightarrow> is_value v \<and> v \<noteq> JNull \<Longrightarrow> de_call_tool_params (se_call_tool_params r) = Some r"
  by (auto simp: de_call_tool_params_def se_call_tool_params_def serde_defs serde_simps
      split: option.splits)

text \<open>\<open>CancelParams\<close>.\<close>

record cancel_params =
  cancel_request_id :: u64
  cancel_reason :: "string option"

definition se_cancel_params :: "cancel_params \<Rightarrow> json" where
  "se_cancel_params r =
     JObj ([(''requestId'', JPos (cancel_request_id r))]
       @ se_opt ''reason'' JStr (cancel_reason r))"

definition de_cancel_params :: "json \<Rightarrow> cancel_params option" where
  "de_cancel_params v = do {
     m \<leftarrow> struct_fields [''requestId'', ''reason''] v;
     a \<leftarrow> required de_u64 ''requestId'' m;
     b \<leftarrow> defaulted None (de_option de_str) ''reason'' m;
     Some \<lparr>cancel_request_id = a, cancel_reason = b\<rparr> }"

lemma cancel_params_roundtrip [serde_simps]:
  "de_cancel_params (se_cancel_params r) = Some r"
  by (auto simp: de_cancel_params_def se_cancel_params_def serde_defs serde_simps
      split: option.splits)

text \<open>\<open>ProgressParams\<close>.\<close>

record progress_params =
  pr_request_id :: u64
  pr_progress :: u64
  pr_total :: "u64 option"
  pr_message :: "string option"

definition se_progress_params :: "progress_params \<Rightarrow> json" where
  "se_progress_params r =
     JObj ([(''requestId'', JPos (pr_request_id r)), (''progress'', JPos (pr_progress r))]
       @ se_opt ''total'' JPos (pr_total r)
       @ se_opt ''message'' JStr (pr_message r))"

definition de_progress_params :: "json \<Rightarrow> progress_params option" where
  "de_progress_params v = do {
     m \<leftarrow> struct_fields [''requestId'', ''progress'', ''total'', ''message''] v;
     a \<leftarrow> required de_u64 ''requestId'' m;
     b \<leftarrow> required de_u64 ''progress'' m;
     c \<leftarrow> defaulted None (de_option de_u64) ''total'' m;
     d \<leftarrow> defaulted None (de_option de_str) ''message'' m;
     Some \<lparr>pr_request_id = a, pr_progress = b, pr_total = c, pr_message = d\<rparr> }"

lemma progress_params_roundtrip [serde_simps]:
  "de_progress_params (se_progress_params r) = Some r"
  by (auto simp: de_progress_params_def se_progress_params_def serde_defs serde_simps
      split: option.splits)

datatype content_block =
    Text string
  | Image string string

fun se_content_block :: "content_block \<Rightarrow> json" where
  "se_content_block (Text t) = JObj [(''type'', JStr ''text''), (''text'', JStr t)]"
| "se_content_block (Image d m) =
     JObj [(''type'', JStr ''image''), (''data'', JStr d), (''mimeType'', JStr m)]"

text \<open>The tag, as the one member \<open>type\<close> or the first element, and the rest of the document.\<close>

fun untag :: "json \<Rightarrow> (string \<times> json) option" where
  "untag (JObj ms) =
     (case filter (\<lambda>(k, v). k = ''type'') ms of
        [(_, JStr t)] \<Rightarrow> Some (t, JObj (filter (\<lambda>(k, v). k \<noteq> ''type'') ms))
      | _ \<Rightarrow> None)"
| "untag (JArr (JStr t # vs)) = Some (t, JArr vs)"
| "untag _ = None"

definition de_content_block :: "json \<Rightarrow> content_block option" where
  "de_content_block v = do {
     (t, body) \<leftarrow> untag v;
     if t = ''text'' then do {
       m \<leftarrow> struct_fields [''text''] body;
       s \<leftarrow> required de_str ''text'' m;
       Some (Text s) }
     else if t = ''image'' then do {
       m \<leftarrow> struct_fields [''data'', ''mimeType''] body;
       d \<leftarrow> required de_str ''data'' m;
       mt \<leftarrow> required de_str ''mimeType'' m;
       Some (Image d mt) }
     else None }"

lemma content_block_roundtrip [serde_simps]: "de_content_block (se_content_block c) = Some c"
  by (cases c) (simp_all add: de_content_block_def required_def Let_def serde_simps)

text \<open>\<open>CallToolResult\<close>.\<close>

record call_tool_result =
  ctr_content :: "content_block list"
  is_error :: bool

definition se_call_tool_result :: "call_tool_result \<Rightarrow> json" where
  "se_call_tool_result r =
     JObj ([(''content'', JArr (map se_content_block (ctr_content r)))]
       @ [(''isError'', JBool (is_error r))])"

definition de_call_tool_result :: "json \<Rightarrow> call_tool_result option" where
  "de_call_tool_result v = do {
     m \<leftarrow> struct_fields [''content'', ''isError''] v;
     a \<leftarrow> required (de_vec de_content_block) ''content'' m;
     b \<leftarrow> defaulted False de_bool ''isError'' m;
     Some \<lparr>ctr_content = a, is_error = b\<rparr> }"

lemma call_tool_result_roundtrip [serde_simps]:
  "de_call_tool_result (se_call_tool_result r) = Some r"
  by (auto simp: de_call_tool_result_def se_call_tool_result_def serde_defs serde_simps)

text \<open>\<open>Resource\<close>.\<close>

record resource =
  res_uri :: string
  res_name :: string
  res_description :: "string option"
  res_mime_type :: "string option"

definition se_resource :: "resource \<Rightarrow> json" where
  "se_resource r =
     JObj ([(''uri'', JStr (res_uri r)), (''name'', JStr (res_name r))]
       @ se_opt ''description'' JStr (res_description r)
       @ se_opt ''mimeType'' JStr (res_mime_type r))"

definition de_resource :: "json \<Rightarrow> resource option" where
  "de_resource v = do {
     m \<leftarrow> struct_fields [''uri'', ''name'', ''description'', ''mimeType''] v;
     a \<leftarrow> required de_str ''uri'' m;
     b \<leftarrow> required de_str ''name'' m;
     c \<leftarrow> defaulted None (de_option de_str) ''description'' m;
     d \<leftarrow> defaulted None (de_option de_str) ''mimeType'' m;
     Some \<lparr>res_uri = a, res_name = b, res_description = c, res_mime_type = d\<rparr> }"

lemma resource_roundtrip [serde_simps]:
  "de_resource (se_resource r) = Some r"
  by (auto simp: de_resource_def se_resource_def serde_defs serde_simps
      split: option.splits)

text \<open>\<open>ListResourcesResult\<close>.\<close>

record list_resources_result =
  lr_resources :: "resource list"

definition se_list_resources_result :: "list_resources_result \<Rightarrow> json" where
  "se_list_resources_result r =
     JObj [(''resources'', JArr (map se_resource (lr_resources r)))]"

definition de_list_resources_result :: "json \<Rightarrow> list_resources_result option" where
  "de_list_resources_result v = do {
     m \<leftarrow> struct_fields [''resources''] v;
     a \<leftarrow> required (de_vec de_resource) ''resources'' m;
     Some \<lparr>lr_resources = a\<rparr> }"

lemma list_resources_result_roundtrip [serde_simps]:
  "de_list_resources_result (se_list_resources_result r) = Some r"
  by (auto simp: de_list_resources_result_def se_list_resources_result_def serde_defs serde_simps)

text \<open>\<open>ReadResourceParams\<close>.\<close>

record read_resource_params =
  rr_uri :: string

definition se_read_resource_params :: "read_resource_params \<Rightarrow> json" where
  "se_read_resource_params r =
     JObj [(''uri'', JStr (rr_uri r))]"

definition de_read_resource_params :: "json \<Rightarrow> read_resource_params option" where
  "de_read_resource_params v = do {
     m \<leftarrow> struct_fields [''uri''] v;
     a \<leftarrow> required de_str ''uri'' m;
     Some \<lparr>rr_uri = a\<rparr> }"

lemma read_resource_params_roundtrip [serde_simps]:
  "de_read_resource_params (se_read_resource_params r) = Some r"
  by (auto simp: de_read_resource_params_def se_read_resource_params_def serde_defs serde_simps)

text \<open>\<open>ResourceContents\<close>.\<close>

record resource_contents =
  rc_uri :: string
  rc_mime_type :: "string option"
  rc_text :: "string option"
  rc_blob :: "string option"

definition se_resource_contents :: "resource_contents \<Rightarrow> json" where
  "se_resource_contents r =
     JObj ([(''uri'', JStr (rc_uri r))]
       @ se_opt ''mimeType'' JStr (rc_mime_type r)
       @ se_opt ''text'' JStr (rc_text r)
       @ se_opt ''blob'' JStr (rc_blob r))"

definition de_resource_contents :: "json \<Rightarrow> resource_contents option" where
  "de_resource_contents v = do {
     m \<leftarrow> struct_fields [''uri'', ''mimeType'', ''text'', ''blob''] v;
     a \<leftarrow> required de_str ''uri'' m;
     b \<leftarrow> defaulted None (de_option de_str) ''mimeType'' m;
     c \<leftarrow> defaulted None (de_option de_str) ''text'' m;
     d \<leftarrow> defaulted None (de_option de_str) ''blob'' m;
     Some \<lparr>rc_uri = a, rc_mime_type = b, rc_text = c, rc_blob = d\<rparr> }"

lemma resource_contents_roundtrip [serde_simps]:
  "de_resource_contents (se_resource_contents r) = Some r"
  by (auto simp: de_resource_contents_def se_resource_contents_def serde_defs serde_simps
      split: option.splits)

text \<open>\<open>ReadResourceResult\<close>.\<close>

record read_resource_result =
  rr_contents :: "resource_contents list"

definition se_read_resource_result :: "read_resource_result \<Rightarrow> json" where
  "se_read_resource_result r =
     JObj [(''contents'', JArr (map se_resource_contents (rr_contents r)))]"

definition de_read_resource_result :: "json \<Rightarrow> read_resource_result option" where
  "de_read_resource_result v = do {
     m \<leftarrow> struct_fields [''contents''] v;
     a \<leftarrow> required (de_vec de_resource_contents) ''contents'' m;
     Some \<lparr>rr_contents = a\<rparr> }"

lemma read_resource_result_roundtrip [serde_simps]:
  "de_read_resource_result (se_read_resource_result r) = Some r"
  by (auto simp: de_read_resource_result_def se_read_resource_result_def serde_defs serde_simps)

text \<open>\<open>SubscribeResourceParams\<close>.\<close>

record subscribe_resource_params =
  sub_uri :: string

definition se_subscribe_resource_params :: "subscribe_resource_params \<Rightarrow> json" where
  "se_subscribe_resource_params r =
     JObj [(''uri'', JStr (sub_uri r))]"

definition de_subscribe_resource_params :: "json \<Rightarrow> subscribe_resource_params option" where
  "de_subscribe_resource_params v = do {
     m \<leftarrow> struct_fields [''uri''] v;
     a \<leftarrow> required de_str ''uri'' m;
     Some \<lparr>sub_uri = a\<rparr> }"

lemma subscribe_resource_params_roundtrip [serde_simps]:
  "de_subscribe_resource_params (se_subscribe_resource_params r) = Some r"
  by (auto simp: de_subscribe_resource_params_def se_subscribe_resource_params_def serde_defs serde_simps)

text \<open>\<open>ResourceUpdatedParams\<close>.\<close>

record resource_updated_params =
  upd_uri :: string

definition se_resource_updated_params :: "resource_updated_params \<Rightarrow> json" where
  "se_resource_updated_params r =
     JObj [(''uri'', JStr (upd_uri r))]"

definition de_resource_updated_params :: "json \<Rightarrow> resource_updated_params option" where
  "de_resource_updated_params v = do {
     m \<leftarrow> struct_fields [''uri''] v;
     a \<leftarrow> required de_str ''uri'' m;
     Some \<lparr>upd_uri = a\<rparr> }"

lemma resource_updated_params_roundtrip [serde_simps]:
  "de_resource_updated_params (se_resource_updated_params r) = Some r"
  by (auto simp: de_resource_updated_params_def se_resource_updated_params_def serde_defs serde_simps)

text \<open>\<open>PromptArgument\<close>.\<close>

record prompt_argument =
  pa_name :: string
  pa_description :: "string option"
  pa_required :: bool

definition se_prompt_argument :: "prompt_argument \<Rightarrow> json" where
  "se_prompt_argument r =
     JObj ([(''name'', JStr (pa_name r))]
       @ se_opt ''description'' JStr (pa_description r)
       @ [(''required'', JBool (pa_required r))])"

definition de_prompt_argument :: "json \<Rightarrow> prompt_argument option" where
  "de_prompt_argument v = do {
     m \<leftarrow> struct_fields [''name'', ''description'', ''required''] v;
     a \<leftarrow> required de_str ''name'' m;
     b \<leftarrow> defaulted None (de_option de_str) ''description'' m;
     c \<leftarrow> defaulted False de_bool ''required'' m;
     Some \<lparr>pa_name = a, pa_description = b, pa_required = c\<rparr> }"

lemma prompt_argument_roundtrip [serde_simps]:
  "de_prompt_argument (se_prompt_argument r) = Some r"
  by (auto simp: de_prompt_argument_def se_prompt_argument_def serde_defs serde_simps
      split: option.splits)

text \<open>\<open>Prompt\<close>.\<close>

record prompt =
  prompt_name :: string
  prompt_description :: "string option"
  prompt_arguments :: "prompt_argument list"

definition se_prompt :: "prompt \<Rightarrow> json" where
  "se_prompt r =
     JObj ([(''name'', JStr (prompt_name r))]
       @ se_opt ''description'' JStr (prompt_description r)
       @ (if prompt_arguments r = [] then [] else [(''arguments'', JArr (map se_prompt_argument (prompt_arguments r)))]))"

definition de_prompt :: "json \<Rightarrow> prompt option" where
  "de_prompt v = do {
     m \<leftarrow> struct_fields [''name'', ''description'', ''arguments''] v;
     a \<leftarrow> required de_str ''name'' m;
     b \<leftarrow> defaulted None (de_option de_str) ''description'' m;
     c \<leftarrow> defaulted [] (de_vec de_prompt_argument) ''arguments'' m;
     Some \<lparr>prompt_name = a, prompt_description = b, prompt_arguments = c\<rparr> }"

lemma prompt_roundtrip [serde_simps]:
  "de_prompt (se_prompt r) = Some r"
  by (auto simp: de_prompt_def se_prompt_def serde_defs serde_simps
      split: option.splits)

text \<open>\<open>ListPromptsResult\<close>.\<close>

record list_prompts_result =
  lp_prompts :: "prompt list"

definition se_list_prompts_result :: "list_prompts_result \<Rightarrow> json" where
  "se_list_prompts_result r =
     JObj [(''prompts'', JArr (map se_prompt (lp_prompts r)))]"

definition de_list_prompts_result :: "json \<Rightarrow> list_prompts_result option" where
  "de_list_prompts_result v = do {
     m \<leftarrow> struct_fields [''prompts''] v;
     a \<leftarrow> required (de_vec de_prompt) ''prompts'' m;
     Some \<lparr>lp_prompts = a\<rparr> }"

lemma list_prompts_result_roundtrip [serde_simps]:
  "de_list_prompts_result (se_list_prompts_result r) = Some r"
  by (auto simp: de_list_prompts_result_def se_list_prompts_result_def serde_defs serde_simps)

text \<open>\<open>GetPromptParams\<close>.\<close>

record get_prompt_params =
  gp_name :: string
  gp_arguments :: json

definition se_get_prompt_params :: "get_prompt_params \<Rightarrow> json" where
  "se_get_prompt_params r =
     JObj [(''name'', JStr (gp_name r)), (''arguments'', gp_arguments r)]"

definition de_get_prompt_params :: "json \<Rightarrow> get_prompt_params option" where
  "de_get_prompt_params v = do {
     m \<leftarrow> struct_fields [''name'', ''arguments''] v;
     a \<leftarrow> required de_str ''name'' m;
     b \<leftarrow> defaulted JNull de_value ''arguments'' m;
     Some \<lparr>gp_name = a, gp_arguments = b\<rparr> }"

lemma get_prompt_params_roundtrip [serde_simps]:
  "is_value (gp_arguments r) \<Longrightarrow> de_get_prompt_params (se_get_prompt_params r) = Some r"
  by (auto simp: de_get_prompt_params_def se_get_prompt_params_def serde_defs serde_simps)

text \<open>\<open>PromptMessage\<close>.\<close>

record prompt_message =
  pm_role :: string
  pm_content :: content_block

definition se_prompt_message :: "prompt_message \<Rightarrow> json" where
  "se_prompt_message r =
     JObj [(''role'', JStr (pm_role r)), (''content'', se_content_block (pm_content r))]"

definition de_prompt_message :: "json \<Rightarrow> prompt_message option" where
  "de_prompt_message v = do {
     m \<leftarrow> struct_fields [''role'', ''content''] v;
     a \<leftarrow> required de_str ''role'' m;
     b \<leftarrow> required de_content_block ''content'' m;
     Some \<lparr>pm_role = a, pm_content = b\<rparr> }"

lemma prompt_message_roundtrip [serde_simps]:
  "de_prompt_message (se_prompt_message r) = Some r"
  by (auto simp: de_prompt_message_def se_prompt_message_def serde_defs serde_simps)

text \<open>\<open>GetPromptResult\<close>.\<close>

record get_prompt_result =
  gp_description :: "string option"
  gp_messages :: "prompt_message list"

definition se_get_prompt_result :: "get_prompt_result \<Rightarrow> json" where
  "se_get_prompt_result r =
     JObj (se_opt ''description'' JStr (gp_description r)
       @ [(''messages'', JArr (map se_prompt_message (gp_messages r)))])"

definition de_get_prompt_result :: "json \<Rightarrow> get_prompt_result option" where
  "de_get_prompt_result v = do {
     m \<leftarrow> struct_fields [''description'', ''messages''] v;
     a \<leftarrow> defaulted None (de_option de_str) ''description'' m;
     b \<leftarrow> required (de_vec de_prompt_message) ''messages'' m;
     Some \<lparr>gp_description = a, gp_messages = b\<rparr> }"

lemma get_prompt_result_roundtrip [serde_simps]:
  "de_get_prompt_result (se_get_prompt_result r) = Some r"
  by (auto simp: de_get_prompt_result_def se_get_prompt_result_def serde_defs serde_simps
      split: option.splits)

text \<open>\<open>ErrorBody\<close>.\<close>

record error_body =
  err_code :: int
  err_message :: string
  err_data :: "json option"

definition se_error_body :: "error_body \<Rightarrow> json" where
  "se_error_body r =
     JObj ([(''code'', se_i64 (err_code r)), (''message'', JStr (err_message r))]
       @ se_opt ''data'' id (err_data r))"

definition de_error_body :: "json \<Rightarrow> error_body option" where
  "de_error_body v = do {
     m \<leftarrow> struct_fields [''code'', ''message'', ''data''] v;
     a \<leftarrow> required de_i64 ''code'' m;
     b \<leftarrow> required de_str ''message'' m;
     c \<leftarrow> defaulted None (de_option de_value) ''data'' m;
     Some \<lparr>err_code = a, err_message = b, err_data = c\<rparr> }"

lemma error_body_roundtrip [serde_simps]:
  "- (2 ^ 63) \<le> err_code r \<Longrightarrow> err_code r < 2 ^ 63 \<Longrightarrow> \<forall>v. err_data r = Some v \<longrightarrow> is_value v \<and> v \<noteq> JNull \<Longrightarrow> de_error_body (se_error_body r) = Some r"
  by (auto simp: de_error_body_def se_error_body_def serde_defs serde_simps
      split: option.splits)

text \<open>\<open>AuthParams\<close>.\<close>

record auth_params =
  ap_agent_id :: string
  ap_token :: string
  ap_nonce :: "string option"
  ap_eph_pub :: "string option"

definition se_auth_params :: "auth_params \<Rightarrow> json" where
  "se_auth_params r =
     JObj ([(''agent_id'', JStr (ap_agent_id r)), (''token'', JStr (ap_token r))]
       @ se_opt ''nonce'' JStr (ap_nonce r)
       @ se_opt ''eph_pub'' JStr (ap_eph_pub r))"

definition de_auth_params :: "json \<Rightarrow> auth_params option" where
  "de_auth_params v = do {
     m \<leftarrow> struct_fields [''agent_id'', ''token'', ''nonce'', ''eph_pub''] v;
     a \<leftarrow> required de_str ''agent_id'' m;
     b \<leftarrow> required de_str ''token'' m;
     c \<leftarrow> defaulted None (de_option de_str) ''nonce'' m;
     d \<leftarrow> defaulted None (de_option de_str) ''eph_pub'' m;
     Some \<lparr>ap_agent_id = a, ap_token = b, ap_nonce = c, ap_eph_pub = d\<rparr> }"

lemma auth_params_roundtrip [serde_simps]:
  "de_auth_params (se_auth_params r) = Some r"
  by (auto simp: de_auth_params_def se_auth_params_def serde_defs serde_simps
      split: option.splits)

text \<open>\<open>AuthResult\<close>.\<close>

record auth_result =
  ar_ok :: bool
  ar_session_key_b64 :: "string option"
  ar_reason :: "string option"
  ar_eph_pub :: "string option"

definition se_auth_result :: "auth_result \<Rightarrow> json" where
  "se_auth_result r =
     JObj ([(''ok'', JBool (ar_ok r))]
       @ se_opt ''session_key_b64'' JStr (ar_session_key_b64 r)
       @ se_opt ''reason'' JStr (ar_reason r)
       @ se_opt ''eph_pub'' JStr (ar_eph_pub r))"

definition de_auth_result :: "json \<Rightarrow> auth_result option" where
  "de_auth_result v = do {
     m \<leftarrow> struct_fields [''ok'', ''session_key_b64'', ''reason'', ''eph_pub''] v;
     a \<leftarrow> required de_bool ''ok'' m;
     b \<leftarrow> defaulted None (de_option de_str) ''session_key_b64'' m;
     c \<leftarrow> defaulted None (de_option de_str) ''reason'' m;
     d \<leftarrow> defaulted None (de_option de_str) ''eph_pub'' m;
     Some \<lparr>ar_ok = a, ar_session_key_b64 = b, ar_reason = c, ar_eph_pub = d\<rparr> }"

lemma auth_result_roundtrip [serde_simps]:
  "de_auth_result (se_auth_result r) = Some r"
  by (auto simp: de_auth_result_def se_auth_result_def serde_defs serde_simps
      split: option.splits)

section \<open>Properties\<close>

text \<open>The handshake, notification and listing messages survive serialisation: what the derived
  deserialiser reads back is the struct that was written, with absent options staying absent.\<close>

lemma message_roundtrip:
  "de_auth_params (se_auth_params ap) = Some ap \<and> de_auth_result (se_auth_result ar) = Some ar
   \<and> de_cancel_params (se_cancel_params cp) = Some cp \<and> de_progress_params (se_progress_params pp) = Some pp
   \<and> de_call_tool_result (se_call_tool_result cr) = Some cr
   \<and> de_list_resources_result (se_list_resources_result lr) = Some lr
   \<and> de_read_resource_params (se_read_resource_params rp) = Some rp
   \<and> de_read_resource_result (se_read_resource_result rr) = Some rr
   \<and> de_subscribe_resource_params (se_subscribe_resource_params sp) = Some sp
   \<and> de_resource_updated_params (se_resource_updated_params up) = Some up
   \<and> de_list_prompts_result (se_list_prompts_result lp) = Some lp
   \<and> de_get_prompt_result (se_get_prompt_result gr) = Some gr"
  by (simp add: serde_simps)

text \<open>A tool call survives serialisation when its arguments are a \<open>Value\<close> and its metadata, if any, is
  one other than null.\<close>

lemma call_params_roundtrip:
  assumes "is_value (ct_arguments p)" "\<forall>v. ct_meta p = Some v \<longrightarrow> is_value v \<and> v \<noteq> JNull"
  shows "de_call_tool_params (se_call_tool_params p) = Some p"
  by (rule call_tool_params_roundtrip [OF assms])

end
