(* ===== verification/Daemon_Registry.thy ===== *)
theory Daemon_Registry
  imports Core_Message
begin

text \<open>
  The tool, resource and prompt registry, \<open>ohmcpd/src/tools.rs\<close>. The updater handle shares the
  registry's resources, so its operations act on the same state. The broadcast channel is
  tokio's: an operation returns the events it sends, and what a session receives is an input of
  the session. A handler is the function the host registered.
\<close>

section \<open>The registry\<close>

datatype resource_event = Updated string | List_changed

record tool_registry =
  reg_tools :: "tool list"
  handlers :: "string \<rightharpoonup> (json \<Rightarrow> call_tool_result)"
  cacheables :: "string \<rightharpoonup> bool"
  reg_resources :: "resource list"
  res_contents :: "string \<rightharpoonup> resource_contents"
  reg_prompts :: "prompt list"
  prompt_handlers :: "string \<rightharpoonup> (json \<Rightarrow> get_prompt_result)"

definition registry_new :: tool_registry where
  "registry_new = \<lparr>reg_tools = [], handlers = Map.empty, cacheables = Map.empty, reg_resources = [],
     res_contents = Map.empty, reg_prompts = [], prompt_handlers = Map.empty\<rparr>"

definition register ::
  "string \<Rightarrow> string \<Rightarrow> json \<Rightarrow> bool \<Rightarrow> (json \<Rightarrow> call_tool_result) \<Rightarrow> tool_registry \<Rightarrow> tool_registry" where
  "register name description schema cacheable handler r =
     r\<lparr>reg_tools := reg_tools r @ [\<lparr>tool_name = name, tool_description = Some description, input_schema = schema\<rparr>],
       handlers := (handlers r)(name \<mapsto> handler),
       cacheables := (cacheables r)(name \<mapsto> cacheable)\<rparr>"

definition is_cacheable :: "tool_registry \<Rightarrow> string \<Rightarrow> bool" where
  "is_cacheable r name = (case cacheables r name of Some b \<Rightarrow> b | None \<Rightarrow> False)"

definition call :: "tool_registry \<Rightarrow> string \<Rightarrow> json \<Rightarrow> call_tool_result option" where
  "call r name args = map_option (\<lambda>h. h args) (handlers r name)"

text \<open>The entry and the contents \<open>register_resource\<close> and \<open>add_resource\<close> make.\<close>

definition resource_entry :: "string \<Rightarrow> string \<Rightarrow> string \<Rightarrow> resource" where
  "resource_entry uri name mime =
     \<lparr>res_uri = uri, res_name = name, res_description = None, res_mime_type = Some mime\<rparr>"

definition text_contents :: "string \<Rightarrow> string \<Rightarrow> string \<Rightarrow> resource_contents" where
  "text_contents uri mime txt =
     \<lparr>rc_uri = uri, rc_mime_type = Some mime, rc_text = Some txt, rc_blob = None\<rparr>"

definition register_resource :: "string \<Rightarrow> string \<Rightarrow> string \<Rightarrow> string \<Rightarrow> tool_registry \<Rightarrow> tool_registry" where
  "register_resource uri name mime txt r =
     r\<lparr>reg_resources := reg_resources r @ [resource_entry uri name mime],
       res_contents := (res_contents r)(uri \<mapsto> text_contents uri mime txt)\<rparr>"

definition read_resource :: "tool_registry \<Rightarrow> string \<Rightarrow> resource_contents option" where
  "read_resource r uri = res_contents r uri"

definition has_resource :: "tool_registry \<Rightarrow> string \<Rightarrow> bool" where
  "has_resource r uri \<longleftrightarrow> res_contents r uri \<noteq> None"

definition update_resource ::
  "string \<Rightarrow> string \<Rightarrow> tool_registry \<Rightarrow> bool \<times> tool_registry \<times> resource_event list" where
  "update_resource uri txt r =
     (case res_contents r uri of
        Some c \<Rightarrow> (True, r\<lparr>res_contents := (res_contents r)(uri \<mapsto> c\<lparr>rc_text := Some txt\<rparr>)\<rparr>, [Updated uri])
      | None \<Rightarrow> (False, r, []))"

definition register_prompt ::
  "prompt \<Rightarrow> (json \<Rightarrow> get_prompt_result) \<Rightarrow> tool_registry \<Rightarrow> tool_registry" where
  "register_prompt p handler r =
     r\<lparr>reg_prompts := reg_prompts r @ [p],
       prompt_handlers := (prompt_handlers r)(prompt_name p \<mapsto> handler)\<rparr>"

definition get_prompt :: "tool_registry \<Rightarrow> string \<Rightarrow> json \<Rightarrow> get_prompt_result option" where
  "get_prompt r name args = map_option (\<lambda>h. h args) (prompt_handlers r name)"

text \<open>\<open>ResourceUpdater::update\<close> and \<open>ResourceUpdater::add_resource\<close>.\<close>

definition updater_update ::
  "string \<Rightarrow> string \<Rightarrow> tool_registry \<Rightarrow> bool \<times> tool_registry \<times> resource_event list" where
  "updater_update uri txt r =
     (case res_contents r uri of
        Some c \<Rightarrow> (True, r\<lparr>res_contents := (res_contents r)(uri \<mapsto> c\<lparr>rc_text := Some txt\<rparr>)\<rparr>, [Updated uri])
      | None \<Rightarrow> (False, r, []))"

definition updater_add_resource ::
  "string \<Rightarrow> string \<Rightarrow> string \<Rightarrow> string \<Rightarrow> tool_registry \<Rightarrow> tool_registry \<times> resource_event list" where
  "updater_add_resource uri name mime txt r =
     (r\<lparr>reg_resources := reg_resources r @ [resource_entry uri name mime],
        res_contents := (res_contents r)(uri \<mapsto> text_contents uri mime txt)\<rparr>, [List_changed])"

section \<open>What is listed is served\<close>

text \<open>
  The listings and the tables they stand for agree: a tool is listed exactly when it can be
  called, a resource when it can be read, a prompt when it can be fetched.
\<close>

definition registry_wf :: "tool_registry \<Rightarrow> bool" where
  "registry_wf r \<longleftrightarrow> tool_name ` set (reg_tools r) = dom (handlers r)
     \<and> dom (cacheables r) = dom (handlers r)
     \<and> res_uri ` set (reg_resources r) = dom (res_contents r)
     \<and> (\<forall>uri c. res_contents r uri = Some c \<longrightarrow> rc_uri c = uri)
     \<and> prompt_name ` set (reg_prompts r) = dom (prompt_handlers r)"

lemma registry_new_wf: "registry_wf registry_new"
  by (simp add: registry_wf_def registry_new_def)

text \<open>A host builds and changes its registry through these operations.\<close>

datatype registry_op =
    Op_register string string json bool "json \<Rightarrow> call_tool_result"
  | Op_register_resource string string string string
  | Op_register_prompt prompt "json \<Rightarrow> get_prompt_result"
  | Op_update string string
  | Op_updater_update string string
  | Op_updater_add string string string string

fun registry_apply :: "registry_op \<Rightarrow> tool_registry \<Rightarrow> tool_registry \<times> resource_event list" where
  "registry_apply (Op_register n d s c h) r = (register n d s c h r, [])"
| "registry_apply (Op_register_resource u n m t) r = (register_resource u n m t r, [])"
| "registry_apply (Op_register_prompt p h) r = (register_prompt p h r, [])"
| "registry_apply (Op_update u t) r = snd (update_resource u t r)"
| "registry_apply (Op_updater_update u t) r = snd (updater_update u t r)"
| "registry_apply (Op_updater_add u n m t) r = updater_add_resource u n m t r"

lemma dom_upd_known: "m k = Some v \<Longrightarrow> insert k (dom m) = dom m"
  by auto

lemma registry_apply_wf: "registry_wf r \<Longrightarrow> registry_wf (fst (registry_apply op r))"
  by (cases op)
    (auto simp: registry_wf_def register_def register_resource_def register_prompt_def resource_entry_def
      text_contents_def update_resource_def updater_update_def updater_add_resource_def dom_upd_known
      split: option.splits)

fun registry_run :: "registry_op list \<Rightarrow> tool_registry \<Rightarrow> tool_registry \<times> resource_event list" where
  "registry_run [] r = (r, [])"
| "registry_run (op # ops) r =
     (case registry_apply op r of (r', evs) \<Rightarrow>
        case registry_run ops r' of (r'', evs') \<Rightarrow> (r'', evs @ evs'))"

lemma registry_run_wf: "registry_wf r \<Longrightarrow> registry_wf (fst (registry_run ops r))"
proof (induction ops arbitrary: r)
  case Nil
  then show ?case by simp
next
  case (Cons op ops)
  from registry_apply_wf [OF Cons.prems] have "registry_wf (fst (registry_apply op r))" .
  from Cons.IH [OF this] show ?case by (auto split: prod.splits)
qed

text \<open>An event is sent only for a resource that exists afterwards.\<close>

lemma registry_apply_event:
  "registry_apply op r = (r', evs) \<Longrightarrow> Updated uri \<in> set evs \<Longrightarrow>
     \<exists>txt. has_resource r' uri \<and> map_option rc_text (read_resource r' uri) = Some (Some txt)"
  by (cases op)
    (auto simp: has_resource_def read_resource_def update_resource_def updater_update_def
      updater_add_resource_def split: option.splits)

section \<open>Properties\<close>

text \<open>C36. The registry is consistent after any history of registrations and updates: a tool is listed
  exactly when it can be called, a resource when it can be read (under its own uri), a prompt when
  it can be fetched; and a tool that is not listed is not cacheable.\<close>

theorem registry_lists_what_it_serves:
  "let r = fst (registry_run ops registry_new) in
     (call r n args \<noteq> None \<longleftrightarrow> n \<in> tool_name ` set (reg_tools r))
   \<and> (read_resource r u \<noteq> None \<longleftrightarrow> u \<in> res_uri ` set (reg_resources r))
   \<and> (has_resource r u \<longleftrightarrow> read_resource r u \<noteq> None)
   \<and> (get_prompt r p args \<noteq> None \<longleftrightarrow> p \<in> prompt_name ` set (reg_prompts r))
   \<and> map_option rc_uri (read_resource r u) \<in> {None, Some u}
   \<and> \<not> (is_cacheable r n \<and> n \<notin> tool_name ` set (reg_tools r))"
proof -
  have "registry_wf (fst (registry_run ops registry_new))"
    by (rule registry_run_wf [OF registry_new_wf])
  then show ?thesis
    by (auto simp: Let_def registry_wf_def call_def read_resource_def has_resource_def get_prompt_def
        is_cacheable_def dom_def split: option.splits)
qed

end
