(* ===== verification/Daemon_Session.thy ===== *)
theory Daemon_Session
  imports Transport_Shm Client_Pipeline Security_Auth Daemon_Registry
begin

unbundle bit_operations_syntax

text \<open>
  One connection of the daemon, \<open>handle_conn\<close> of \<open>ohmcpd/src/server.rs\<close>: the state of a session,
  one definition per message type of its \<open>match\<close>, and the handling of one frame.
\<close>

section \<open>State\<close>

text \<open>
  \<open>Shared\<close>: what all sessions of a daemon see. The registry only changes through the updater
  handle, the cache and the access list under their mutexes.
\<close>

record shared =
  registry :: tool_registry
  s_cache :: result_cache
  acl :: tool_acl
  s_token :: "bytes option"

text \<open>
  What the daemon puts on the socket: flushed bytes, and the messages that carry a descriptor,
  which bypass the write buffer.
\<close>

datatype sock_item = Data bytes | Fd fd_msg

text \<open>The local variables of \<open>handle_conn\<close>; \<open>sent\<close> is what has reached the socket.\<close>

record session =
  wr :: writer
  pipe :: pipeline
  authenticated :: bool
  agent_id :: string
  delivered :: "cache_key set"
  shm :: "ring option"
  shm_up :: "ring option"
  cancelled :: "u64 set"
  subscribed :: "string set"
  sent :: "sock_item list"

definition session_new :: "shared \<Rightarrow> session" where
  "session_new sh =
     \<lparr>wr = writer_new, pipe = pipeline_new, authenticated = (s_token sh = None), agent_id = ''anonymous'',
      delivered = {}, shm = None, shm_up = None, cancelled = {}, subscribed = {}, sent = []\<rparr>"

text \<open>
  What the operating system, the clock and the random generators answer while one frame is
  handled. Blocking calls are given by their answers.
\<close>

record env =
  t_unwrap :: nat
  t_get :: nat
  t_put :: nat
  eph_rnd :: bytes
  prefix_rnd :: bytes
  map_order :: "(cache_key \<times> entry) list \<Rightarrow> (cache_key \<times> entry) list"
  e_flush :: write_outcome
  e_ring :: "io_error option"
  e_ring_up :: "io_error option"
  e_fds :: "int \<times> int"
  e_dup :: bool
  e_send :: "send_ev list"
  e_send_up :: "send_ev list"

text \<open>
  How the handling of a frame ends: the next round of the loop, \<open>break 'session\<close> (with the final
  flush), \<open>return Ok(())\<close> or an error (both without it), a panic of the task, or a blocking call
  that has not returned.
\<close>

datatype flow = Continue | Returned | Failed string | Panicking | Blocked

section \<open>Replies\<close>

definition emit :: "frame \<Rightarrow> session \<Rightarrow> session" where
  "emit f s = s\<lparr>wr := queue f (wr s)\<rparr>"

text \<open>\<open>pipeline.wrap\<close> of a payload and \<open>writer.queue\<close> of the frame.\<close>

definition reply :: "ext \<Rightarrow> msg_type \<Rightarrow> u64 \<Rightarrow> bytes \<Rightarrow> session \<Rightarrow> session" where
  "reply x t i body s =
     (case wrap x t i body (pipe s) of ((f, fl), p) \<Rightarrow> emit f (s\<lparr>pipe := p\<rparr>))"

definition reply_error :: "ext \<Rightarrow> u64 \<Rightarrow> int \<Rightarrow> string \<Rightarrow> session \<Rightarrow> session" where
  "reply_error x i code msg s =
     reply x Error i (to_vec x (se_error_body \<lparr>err_code = code, err_message = msg, err_data = None\<rparr>)) s"

text \<open>\<open>writer.flush()\<close>, with what reaches the socket.\<close>

definition flush_session :: "write_outcome \<Rightarrow> session \<Rightarrow> (core_error + unit) \<times> session" where
  "flush_session out s =
     (case flush (wr s) out of (r, w, bs) \<Rightarrow>
        (r, s\<lparr>wr := w, sent := (if bs = [] then sent s else sent s @ [Data bs])\<rparr>))"

text \<open>\<open>pipeline.unwrap\<close> and \<open>serde_json::from_slice\<close> of a request, either of which ends the session on error.\<close>

definition unwrap_body :: "ext \<Rightarrow> env \<Rightarrow> frame \<Rightarrow> session \<Rightarrow> (string + bytes) \<times> session" where
  "unwrap_body x e f s = (case unwrap x (t_unwrap e) f (pipe s) of (r, p) \<Rightarrow> (r, s\<lparr>pipe := p\<rparr>))"

definition parse :: "ext \<Rightarrow> (json \<Rightarrow> 'a option) \<Rightarrow> bytes \<Rightarrow> string + 'a" where
  "parse x de body =
     (case from_slice x body of
        Inl e \<Rightarrow> Inl e
      | Inr v \<Rightarrow> (case de v of None \<Rightarrow> Inl ''invalid message'' | Some a \<Rightarrow> Inr a))"

definition with_params ::
  "ext \<Rightarrow> env \<Rightarrow> (json \<Rightarrow> 'a option) \<Rightarrow> frame \<Rightarrow> session \<Rightarrow> shared
   \<Rightarrow> ('a \<Rightarrow> session \<Rightarrow> flow \<times> session \<times> shared) \<Rightarrow> flow \<times> session \<times> shared" where
  "with_params x e de f s sh k =
     (case unwrap_body x e f s of
        (Inl m, s') \<Rightarrow> (Failed m, s', sh)
      | (Inr body, s') \<Rightarrow>
          (case parse x de body of
             Inl m \<Rightarrow> (Failed m, s', sh)
           | Inr a \<Rightarrow> k a s'))"

section \<open>Uplink references\<close>

definition resolve_uplink :: "frame \<Rightarrow> session \<Rightarrow> (string + frame) \<times> session" where
  "resolve_uplink f s =
     (if shm_ref (flags (header f)) then
        (case shm_up s of
           None \<Rightarrow> (Inl ''SHM_REF request but uplink not negotiated'', s)
         | Some ring \<Rightarrow>
             (case decode_shm_ref (payload f) of
                None \<Rightarrow> (Inl ''bad uplink shm ref payload'', s)
              | Some (off, len) \<Rightarrow>
                  (case read_release ring off (unat len) of
                     (None, ring') \<Rightarrow> (Inl ''invalid uplink shm ref'', s\<lparr>shm_up := Some ring'\<rparr>)
                   | (Some d, ring') \<Rightarrow>
                       (Inr (f\<lparr>payload := d,
                               header := (header f)\<lparr>payload_len := len,
                                                    flags := flags (header f) AND NOT SHM_REF\<rparr>\<rparr>),
                        s\<lparr>shm_up := Some ring'\<rparr>))))
      else (Inr f, s))"

section \<open>Authentication\<close>

text \<open>
  The three steps of the \<open>Auth\<close> arm: the check of the response, the client's ephemeral key, and
  the answer. A string slice that is not at a character boundary panics.
\<close>

definition auth_ok :: "ext \<Rightarrow> bytes option \<Rightarrow> auth_params \<Rightarrow> bool ret" where
  "auth_ok x token params =
     (case (token, ap_nonce params) of
        (Some tok, Some nonce) \<Rightarrow>
          (case unhex (ap_token params) of
             Panicked \<Rightarrow> Panicked
           | Ret r \<Rightarrow> Ret (verify_response x tok (as_bytes nonce) (case r of Some b \<Rightarrow> b | None \<Rightarrow> [])))
      | _ \<Rightarrow> Ret False)"

definition client_public :: "auth_params \<Rightarrow> bytes option ret" where
  "client_public params = (case ap_eph_pub params of None \<Rightarrow> Ret None | Some h \<Rightarrow> unhex32 h)"

definition auth_answer :: "ext \<Rightarrow> env \<Rightarrow> u64 \<Rightarrow> auth_params \<Rightarrow> bool \<Rightarrow> bytes option \<Rightarrow> session \<Rightarrow> shared
    \<Rightarrow> flow \<times> session \<times> shared" where
  "auth_answer x e i params ok peer s sh =
     (let eph = (if ok \<and> peer \<noteq> None then Some (ephemeral_generate x (eph_rnd e)) else None);
          result = \<lparr>ar_ok = ok, ar_session_key_b64 = None,
                    ar_reason = (if ok then None else Some ''invalid token''),
                    ar_eph_pub = map_option (\<lambda>kp. hex (public kp)) eph\<rparr>;
          s1 = emit (frame_new AuthResult i (to_vec x (se_auth_result result))) s
      in if ok then
           (let tok = the (s_token sh); nonce = as_bytes (the (ap_nonce params));
                key = (case (eph, peer) of
                         (Some kp, Some pub) \<Rightarrow> derive_fs_session_key x kp pub tok nonce
                       | _ \<Rightarrow> derive_session_key x tok nonce)
            in (Continue,
                s1\<lparr>authenticated := True, agent_id := ap_agent_id params,
                   pipe := enable_encryption (prefix_rnd e) key (pipe s1)\<rparr>,
                sh\<lparr>acl := acl_grant_all (ap_agent_id params) (acl sh)\<rparr>))
         else (Returned, s1, sh))"

definition on_auth :: "ext \<Rightarrow> env \<Rightarrow> frame \<Rightarrow> session \<Rightarrow> shared \<Rightarrow> flow \<times> session \<times> shared" where
  "on_auth x e f s sh =
     (case parse x de_auth_params (payload f) of
        Inl m \<Rightarrow> (Failed m, s, sh)
      | Inr params \<Rightarrow>
          (case auth_ok x (s_token sh) params of
             Panicked \<Rightarrow> (Panicking, s, sh)
           | Ret ok \<Rightarrow>
               (case client_public params of
                  Panicked \<Rightarrow> (Panicking, s, sh)
                | Ret peer \<Rightarrow> auth_answer x e (request_id (header f)) params ok peer s sh)))"

section \<open>Shared-memory setup\<close>

definition ring_of :: "ring outcome \<Rightarrow> ring option" where
  "ring_of r = (case r of Returns v \<Rightarrow> Some v | _ \<Rightarrow> None)"

text \<open>
  The blocking part: both descriptors, the second only after the first, or the decline byte.
  The list is what went out on the socket.
\<close>

definition exchange_fds ::
  "env \<Rightarrow> ring option \<Rightarrow> ring option \<Rightarrow> (io_error + unit) poll \<times> sock_item list" where
  "exchange_fds e down up =
     (case (down, up) of
        (Some _, Some _) \<Rightarrow>
          (case send_fd_blocking (fst (e_fds e)) (e_send e) of
             Pending \<Rightarrow> (Pending, [])
           | Ready (Inl err) \<Rightarrow> (Ready (Inl err), [])
           | Ready (Inr m) \<Rightarrow>
               (case send_fd_blocking (snd (e_fds e)) (e_send_up e) of
                  Pending \<Rightarrow> (Pending, [Fd m])
                | Ready (Inl err) \<Rightarrow> (Ready (Inl err), [Fd m])
                | Ready (Inr m') \<Rightarrow> (Ready (Inr ()), [Fd m, Fd m'])))
      | _ \<Rightarrow>
          (case send_fd_decline (e_send e) of
             Pending \<Rightarrow> (Pending, [])
           | Ready (Inl err) \<Rightarrow> (Ready (Inl err), [])
           | Ready (Inr m) \<Rightarrow> (Ready (Inr ()), [Fd m])))"

definition shm_setup_result :: "bool \<Rightarrow> json" where
  "shm_setup_result ok =
     to_value (JObj [(''ok'', JBool ok), (''size'', JPos (word_of_nat DEFAULT_SHM_CAP)),
                     (''up_size'', JPos (word_of_nat DEFAULT_SHM_CAP))])"

definition on_shm_setup :: "ext \<Rightarrow> env \<Rightarrow> frame \<Rightarrow> session \<Rightarrow> shared \<Rightarrow> flow \<times> session \<times> shared" where
  "on_shm_setup x e f s sh =
     (case flush_session (e_flush e) s of
        (Inl err, s1) \<Rightarrow> (Failed (core_error_text err), s1, sh)
      | (Inr _, s1) \<Rightarrow>
          (let down = ring_of (ring_create DEFAULT_SHM_CAP (e_ring e));
               up = ring_of (ring_create DEFAULT_SHM_CAP (e_ring_up e))
           in if \<not> e_dup e then (Failed ''dup failed during shm setup'', s1, sh)
              else (case exchange_fds e down up of
                  (Pending, out) \<Rightarrow> (Blocked, s1\<lparr>sent := sent s1 @ out\<rparr>, sh)
                | (Ready r, out) \<Rightarrow>
                    (let ok = (r = Inr () \<and> down \<noteq> None \<and> up \<noteq> None);
                         s2 = reply x ShmSetupResult (request_id (header f)) (to_vec x (shm_setup_result ok))
                                (s1\<lparr>sent := sent s1 @ out\<rparr>)
                     in (Continue, if ok then s2\<lparr>shm := down, shm_up := up\<rparr> else s2, sh)))))"

section \<open>Handshake and listings\<close>

definition initialize_answer :: initialize_result where
  "initialize_answer =
     \<lparr>ir_protocol_version = ''2025-06-18'',
      server_info = \<lparr>impl_name = ''ohmcpd'', impl_version = ''0.1.0''\<rparr>,
      ir_capabilities = to_value (JObj [(''tools'', JObj []), (''resources'', JObj []), (''prompts'', JObj [])])\<rparr>"

definition on_initialize :: "ext \<Rightarrow> frame \<Rightarrow> session \<Rightarrow> shared \<Rightarrow> flow \<times> session \<times> shared" where
  "on_initialize x f s sh =
     (Continue, reply x InitializeResult (request_id (header f)) (to_vec x (se_initialize_result initialize_answer)) s, sh)"

definition on_list_tools :: "ext \<Rightarrow> frame \<Rightarrow> session \<Rightarrow> shared \<Rightarrow> flow \<times> session \<times> shared" where
  "on_list_tools x f s sh =
     (Continue, reply x ListToolsResult (request_id (header f))
        (to_vec x (se_list_tools_result \<lparr>lt_tools = reg_tools (registry sh)\<rparr>)) s, sh)"

definition on_list_resources :: "ext \<Rightarrow> frame \<Rightarrow> session \<Rightarrow> shared \<Rightarrow> flow \<times> session \<times> shared" where
  "on_list_resources x f s sh =
     (Continue, reply x ListResourcesResult (request_id (header f))
        (to_vec x (se_list_resources_result \<lparr>lr_resources = reg_resources (registry sh)\<rparr>)) s, sh)"

definition on_read_resource :: "ext \<Rightarrow> env \<Rightarrow> frame \<Rightarrow> session \<Rightarrow> shared \<Rightarrow> flow \<times> session \<times> shared" where
  "on_read_resource x e f s sh =
     with_params x e de_read_resource_params f s sh (\<lambda>params s'.
       case read_resource (registry sh) (rr_uri params) of
         Some contents \<Rightarrow>
           (Continue, reply x ReadResourceResult (request_id (header f))
              (to_vec x (se_read_resource_result \<lparr>rr_contents = [contents]\<rparr>)) s', sh)
       | None \<Rightarrow>
           (Continue, reply_error x (request_id (header f)) (-32002)
              (''resource not found: '' @ rr_uri params) s', sh))"

definition on_list_prompts :: "ext \<Rightarrow> frame \<Rightarrow> session \<Rightarrow> shared \<Rightarrow> flow \<times> session \<times> shared" where
  "on_list_prompts x f s sh =
     (Continue, reply x ListPromptsResult (request_id (header f))
        (to_vec x (se_list_prompts_result \<lparr>lp_prompts = reg_prompts (registry sh)\<rparr>)) s, sh)"

definition on_get_prompt :: "ext \<Rightarrow> env \<Rightarrow> frame \<Rightarrow> session \<Rightarrow> shared \<Rightarrow> flow \<times> session \<times> shared" where
  "on_get_prompt x e f s sh =
     with_params x e de_get_prompt_params f s sh (\<lambda>params s'.
       case get_prompt (registry sh) (gp_name params) (gp_arguments params) of
         Some result \<Rightarrow>
           (Continue, reply x GetPromptResult (request_id (header f)) (to_vec x (se_get_prompt_result result)) s', sh)
       | None \<Rightarrow>
           (Continue, reply_error x (request_id (header f)) (-32602)
              (''unknown prompt: '' @ gp_name params) s', sh))"

definition on_ping :: "ext \<Rightarrow> frame \<Rightarrow> session \<Rightarrow> shared \<Rightarrow> flow \<times> session \<times> shared" where
  "on_ping x f s sh = (Continue, reply x Pong (request_id (header f)) (as_bytes ''{}'') s, sh)"

section \<open>Subscriptions and cancellation\<close>

definition on_subscribe :: "ext \<Rightarrow> env \<Rightarrow> frame \<Rightarrow> session \<Rightarrow> shared \<Rightarrow> flow \<times> session \<times> shared" where
  "on_subscribe x e f s sh =
     (let is_sub = (msg_type (header f) = SubscribeResource) in
      with_params x e de_subscribe_resource_params f s sh (\<lambda>params s'.
        if is_sub \<and> \<not> has_resource (registry sh) (sub_uri params) then
          (Continue, reply_error x (request_id (header f)) (-32002)
             (''resource not found: '' @ sub_uri params) s', sh)
        else
          (Continue, reply x SubscribeResourceResult (request_id (header f)) (as_bytes ''{}'')
             (s'\<lparr>subscribed := (if is_sub then insert (sub_uri params) (subscribed s')
                                else subscribed s' - {sub_uri params})\<rparr>), sh)))"

definition on_cancel :: "ext \<Rightarrow> env \<Rightarrow> frame \<Rightarrow> session \<Rightarrow> shared \<Rightarrow> flow \<times> session \<times> shared" where
  "on_cancel x e f s sh =
     (case unwrap_body x e f s of
        (Inl m, s') \<Rightarrow> (Failed m, s', sh)
      | (Inr body, s') \<Rightarrow>
          (Continue,
           (case parse x de_cancel_params body of
              Inl _ \<Rightarrow> s'
            | Inr params \<Rightarrow> s'\<lparr>cancelled := insert (cancel_request_id params) (cancelled s')\<rparr>),
           sh))"

section \<open>Tool calls\<close>

text \<open>\<open>wrap_maybe_shm\<close>: the frame, and the session with the ring and the pipeline it leaves.\<close>

definition wrap_maybe_shm :: "ext \<Rightarrow> u64 \<Rightarrow> bytes \<Rightarrow> session \<Rightarrow> frame \<times> session" where
  "wrap_maybe_shm x i body s =
     (let inline = (case wrap x CallToolResult i body (pipe s) of ((f, fl), p) \<Rightarrow> (f, s\<lparr>pipe := p\<rparr>))
      in case shm s of
          None \<Rightarrow> inline
        | Some ring \<Rightarrow>
            if length body < SHM_THRESHOLD then inline
            else (case try_write ring body of
                (None, _) \<Rightarrow> inline
              | (Some off, ring') \<Rightarrow>
                  (let f = frame_new CallToolResult i (encode_shm_ref off (len_u32 body))
                   in (f\<lparr>header := (header f)\<lparr>flags := flags (header f) OR SHM_REF\<rparr>\<rparr>,
                       s\<lparr>shm := Some ring'\<rparr>))))"

definition wants_progress :: "call_tool_params \<Rightarrow> bool" where
  "wants_progress params =
     (case Option.bind (Option.bind (ct_meta params) (json_get ''progress'')) as_bool of
        Some b \<Rightarrow> b | None \<Rightarrow> False)"

definition progress_body :: "u64 \<Rightarrow> string \<Rightarrow> progress_params" where
  "progress_body i name =
     \<lparr>pr_request_id = i, pr_progress = 0, pr_total = Some 1, pr_message = Some (''executing '' @ name)\<rparr>"

text \<open>The key of a call, computed only for cacheable tools.\<close>

definition call_key :: "ext \<Rightarrow> tool_registry \<Rightarrow> call_tool_params \<Rightarrow> cache_key option" where
  "call_key x r params =
     (if is_cacheable r (ct_name params)
      then Some (cache_key_compute (sha256 x) (ct_name params) (to_vec x (ct_arguments params)))
      else None)"

text \<open>A full result goes out, marked as cacheable when it has a key.\<close>

definition deliver :: "ext \<Rightarrow> u64 \<Rightarrow> bytes \<Rightarrow> bool \<Rightarrow> session \<Rightarrow> session" where
  "deliver x i body marked s =
     (case wrap_maybe_shm x i body s of (f, s') \<Rightarrow> emit (if marked then mark_cacheable f else f) s')"

text \<open>The lookup in the shared cache: the answer on a hit.\<close>

definition call_cached ::
  "ext \<Rightarrow> env \<Rightarrow> u64 \<Rightarrow> cache_key \<Rightarrow> session \<Rightarrow> shared \<Rightarrow> session option \<times> shared" where
  "call_cached x e i key s sh =
     (case cache_get (t_get e) key (s_cache sh) of
        (None, c) \<Rightarrow> (None, sh\<lparr>s_cache := c\<rparr>)
      | (Some body, c) \<Rightarrow>
          (Some (if key \<in> delivered s
                 then (case wrap_cache_ref x CallToolResult i key (pipe s) of
                         (f, p) \<Rightarrow> emit f (s\<lparr>pipe := p\<rparr>))
                 else deliver x i body True (s\<lparr>delivered := insert key (delivered s)\<rparr>)),
           sh\<lparr>s_cache := c\<rparr>))"

text \<open>The execution of the tool, after a miss or for a tool that is not cacheable.\<close>

definition call_execute ::
  "ext \<Rightarrow> env \<Rightarrow> u64 \<Rightarrow> call_tool_params \<Rightarrow> cache_key option \<Rightarrow> session \<Rightarrow> shared \<Rightarrow> session \<times> shared" where
  "call_execute x e i params key s sh =
     (case call (registry sh) (ct_name params) (ct_arguments params) of
        Some result \<Rightarrow>
          (let body = to_vec x (se_call_tool_result result) in
           case key of
             None \<Rightarrow> (deliver x i body False s, sh)
           | Some k \<Rightarrow>
               (deliver x i body True (s\<lparr>delivered := insert k (delivered s)\<rparr>),
                sh\<lparr>s_cache := cache_put (map_order e) (t_put e) k body (s_cache sh)\<rparr>))
      | None \<Rightarrow> (reply_error x i (-32601) (''unknown tool: '' @ ct_name params) s, sh))"

definition call_authorized ::
  "ext \<Rightarrow> env \<Rightarrow> u64 \<Rightarrow> call_tool_params \<Rightarrow> session \<Rightarrow> shared \<Rightarrow> session \<times> shared" where
  "call_authorized x e i params s sh =
     (case call_key x (registry sh) params of
        None \<Rightarrow> call_execute x e i params None s sh
      | Some key \<Rightarrow>
          (case call_cached x e i key s sh of
             (Some s', sh') \<Rightarrow> (s', sh')
           | (None, sh') \<Rightarrow> call_execute x e i params (Some key) s sh'))"

text \<open>The progress notice, the access check and the call, once the parameters are known.\<close>

definition call_with ::
  "ext \<Rightarrow> env \<Rightarrow> u64 \<Rightarrow> call_tool_params \<Rightarrow> session \<Rightarrow> shared \<Rightarrow> session \<times> shared" where
  "call_with x e i params s sh =
     (let s1 = (if wants_progress params
                then reply x Progress i (to_vec x (se_progress_params (progress_body i (ct_name params)))) s
                else s)
      in if acl_check (acl sh) (agent_id s1) (ct_name params) \<noteq> Inr ()
         then (reply_error x i (-32002) (''access denied: '' @ ct_name params) s1, sh)
         else call_authorized x e i params s1 sh)"

definition on_call_tool :: "ext \<Rightarrow> env \<Rightarrow> frame \<Rightarrow> session \<Rightarrow> shared \<Rightarrow> flow \<times> session \<times> shared" where
  "on_call_tool x e f s sh =
     (if request_id (header f) \<in> cancelled s then
        (Continue,
         reply_error x (request_id (header f)) (-32800) ''request cancelled''
           (s\<lparr>cancelled := cancelled s - {request_id (header f)}\<rparr>), sh)
      else with_params x e de_call_tool_params f s sh (\<lambda>params s1.
        (Continue, call_with x e (request_id (header f)) params s1 sh)))"

section \<open>One frame\<close>

definition dispatch :: "ext \<Rightarrow> env \<Rightarrow> frame \<Rightarrow> session \<Rightarrow> shared \<Rightarrow> flow \<times> session \<times> shared" where
  "dispatch x e f s sh =
     (if msg_type (header f) = Auth then on_auth x e f s sh
      else if \<not> authenticated s then
        (Continue, reply_error x (request_id (header f)) (-32001) ''authentication required'' s, sh)
      else case msg_type (header f) of
          ShmSetup \<Rightarrow> on_shm_setup x e f s sh
        | Initialize \<Rightarrow> on_initialize x f s sh
        | ListTools \<Rightarrow> on_list_tools x f s sh
        | ListResources \<Rightarrow> on_list_resources x f s sh
        | ReadResource \<Rightarrow> on_read_resource x e f s sh
        | ListPrompts \<Rightarrow> on_list_prompts x f s sh
        | GetPrompt \<Rightarrow> on_get_prompt x e f s sh
        | Ping \<Rightarrow> on_ping x f s sh
        | SubscribeResource \<Rightarrow> on_subscribe x e f s sh
        | UnsubscribeResource \<Rightarrow> on_subscribe x e f s sh
        | Cancel \<Rightarrow> on_cancel x e f s sh
        | CallTool \<Rightarrow> on_call_tool x e f s sh
        | _ \<Rightarrow> (Continue, s, sh))"

definition handle_frame :: "ext \<Rightarrow> env \<Rightarrow> frame \<Rightarrow> session \<Rightarrow> shared \<Rightarrow> flow \<times> session \<times> shared" where
  "handle_frame x e f s sh =
     (case resolve_uplink f s of
        (Inl m, s') \<Rightarrow> (Failed m, s', sh)
      | (Inr f', s') \<Rightarrow> dispatch x e f' s' sh)"

end
