(* ===== verification/Daemon_Loop.thy ===== *)
theory Daemon_Loop
  imports Daemon_Session
begin

text \<open>
  The loop of \<open>handle_conn\<close> (\<open>ohmcpd/src/server.rs\<close>): buffered frames first, then one flush, then
  the \<open>select!\<close> over the socket, the resource events and the shutdown signal. A connection runs
  against a shared state other connections and the host change between its steps.
\<close>

section \<open>The loop\<close>

text \<open>The head of the loop, the \<open>select!\<close>, or how the task ended.\<close>

datatype phase = Serving | Waiting | Ended flow

record conn =
  ses :: session
  rd :: reader
  phase :: phase

definition conn_new :: "shared \<Rightarrow> conn" where
  "conn_new sh = \<lparr>ses = session_new sh, rd = reader_new, phase = Serving\<rparr>"

text \<open>\<open>break 'session\<close>: the final flush, whose outcome is ignored.\<close>

definition finish :: "env \<Rightarrow> conn \<Rightarrow> conn" where
  "finish e c = c\<lparr>ses := snd (flush_session (e_flush e) (ses c)), phase := Ended Returned\<rparr>"

definition run_frame :: "ext \<Rightarrow> env \<Rightarrow> frame \<Rightarrow> conn \<Rightarrow> shared \<Rightarrow> conn \<times> shared" where
  "run_frame x e f c sh =
     (case handle_frame x e f (ses c) sh of (fl, s, sh') \<Rightarrow>
        (c\<lparr>ses := s, phase := (if fl = Continue then Serving else Ended fl)\<rparr>, sh'))"

text \<open>\<open>next_buffered\<close> and either the next frame or the flush before waiting.\<close>

definition serve_step :: "ext \<Rightarrow> env \<Rightarrow> conn \<Rightarrow> shared \<Rightarrow> conn \<times> shared" where
  "serve_step x e c sh =
     (case next_buffered (rd c) of
        (Inl err, r) \<Rightarrow> (c\<lparr>rd := r, phase := Ended (Failed (core_error_text err))\<rparr>, sh)
      | (Inr (Some f), r) \<Rightarrow> run_frame x e f (c\<lparr>rd := r\<rparr>) sh
      | (Inr None, r) \<Rightarrow>
          (case flush_session (e_flush e) (ses c) of
             (Inl err, s) \<Rightarrow> (c\<lparr>ses := s, rd := r, phase := Ended (Failed (core_error_text err))\<rparr>, sh)
           | (Inr _, s) \<Rightarrow> (c\<lparr>ses := s, rd := r, phase := Waiting\<rparr>, sh)))"

text \<open>What the \<open>select!\<close> wakes up for; a resource event can be lost to a lagging receiver.\<close>

datatype wait_ev = Socket io_event | Shutdown | Notice "resource_event option"

text \<open>The frame a resource event makes, if this session is to be told.\<close>

definition event_frame :: "ext \<Rightarrow> resource_event option \<Rightarrow> session \<Rightarrow> frame option \<times> session" where
  "event_frame x ev s =
     (case ev of
        Some (Updated uri) \<Rightarrow>
          if uri \<in> subscribed s then
            (case wrap x ResourceUpdated 0 (to_vec x (se_resource_updated_params \<lparr>upd_uri = uri\<rparr>)) (pipe s) of
               ((f, fl), p) \<Rightarrow> (Some f, s\<lparr>pipe := p\<rparr>))
          else (None, s)
      | Some List_changed \<Rightarrow>
          if authenticated s then
            (case wrap x ResourceListChanged 0 (as_bytes ''{}'') (pipe s) of
               ((f, fl), p) \<Rightarrow> (Some f, s\<lparr>pipe := p\<rparr>))
          else (None, s)
      | None \<Rightarrow> (None, s))"

definition wait_step :: "ext \<Rightarrow> env \<Rightarrow> wait_ev \<Rightarrow> conn \<Rightarrow> shared \<Rightarrow> conn \<times> shared" where
  "wait_step x e ev c sh =
     (case ev of
        Shutdown \<Rightarrow> (finish e c, sh)
      | Socket io \<Rightarrow>
          (case next_frame (rd c) [io] of
             (Pending, r, _) \<Rightarrow> (c\<lparr>rd := r\<rparr>, sh)
           | (Ready (Inl err), r, _) \<Rightarrow> (c\<lparr>rd := r, phase := Ended (Failed (core_error_text err))\<rparr>, sh)
           | (Ready (Inr None), r, _) \<Rightarrow> (finish e (c\<lparr>rd := r\<rparr>), sh)
           | (Ready (Inr (Some f)), r, _) \<Rightarrow> run_frame x e f (c\<lparr>rd := r\<rparr>) sh)
      | Notice rv \<Rightarrow>
          (case event_frame x rv (ses c) of
             (None, s) \<Rightarrow> (c\<lparr>ses := s\<rparr>, sh)
           | (Some f, s) \<Rightarrow>
               (case flush_session (e_flush e) (emit f s) of
                  (Inl err, s') \<Rightarrow> (c\<lparr>ses := s', phase := Ended (Failed (core_error_text err))\<rparr>, sh)
                | (Inr _, s') \<Rightarrow> (c\<lparr>ses := s'\<rparr>, sh))))"

section \<open>The daemon around a connection\<close>

text \<open>The shared state \<open>run_with\<close> starts from.\<close>

definition SERVER_CACHE_TTL :: nat where "SERVER_CACHE_TTL = 300 * 10 ^ 9"

definition shared_new :: "bytes option \<Rightarrow> tool_registry \<Rightarrow> shared" where
  "shared_new token r =
     \<lparr>registry = r, s_cache = cache_new 65536 SERVER_CACHE_TTL,
      acl = acl_grant_all ''anonymous'' acl_new, s_token = token\<rparr>"

text \<open>
  What happens between two steps: other sessions grant access and use the cache, the host changes
  resources, and the client writes into the two rings it maps.
\<close>

definition shared_changes :: "shared \<Rightarrow> shared \<Rightarrow> bool" where
  "shared_changes sh sh' \<longleftrightarrow> s_token sh' = s_token sh
     \<and> (\<exists>ops. registry sh' = fst (registry_run ops (registry sh)))
     \<and> allow_all (acl sh) \<subseteq> allow_all (acl sh')
     \<and> (cache_wf (s_cache sh) \<longrightarrow> cache_wf (s_cache sh'))
     \<and> capacity (s_cache sh') = capacity (s_cache sh)"

definition ring_changes :: "ring option \<Rightarrow> ring option \<Rightarrow> bool" where
  "ring_changes r r' \<longleftrightarrow>
     map_option (\<lambda>q. (cap q, length (mem q))) r' = map_option (\<lambda>q. (cap q, length (mem q))) r"

definition peer_writes :: "session \<Rightarrow> session \<Rightarrow> bool" where
  "peer_writes s s' \<longleftrightarrow> (\<exists>d u. ring_changes (shm s) d \<and> ring_changes (shm_up s) u \<and> s' = s\<lparr>shm := d, shm_up := u\<rparr>)"

text \<open>The random prefix of a cipher has four bytes, and the iteration of the cache meets every entry.\<close>

definition env_ok :: "env \<Rightarrow> bool" where
  "env_ok e \<longleftrightarrow> length (prefix_rnd e) = 4 \<and> enumerates (map_order e)"

inductive conn_step :: "ext \<Rightarrow> conn \<times> shared \<Rightarrow> conn \<times> shared \<Rightarrow> bool" for x where
  Serve: "phase c = Serving \<Longrightarrow> env_ok e \<Longrightarrow> serve_step x e c sh = (c', sh') \<Longrightarrow>
    conn_step x (c, sh) (c', sh')"
| Wait: "phase c = Waiting \<Longrightarrow> env_ok e \<Longrightarrow> wait_step x e ev c sh = (c', sh') \<Longrightarrow>
    conn_step x (c, sh) (c', sh')"
| Others: "shared_changes sh sh' \<Longrightarrow> conn_step x (c, sh) (c, sh')"
| Peer: "peer_writes (ses c) s \<Longrightarrow> conn_step x (c, sh) (c\<lparr>ses := s\<rparr>, sh)"

inductive_cases conn_stepE: "conn_step x (c, sh) (c', sh')"

text \<open>The states a connection of a daemon with the given token and registry can be in.\<close>

inductive reachable :: "ext \<Rightarrow> bytes option \<Rightarrow> tool_registry \<Rightarrow> conn \<times> shared \<Rightarrow> bool" for x token reg where
  Start: "shared_changes (shared_new token reg) sh \<Longrightarrow> reachable x token reg (conn_new sh, sh)"
| Step: "reachable x token reg cs \<Longrightarrow> conn_step x cs cs' \<Longrightarrow> reachable x token reg cs'"

end
