(* ===== verification/Daemon_Correct.thy ===== *)
theory Daemon_Correct
  imports Daemon_Loop
begin

unbundle bit_operations_syntax

text \<open>
  What holds of a connection of the daemon in every reachable state, and what each request gets
  for an answer.
\<close>

section \<open>Steps shared by the handlers\<close>

named_theorems session_simps \<open>what a reply and an unwrapped request change\<close>

lemma emit_fields [simp]:
  "pipe (emit f s) = pipe s" "authenticated (emit f s) = authenticated s" "agent_id (emit f s) = agent_id s"
  "delivered (emit f s) = delivered s" "shm (emit f s) = shm s" "shm_up (emit f s) = shm_up s"
  "cancelled (emit f s) = cancelled s" "subscribed (emit f s) = subscribed s" "sent (emit f s) = sent s"
  "wbuf (wr (emit f s)) = wbuf (wr s) @ wire f"
  by (simp_all add: emit_def queue_def encode_wire)

lemma reply_fields [simp]:
  "authenticated (reply x t i b s) = authenticated s" "agent_id (reply x t i b s) = agent_id s"
  "delivered (reply x t i b s) = delivered s" "shm (reply x t i b s) = shm s"
  "shm_up (reply x t i b s) = shm_up s" "cancelled (reply x t i b s) = cancelled s"
  "subscribed (reply x t i b s) = subscribed s" "sent (reply x t i b s) = sent s"
  by (simp_all add: reply_def split: prod.splits)

lemma reply_error_fields [simp]:
  "authenticated (reply_error x i c m s) = authenticated s" "agent_id (reply_error x i c m s) = agent_id s"
  "delivered (reply_error x i c m s) = delivered s" "shm (reply_error x i c m s) = shm s"
  "shm_up (reply_error x i c m s) = shm_up s" "cancelled (reply_error x i c m s) = cancelled s"
  "subscribed (reply_error x i c m s) = subscribed s" "sent (reply_error x i c m s) = sent s"
  by (simp_all add: reply_error_def)

text \<open>The pipeline of the server, whose own cache is never filled.\<close>

definition server_pipe :: "pipeline \<Rightarrow> bool" where
  "server_pipe p \<longleftrightarrow> pipeline_wf p \<and> entries (p_cache p) = []"

lemma server_pipe_new: "server_pipe pipeline_new"
  by (simp add: server_pipe_def pipeline_new_wf) (simp add: pipeline_new_def cache_new_def)

lemma enable_encryption_server_pipe: "server_pipe p \<Longrightarrow> length rnd = 4 \<Longrightarrow> server_pipe (enable_encryption rnd key p)"
  by (simp add: server_pipe_def enable_encryption_wf) (simp add: enable_encryption_def)

lemma wrap_server_pipe: "wrap x t i b p = ((f, fl), p') \<Longrightarrow> server_pipe p \<Longrightarrow> server_pipe p'"
  using wrap_header(5,11) [of x t i b p f fl p'] by (simp add: server_pipe_def)

lemma wrap_cache_ref_server_pipe: "wrap_cache_ref x t i k p = (f, p') \<Longrightarrow> server_pipe p \<Longrightarrow> server_pipe p'"
  by (auto simp: wrap_cache_ref_def server_pipe_def pipeline_wf_def cipher_encrypt_def cipher_wf_def
      split: option.splits)

lemma unwrap_cipher: "unwrap x now f p = (r, p') \<Longrightarrow> p_cipher p' = p_cipher p"
  by (auto simp: unwrap_def split: sum.splits option.splits prod.splits if_splits)

lemma unwrap_server_pipe: "unwrap x now f p = (r, p') \<Longrightarrow> server_pipe p \<Longrightarrow> server_pipe p'"
  by (auto simp: unwrap_def server_pipe_def pipeline_wf_def cache_get_def cache_wf_def
      split: sum.splits option.splits prod.splits if_splits)

lemma reply_pipe:
  "server_pipe (pipe s) \<Longrightarrow> server_pipe (pipe (reply x t i b s))"
  "encryption_enabled (pipe (reply x t i b s)) = encryption_enabled (pipe s)"
proof -
  obtain f fl p where w: "wrap x t i b (pipe s) = ((f, fl), p)" by (metis prod.exhaust)
  then have r: "pipe (reply x t i b s) = p" by (simp add: reply_def)
  from r show "server_pipe (pipe s) \<Longrightarrow> server_pipe (pipe (reply x t i b s))"
    using wrap_server_pipe [OF w] by simp
  from wrap_header(6) [OF w] show "encryption_enabled (pipe (reply x t i b s)) = encryption_enabled (pipe s)"
    using r same_key_encryption by simp
qed

section \<open>The invariant of a session\<close>

text \<open>
  The rings are well formed whatever the client writes into them; an authenticated session's agent
  is on the access list; with a token configured, an authenticated session encrypts; what is
  subscribed to exists.
\<close>

definition ring_inv :: "ring option \<Rightarrow> bool" where
  "ring_inv r \<longleftrightarrow> (\<forall>q. r = Some q \<longrightarrow> ring_wf q \<and> cap q = DEFAULT_SHM_CAP)"

definition session_inv :: "shared \<Rightarrow> session \<Rightarrow> bool" where
  "session_inv sh s \<longleftrightarrow> server_pipe (pipe s) \<and> ring_inv (shm s) \<and> ring_inv (shm_up s)
     \<and> (authenticated s \<longrightarrow> agent_id s \<in> allow_all (acl sh))
     \<and> (s_token sh \<noteq> None \<and> authenticated s \<longrightarrow> encryption_enabled (pipe s))
     \<and> (\<forall>uri \<in> subscribed s. has_resource (registry sh) uri)
     \<and> (\<not> authenticated s \<longrightarrow> subscribed s = {} \<and> delivered s = {} \<and> shm s = None \<and> shm_up s = None)"

definition shared_inv :: "shared \<Rightarrow> bool" where
  "shared_inv sh \<longleftrightarrow> cache_wf (s_cache sh) \<and> capacity (s_cache sh) = 65536 \<and> ''anonymous'' \<in> allow_all (acl sh)"

text \<open>What the handling of a frame may do to the shared state.\<close>

definition shared_le :: "shared \<Rightarrow> shared \<Rightarrow> bool" where
  "shared_le sh sh' \<longleftrightarrow> s_token sh' = s_token sh \<and> registry sh' = registry sh
     \<and> allow_all (acl sh) \<subseteq> allow_all (acl sh') \<and> (shared_inv sh \<longrightarrow> shared_inv sh')"

lemma shared_le_refl [simp]: "shared_le sh sh"
  by (simp add: shared_le_def)

lemma shared_le_trans: "shared_le a b \<Longrightarrow> shared_le b c \<Longrightarrow> shared_le a c"
  by (auto simp: shared_le_def)

lemma session_inv_mono: "session_inv sh s \<Longrightarrow> shared_le sh sh' \<Longrightarrow> session_inv sh' s"
  by (auto simp: session_inv_def shared_le_def)

lemma emit_inv [simp]: "session_inv sh (emit f s) = session_inv sh s"
  by (simp add: session_inv_def)

lemma reply_inv: "session_inv sh s \<Longrightarrow> session_inv sh (reply x t i b s)"
  by (simp add: session_inv_def reply_pipe)

lemma reply_error_inv: "session_inv sh s \<Longrightarrow> session_inv sh (reply_error x i c m s)"
  by (simp add: reply_error_def reply_inv)

lemma unwrap_body_inv:
  "unwrap_body x e f s = (r, s') \<Longrightarrow> session_inv sh s \<Longrightarrow>
    session_inv sh s' \<and> authenticated s' = authenticated s \<and> agent_id s' = agent_id s
    \<and> wr s' = wr s \<and> sent s' = sent s \<and> p_cipher (pipe s') = p_cipher (pipe s)"
  by (auto simp: unwrap_body_def session_inv_def encryption_enabled_def unwrap_cipher unwrap_server_pipe
      split: prod.splits)

lemma flush_session_inv: "flush_session out s = (r, s') \<Longrightarrow> session_inv sh s' = session_inv sh s"
  by (auto simp: flush_session_def session_inv_def split: prod.splits)

lemma try_write_ring_inv: "ring_inv (Some r) \<Longrightarrow> try_write r d = (w, r') \<Longrightarrow> ring_inv (Some r')"
proof (cases w)
  case None
  then show "ring_inv (Some r) \<Longrightarrow> try_write r d = (w, r') \<Longrightarrow> ring_inv (Some r')"
    using try_write_None by metis
next
  case (Some off)
  assume i: "ring_inv (Some r)" and w: "try_write r d = (w, r')"
  have "cap r dvd 2 ^ 64" using i by (simp add: ring_inv_def DEFAULT_SHM_CAP_def)
  with i w Some have "unat off mod cap r + length d \<le> cap r"
    by (intro try_write_in_bounds) (auto simp: ring_inv_def)
  with i have fit: "unat off mod cap r + length d \<le> length (mem r)"
    by (simp add: ring_inv_def ring_wf_def)
  from w Some have "r' = r\<lparr>mem := blit (mem r) (unat off mod cap r) d, head := off + word_of_nat (length d)\<rparr>"
    by (auto simp: try_write_def Let_def split: if_splits)
  with i fit show "ring_inv (Some r')" by (simp add: ring_inv_def ring_wf_def)
qed

lemma read_release_ring_inv: "ring_inv (Some r) \<Longrightarrow> read_release r off n = (d, r') \<Longrightarrow> ring_inv (Some r')"
  by (auto simp: read_release_def ring_inv_def ring_wf_def split: if_splits)

lemma ring_create_inv: "ring_inv (ring_of (ring_create DEFAULT_SHM_CAP os))"
  by (auto simp: ring_create_def ring_of_def ring_inv_def ring_wf_def DEFAULT_SHM_CAP_def MAX_SHM_CAP_def
      split: option.splits)

lemma resolve_uplink_inv:
  assumes "resolve_uplink f s = (r, s')"
  shows "session_inv sh s \<Longrightarrow> session_inv sh s'" "\<exists>u. s' = s\<lparr>shm_up := u\<rparr>"
proof -
  have c: "s' = s \<or> (\<exists>ring off n d ring'. shm_up s = Some ring \<and> read_release ring off n = (d, ring')
      \<and> s' = s\<lparr>shm_up := Some ring'\<rparr>)"
    using assms by (auto simp: resolve_uplink_def split: if_splits option.splits prod.splits)
  show "session_inv sh s'" if inv: "session_inv sh s"
  proof -
    have "ring_inv (Some ring')" if "shm_up s = Some ring" "read_release ring off n = (d, ring')"
      for ring off n d ring'
      using inv that by (intro read_release_ring_inv [OF _ that(2)]) (simp add: session_inv_def)
    with c inv show ?thesis by (auto simp: session_inv_def)
  qed
  have "\<exists>u. s = s\<lparr>shm_up := u\<rparr>" by (intro exI [of _ "shm_up s"]) simp
  with c show "\<exists>u. s' = s\<lparr>shm_up := u\<rparr>"
    by (elim disjE exE [of "\<lambda>ring. \<exists>off n d ring'. Q ring off n d ring'" for Q]) auto
qed

lemma wrap_maybe_shm_inv:
  assumes "wrap_maybe_shm x i b s = (f, s')" "session_inv sh s" "authenticated s"
  shows "session_inv sh s'"
proof -
  obtain g fl p where w: "wrap x CallToolResult i b (pipe s) = ((g, fl), p)" by (metis prod.exhaust)
  have "encryption_enabled p = encryption_enabled (pipe s)"
    by (rule same_key_encryption [OF wrap_header(6) [OF w]])
  then have inline: "session_inv sh (s\<lparr>pipe := p\<rparr>)"
    using assms(2) wrap_server_pipe [OF w] by (simp add: session_inv_def)
  show ?thesis
  proof (cases "shm s")
    case None
    with assms(1) w inline show ?thesis by (simp add: wrap_maybe_shm_def)
  next
    case (Some r)
    obtain o' r' where t: "try_write r b = (o', r')" by fastforce
    have "ring_inv (Some r')" if "o' = Some off" for off
      using try_write_ring_inv [OF _ t] assms(2) Some by (simp add: session_inv_def)
    with assms w inline Some t show ?thesis
      by (auto simp: wrap_maybe_shm_def session_inv_def Let_def split: if_splits option.splits)
  qed
qed

lemma deliver_inv: "session_inv sh s \<Longrightarrow> authenticated s \<Longrightarrow> session_inv sh (deliver x i b m s)"
  using wrap_maybe_shm_inv [of x i b s] by (auto simp: deliver_def split: prod.splits)

text \<open>Every handler keeps the invariant.\<close>

definition keeps :: "shared \<Rightarrow> flow \<times> session \<times> shared \<Rightarrow> bool" where
  "keeps sh r \<longleftrightarrow> (case r of (fl, s', sh') \<Rightarrow> shared_le sh sh' \<and> session_inv sh' s')"

lemma with_params_keeps:
  assumes "session_inv sh s" "\<And>a s'. session_inv sh s' \<Longrightarrow> authenticated s' = authenticated s \<Longrightarrow>
      agent_id s' = agent_id s \<Longrightarrow> keeps sh (k a s')"
  shows "keeps sh (with_params x e de f s sh k)"
proof -
  obtain r s' where u: "unwrap_body x e f s = (r, s')" by fastforce
  note s' = unwrap_body_inv [OF u assms(1)]
  show ?thesis
  proof (cases r)
    case (Inl m)
    with s' show ?thesis by (simp add: with_params_def u keeps_def)
  next
    case (Inr body)
    with s' assms(2) [of s'] show ?thesis
      by (cases "parse x de body") (simp_all add: with_params_def u keeps_def)
  qed
qed

lemma auth_answer_keeps:
  assumes inv: "session_inv sh s" and e: "env_ok e"
  shows "keeps sh (auth_answer x e i params ok peer s sh)"
proof (cases ok)
  case True
  let ?acl = "sh\<lparr>acl := acl_grant_all (ap_agent_id params) (acl sh)\<rparr>"
  have sh: "shared_le sh ?acl"
    by (auto simp: shared_le_def shared_inv_def acl_grant_all_def)
  have "session_inv ?acl ((emit f s)\<lparr>authenticated := True, agent_id := ap_agent_id params,
      pipe := enable_encryption (prefix_rnd e) key (pipe s)\<rparr>)" for f key
    using inv e enable_encryption_server_pipe [of "pipe s"]
    by (simp add: session_inv_def env_ok_def acl_grant_all_def encryption_enabled_def)
      (simp add: enable_encryption_def)
  with sh inv True show ?thesis
    by (simp add: auth_answer_def keeps_def Let_def)
next
  case False
  with inv show ?thesis by (simp add: auth_answer_def keeps_def Let_def)
qed

lemma on_auth_keeps: "session_inv sh s \<Longrightarrow> env_ok e \<Longrightarrow> keeps sh (on_auth x e f s sh)"
  using auth_answer_keeps [of sh s e x]
  by (auto simp: on_auth_def keeps_def split: sum.split ret.split)

lemma on_shm_setup_keeps:
  assumes inv: "session_inv sh s" and auth: "authenticated s"
  shows "keeps sh (on_shm_setup x e f s sh)"
proof -
  obtain r s1 where fl: "flush_session (e_flush e) s = (r, s1)" by fastforce
  have s1: "session_inv sh s1" "authenticated s1"
    using inv auth flush_session_inv [OF fl] fl by (auto simp: flush_session_def split: prod.splits)
  let ?down = "ring_of (ring_create DEFAULT_SHM_CAP (e_ring e))"
    and ?up = "ring_of (ring_create DEFAULT_SHM_CAP (e_ring_up e))"
  have snt: "session_inv sh (s1\<lparr>sent := out\<rparr>)" for out
    using s1 by (simp add: session_inv_def)
  have rings: "session_inv sh (s2\<lparr>shm := ?down, shm_up := ?up\<rparr>)" if "session_inv sh s2" "authenticated s2" for s2
    using that ring_create_inv by (simp add: session_inv_def)
  have "session_inv sh (reply x ShmSetupResult i b (s1\<lparr>sent := out\<rparr>))"
    "authenticated (reply x ShmSetupResult i b (s1\<lparr>sent := out\<rparr>))" for i b out
    using reply_inv [OF snt] s1(2) by simp_all
  with rings snt s1 show ?thesis
    by (auto simp: on_shm_setup_def keeps_def fl Let_def split: sum.split prod.split poll.split)
qed

lemma on_subscribe_keeps:
  assumes "session_inv sh s" "authenticated s"
  shows "keeps sh (on_subscribe x e f s sh)"
  unfolding on_subscribe_def Let_def
proof (rule with_params_keeps [OF assms(1)], goal_cases)
  case (1 params s')
  have "session_inv sh (s'\<lparr>subscribed := insert (sub_uri params) (subscribed s')\<rparr>)"
    if "has_resource (registry sh) (sub_uri params)"
    using 1 that assms(2) by (simp add: session_inv_def)
  moreover have "session_inv sh (s'\<lparr>subscribed := subscribed s' - {sub_uri params}\<rparr>)"
    using 1 by (auto simp: session_inv_def)
  ultimately show ?case
    using 1(1) by (auto simp: keeps_def reply_inv reply_error_inv)
qed

lemma on_cancel_keeps: "session_inv sh s \<Longrightarrow> keeps sh (on_cancel x e f s sh)"
proof -
  assume inv: "session_inv sh s"
  obtain r s' where u: "unwrap_body x e f s = (r, s')" by fastforce
  then have "session_inv sh s'" using unwrap_body_inv inv by blast
  moreover from this have "session_inv sh (s'\<lparr>cancelled := c\<rparr>)" for c by (simp add: session_inv_def)
  ultimately show ?thesis by (auto simp: on_cancel_def u keeps_def split: sum.split)
qed

lemma call_execute_keeps:
  assumes inv: "session_inv sh s" and auth: "authenticated s" and e: "env_ok e"
    and r: "call_execute x e i params key s sh = (s', sh')"
  shows "shared_le sh sh' \<and> session_inv sh' s'"
proof -
  have d: "session_inv sh (s\<lparr>delivered := ds\<rparr>)" for ds
    using inv auth by (simp add: session_inv_def)
  have "shared_le sh (sh\<lparr>s_cache := cache_put (map_order e) now k v (s_cache sh)\<rparr>)" for now k v
    using cache_put_wf e by (auto simp: shared_le_def shared_inv_def env_ok_def)
  with r inv auth d show ?thesis
    by (auto simp: call_execute_def Let_def reply_error_inv deliver_inv
        intro!: session_inv_mono [of sh _ "sh\<lparr>s_cache := c\<rparr>" for c] split: option.splits)
qed

lemma call_cached_keeps:
  assumes inv: "session_inv sh s" and auth: "authenticated s"
    and r: "call_cached x e i key s sh = (so, sh')"
  shows "shared_le sh sh' \<and> (case so of None \<Rightarrow> session_inv sh' s | Some s' \<Rightarrow> session_inv sh' s')"
proof -
  obtain v c where g: "cache_get (t_get e) key (s_cache sh) = (v, c)" by fastforce
  then have le: "shared_le sh (sh\<lparr>s_cache := c\<rparr>)"
    using cache_get_wf by (auto simp: shared_le_def shared_inv_def)
  obtain f p where w: "wrap_cache_ref x CallToolResult i key (pipe s) = (f, p)" by fastforce
  have "encryption_enabled p = encryption_enabled (pipe s)"
    using w by (auto simp: wrap_cache_ref_def encryption_enabled_def cipher_encrypt_def split: option.splits)
  then have ref: "session_inv sh (s\<lparr>pipe := p\<rparr>)"
    using inv wrap_cache_ref_server_pipe [OF w] by (simp add: session_inv_def)
  have "session_inv sh (s\<lparr>delivered := ds\<rparr>)" for ds
    using inv auth by (simp add: session_inv_def)
  then have del: "session_inv sh (deliver x i b m (s\<lparr>delivered := ds\<rparr>))" for b m ds
    using auth by (simp add: deliver_inv)
  note up = session_inv_mono [OF _ le]
  show ?thesis
  proof (cases v)
    case None
    with r g le up [OF inv] show ?thesis by (auto simp: call_cached_def)
  next
    case (Some b)
    with r g le up [OF ref] up [OF del] w show ?thesis by (auto simp: call_cached_def)
  qed
qed

lemma call_authorized_keeps:
  assumes inv: "session_inv sh s" and auth: "authenticated s" and e: "env_ok e"
    and r: "call_authorized x e i params s sh = (s', sh')"
  shows "shared_le sh sh' \<and> session_inv sh' s'"
proof (cases "call_key x (registry sh) params")
  case None
  with r call_execute_keeps [OF inv auth e] show ?thesis by (simp add: call_authorized_def)
next
  case (Some key)
  obtain so sh1 where c: "call_cached x e i key s sh = (so, sh1)" by fastforce
  note k = call_cached_keeps [OF inv auth c]
  show ?thesis
  proof (cases so)
    case None
    with k have "shared_le sh sh1" "session_inv sh1 s" by simp_all
    with r Some c None call_execute_keeps [OF _ auth e] shared_le_trans show ?thesis
      by (auto simp: call_authorized_def)
  next
    case (Some s1)
    with r \<open>call_key x (registry sh) params = Some key\<close> c k show ?thesis by (auto simp: call_authorized_def)
  qed
qed

lemma call_with_keeps:
  assumes "session_inv sh s" "authenticated s" "env_ok e"
  shows "keeps sh (Continue, call_with x e i params s sh)"
proof -
  define s1 where "s1 = (if wants_progress params
      then reply x Progress i (to_vec x (se_progress_params (progress_body i (ct_name params)))) s else s)"
  have "session_inv sh s1" "authenticated s1"
    using assms(1,2) by (simp_all add: s1_def reply_inv)
  with call_authorized_keeps [OF this assms(3)] show ?thesis
    by (auto simp: call_with_def s1_def [symmetric] keeps_def reply_error_inv)
qed

lemma on_call_tool_keeps:
  assumes inv: "session_inv sh s" and auth: "authenticated s" and e: "env_ok e"
  shows "keeps sh (on_call_tool x e f s sh)"
proof (cases "request_id (header f) \<in> cancelled s")
  case True
  have "session_inv sh (s\<lparr>cancelled := c\<rparr>)" for c using inv by (simp add: session_inv_def)
  with True show ?thesis by (simp add: on_call_tool_def keeps_def reply_error_inv)
next
  case False
  have "keeps sh (with_params x e de_call_tool_params f s sh
      (\<lambda>params s1. (Continue, call_with x e (request_id (header f)) params s1 sh)))"
    by (rule with_params_keeps [OF inv], rule call_with_keeps) (simp_all add: auth e)
  with False show ?thesis by (simp add: on_call_tool_def)
qed

lemma dispatch_keeps:
  assumes inv: "session_inv sh s" and e: "env_ok e"
  shows "keeps sh (dispatch x e f s sh)"
proof -
  consider "msg_type (header f) = Auth" | "msg_type (header f) \<noteq> Auth" "\<not> authenticated s"
    | "msg_type (header f) \<noteq> Auth" "authenticated s" by blast
  then show ?thesis
  proof cases
    case 1
    then show ?thesis by (simp add: dispatch_def on_auth_keeps inv e)
  next
    case 2
    then show ?thesis by (simp add: dispatch_def keeps_def reply_error_inv inv)
  next
    case 3
    have "keeps sh (on_read_resource x e f s sh)" "keeps sh (on_get_prompt x e f s sh)"
      unfolding on_read_resource_def on_get_prompt_def
      by (rule with_params_keeps [OF inv], simp add: keeps_def reply_inv reply_error_inv split: option.split)+
    moreover have "keeps sh (on_initialize x f s sh)" "keeps sh (on_list_tools x f s sh)"
      "keeps sh (on_list_resources x f s sh)" "keeps sh (on_list_prompts x f s sh)"
      "keeps sh (on_ping x f s sh)" "keeps sh (Continue, s, sh)"
      using inv by (simp_all add: on_initialize_def on_list_tools_def on_list_resources_def
          on_list_prompts_def on_ping_def keeps_def reply_inv)
    ultimately show ?thesis
      using 3 on_shm_setup_keeps [OF inv] on_subscribe_keeps [OF inv] on_cancel_keeps [OF inv]
        on_call_tool_keeps [OF inv _ e]
      by (simp add: dispatch_def split: msg_type.split)
  qed
qed

lemma handle_frame_keeps:
  assumes inv: "session_inv sh s" and e: "env_ok e"
  shows "keeps sh (handle_frame x e f s sh)"
proof -
  obtain r s' where u: "resolve_uplink f s = (r, s')" by fastforce
  from resolve_uplink_inv(1) [OF this inv] have "session_inv sh s'" .
  with e show ?thesis
    by (auto simp: handle_frame_def u keeps_def dispatch_keeps [unfolded keeps_def] split: sum.split)
qed

section \<open>The invariant in every reachable state\<close>

definition conn_inv :: "bytes option \<Rightarrow> conn \<times> shared \<Rightarrow> bool" where
  "conn_inv tk cs \<longleftrightarrow> session_inv (snd cs) (ses (fst cs)) \<and> shared_inv (snd cs) \<and> s_token (snd cs) = tk"

lemma run_frame_inv:
  assumes "conn_inv tk (c, sh)" "env_ok e" "run_frame x e f c sh = (c', sh')"
  shows "conn_inv tk (c', sh')"
proof -
  obtain fl s' sh1 where h: "handle_frame x e f (ses c) sh = (fl, s', sh1)" by (metis prod_cases3)
  from handle_frame_keeps [of sh "ses c" e x f] assms(1,2) have
    "shared_le sh sh1" "session_inv sh1 s'" by (auto simp: conn_inv_def keeps_def h)
  with assms(1,3) h show ?thesis
    by (auto simp: run_frame_def conn_inv_def shared_le_def)
qed

lemma flush_inv: "flush_session out s = (r, s') \<Longrightarrow> session_inv sh s \<Longrightarrow> session_inv sh s'"
  using flush_session_inv by blast

lemma event_frame_inv:
  assumes "event_frame x ev s = (fo, s')" "session_inv sh s"
  shows "session_inv sh s'"
proof -
  have "session_inv sh (s\<lparr>pipe := p\<rparr>)" if "wrap x t i b (pipe s) = ((f, fl), p)" for t i b f fl p
    using assms(2) wrap_server_pipe [OF that] same_key_encryption [OF wrap_header(6) [OF that]]
    by (simp add: session_inv_def)
  with assms show ?thesis
    by (auto simp: event_frame_def split: option.splits resource_event.splits if_splits prod.splits)
qed

lemma serve_step_inv:
  assumes "conn_inv tk (c, sh)" "env_ok e" "serve_step x e c sh = (c', sh')"
  shows "conn_inv tk (c', sh')"
proof -
  obtain res r where n: "next_buffered (rd c) = (res, r)" by fastforce
  obtain fr s where fl: "flush_session (e_flush e) (ses c) = (fr, s)" by fastforce
  have "conn_inv tk (c\<lparr>rd := r\<rparr>, sh)" using assms(1) by (simp add: conn_inv_def)
  note run = run_frame_inv [OF this assms(2)]
  have "session_inv sh s" using flush_inv [OF fl] assms(1) by (simp add: conn_inv_def)
  with assms(1,3) n fl run show ?thesis
    by (auto simp: serve_step_def conn_inv_def split: sum.splits option.splits)
qed

lemma finish_inv: "conn_inv tk (c, sh) \<Longrightarrow> conn_inv tk (finish e c, sh)"
  using flush_inv [of "e_flush e" "ses c" _ _ sh, OF prod.collapse [symmetric]]
  by (simp add: conn_inv_def finish_def)

lemma wait_step_inv:
  assumes "conn_inv tk (c, sh)" "env_ok e" "wait_step x e ev c sh = (c', sh')"
  shows "conn_inv tk (c', sh')"
proof (cases ev)
  case Shutdown
  with assms finish_inv show ?thesis by (auto simp: wait_step_def)
next
  case (Socket io)
  obtain res r evs where n: "next_frame (rd c) [io] = (res, r, evs)" by (metis prod_cases3)
  have rd: "conn_inv tk (c\<lparr>rd := r\<rparr>, sh)" using assms(1) by (simp add: conn_inv_def)
  note run = run_frame_inv [OF this assms(2)]
  from assms(1,3) n run finish_inv [OF rd] Socket rd show ?thesis
    by (auto simp: wait_step_def conn_inv_def split: poll.splits sum.splits option.splits)
next
  case (Notice rv)
  obtain fo s where ef: "event_frame x rv (ses c) = (fo, s)" by fastforce
  have s: "session_inv sh s" using event_frame_inv [OF ef] assms(1) by (simp add: conn_inv_def)
  show ?thesis
  proof (cases fo)
    case None
    with assms Notice ef s show ?thesis by (auto simp: wait_step_def conn_inv_def)
  next
    case (Some f)
    obtain fr s2 where fl: "flush_session (e_flush e) (emit f s) = (fr, s2)" by fastforce
    from flush_inv [OF fl] s have "session_inv sh s2" by simp
    with assms Notice ef Some fl show ?thesis
      by (auto simp: wait_step_def conn_inv_def split: sum.splits)
  qed
qed

lemma registry_apply_resources: "has_resource r uri \<Longrightarrow> has_resource (fst (registry_apply op r)) uri"
  by (cases op)
    (auto simp: has_resource_def register_def register_resource_def register_prompt_def update_resource_def
      updater_update_def updater_add_resource_def split: option.splits)

lemma registry_run_resources: "has_resource r uri \<Longrightarrow> has_resource (fst (registry_run ops r)) uri"
proof (induction ops arbitrary: r)
  case (Cons op ops)
  from Cons.IH [OF registry_apply_resources [OF Cons.prems, of op]] show ?case
    by (auto split: prod.splits)
qed simp

lemma shared_changes_inv:
  assumes "shared_changes sh sh'"
  shows "shared_inv sh \<Longrightarrow> shared_inv sh'" "session_inv sh s \<Longrightarrow> session_inv sh' s"
  using assms registry_run_resources
  by (auto simp: shared_changes_def shared_inv_def session_inv_def)

lemma ring_changes_inv: "ring_changes r r' \<Longrightarrow> ring_inv r \<Longrightarrow> ring_inv r'"
  by (cases r; cases r') (auto simp: ring_changes_def ring_inv_def ring_wf_def)

lemma peer_writes_inv:
  assumes "peer_writes s s'" "session_inv sh s"
  shows "session_inv sh s'"
proof -
  from assms(1) obtain d u where du: "ring_changes (shm s) d" "ring_changes (shm_up s) u"
    and s': "s' = s\<lparr>shm := d, shm_up := u\<rparr>" by (auto simp: peer_writes_def)
  have "shm s = None \<longrightarrow> d = None" "shm_up s = None \<longrightarrow> u = None"
    using du by (auto simp: ring_changes_def)
  with du assms(2) ring_changes_inv show ?thesis
    by (auto simp: s' session_inv_def)
qed

lemma conn_step_inv: "conn_step x cs cs' \<Longrightarrow> conn_inv tk cs \<Longrightarrow> conn_inv tk cs'"
proof (induction rule: conn_step.induct)
  case (Serve c e sh c' sh')
  then show ?case by (blast intro: serve_step_inv)
next
  case (Wait c e ev sh c' sh')
  then show ?case by (blast intro: wait_step_inv)
next
  case (Others sh sh' c)
  then have "s_token sh' = s_token sh" by (simp add: shared_changes_def)
  with Others shared_changes_inv show ?case by (auto simp: conn_inv_def)
next
  case (Peer c s sh)
  then show ?case using peer_writes_inv by (auto simp: conn_inv_def)
qed

lemma shared_new_inv: "shared_inv (shared_new token reg)"
  by (simp add: shared_new_def shared_inv_def cache_new_wf acl_grant_all_def) (simp add: cache_new_def)

lemma session_new_inv: "shared_inv sh \<Longrightarrow> session_inv sh (session_new sh)"
  by (auto simp: session_inv_def session_new_def server_pipe_new ring_inv_def shared_inv_def)

lemma reachable_inv: "reachable x token reg cs \<Longrightarrow> conn_inv token cs"
proof (induction rule: reachable.induct)
  case (Start sh)
  then have "shared_inv sh" using shared_changes_inv(1) shared_new_inv by blast
  with Start session_new_inv show ?case
    by (simp add: conn_inv_def conn_new_def shared_changes_def shared_new_def)
next
  case (Step cs cs')
  then show ?case using conn_step_inv by blast
qed

section \<open>Properties\<close>

subsection \<open>First steps of a connection\<close>

lemma shared_changes_refl: "shared_changes sh sh"
  by (auto simp: shared_changes_def intro: exI [of _ "[]"])

text \<open>A connection starts by waiting; a frame that then arrives whole is handled.\<close>

lemma conn_new_waits:
  assumes "env_ok e"
  shows "conn_step x (conn_new sh, sh) ((conn_new sh)\<lparr>phase := Waiting\<rparr>, sh)"
proof (rule conn_step.Serve [OF _ assms])
  show "phase (conn_new sh) = Serving" by (simp add: conn_new_def)
  have "next_buffered (rd (conn_new sh)) = (Inr None, reader_new)"
    by (simp add: next_buffered_def conn_new_def reader_new_def decode_def HEADER_LEN_def)
  moreover have "flush_session (e_flush e) (ses (conn_new sh)) = (Inr (), ses (conn_new sh))"
    by (simp add: flush_session_def flush_def conn_new_def session_new_def writer_new_def)
  ultimately show "serve_step x e (conn_new sh) sh = ((conn_new sh)\<lparr>phase := Waiting\<rparr>, sh)"
    by (simp add: serve_step_def conn_new_def)
qed

lemma next_frame_whole:
  assumes "frame_ok f" "rbuf r = []"
  shows "next_frame r [Bytes (wire f)]
    = (Ready (Inr (Some f)), r\<lparr>rbuf := [], bytes_read := bytes_read r + word_of_nat (length (wire f))\<rparr>, [])"
proof -
  have "decode [] = (Inr None, [])" by (simp add: decode_def HEADER_LEN_def)
  moreover have "decode (wire f) = (Inr (Some f), [])"
    using decode_wire_ok [OF assms(1), of "[]"] by simp
  moreover have "wire f \<noteq> []" by (simp add: wire_eq encode_header_def)
  ultimately show ?thesis by (simp add: next_frame_def assms(2))
qed

text \<open>The state after the first frame of a connection.\<close>

definition after_first :: "ext \<Rightarrow> env \<Rightarrow> frame \<Rightarrow> shared \<Rightarrow> conn \<times> shared" where
  "after_first x e f sh =
     run_frame x e f ((conn_new sh)\<lparr>rd := \<lparr>rbuf = [], bytes_read = word_of_nat (length (wire f))\<rparr>, phase := Waiting\<rparr>) sh"

lemma after_first_reachable:
  assumes "env_ok e" "frame_ok f"
  shows "reachable x token reg (after_first x e f (shared_new token reg))"
proof -
  let ?sh = "shared_new token reg"
  let ?c = "(conn_new ?sh)\<lparr>phase := Waiting\<rparr>"
  have "reachable x token reg (conn_new ?sh, ?sh)" by (rule reachable.Start [OF shared_changes_refl])
  from reachable.Step [OF this conn_new_waits [OF assms(1)]] have "reachable x token reg (?c, ?sh)" .
  moreover have "conn_step x (?c, ?sh) (after_first x e f ?sh)"
  proof -
    obtain c' sh' where r: "after_first x e f ?sh = (c', sh')" by fastforce
    have "rbuf (rd ?c) = []" "bytes_read (rd ?c) = 0" by (simp_all add: conn_new_def reader_new_def)
    then have "wait_step x e (Socket (Bytes (wire f))) ?c ?sh = (c', sh')"
      using next_frame_whole [OF assms(2), of "rd ?c"] r
      by (simp add: wait_step_def after_first_def conn_new_def) (simp add: reader_new_def)
    with assms(1) r show ?thesis by (auto intro: conn_step.Wait)
  qed
  ultimately show ?thesis by (rule reachable.Step)
qed

text \<open>An environment in which every call succeeds.\<close>

definition sample_env :: env where
  "sample_env = \<lparr>t_unwrap = 0, t_get = 0, t_put = 0, eph_rnd = replicate 32 5, prefix_rnd = replicate 4 6,
     map_order = id, e_flush = Wrote_all, e_ring = None, e_ring_up = None, e_fds = (3, 4), e_dup = True,
     e_send = [Sent], e_send_up = [Sent]\<rparr>"

lemma sample_env_ok: "env_ok sample_env"
  by (simp add: env_ok_def sample_env_def enumerates_def)

lemma anonymous_shm_session:
  "reachable sample_ext None registry_new (after_first sample_ext sample_env (frame_new ShmSetup 0 []) (shared_new None registry_new))"
  "shm (ses (fst (after_first sample_ext sample_env (frame_new ShmSetup 0 []) (shared_new None registry_new))))
     = Some \<lparr>cap = DEFAULT_SHM_CAP, head = 0, tail = 0, mem = replicate DEFAULT_SHM_CAP 0\<rparr>"
proof -
  have "frame_ok (frame_new ShmSetup 0 [])"
    by (simp add: frame_ok_def frame_new_def MAX_FRAME_LEN_unat)
  then show "reachable sample_ext None registry_new (after_first sample_ext sample_env (frame_new ShmSetup 0 []) (shared_new None registry_new))"
    by (rule after_first_reachable [OF sample_env_ok])
  have r: "ring_of (ring_create DEFAULT_SHM_CAP None) = Some \<lparr>cap = DEFAULT_SHM_CAP, head = 0, tail = 0, mem = replicate DEFAULT_SHM_CAP 0\<rparr>"
    by (simp add: ring_of_def ring_create_def DEFAULT_SHM_CAP_def MAX_SHM_CAP_def)
  have h: "\<not> shm_ref (flags (header (frame_new ShmSetup 0 [])))" "msg_type (header (frame_new ShmSetup 0 [])) = ShmSetup"
    by (simp_all add: frame_new_def flag_bits FLAG_NONE_def)
  have a: "authenticated (session_new (shared_new None registry_new))" "wbuf (wr (session_new (shared_new None registry_new))) = []"
    by (simp_all add: session_new_def shared_new_def writer_new_def)
  have e: "e_ring sample_env = None" "e_ring_up sample_env = None" "e_dup sample_env" "e_send sample_env = [Sent]"
    "e_send_up sample_env = [Sent]"
    by (simp_all add: sample_env_def)
  show "shm (ses (fst (after_first sample_ext sample_env (frame_new ShmSetup 0 []) (shared_new None registry_new))))
     = Some \<lparr>cap = DEFAULT_SHM_CAP, head = 0, tail = 0, mem = replicate DEFAULT_SHM_CAP 0\<rparr>"
    using a by (simp add: after_first_def run_frame_def conn_new_def handle_frame_def resolve_uplink_def h dispatch_def
        on_shm_setup_def e r exchange_fds_def send_fd_blocking_def flush_session_def flush_def Let_def)
qed

subsection \<open>Claims\<close>

text \<open>C4. In every reachable state of a connection, whatever other sessions, the host and the client's
  writes into the rings do in between: an authenticated session's agent is on the access list, it
  encrypts if the daemon has a token, every resource it is subscribed to exists, and the shared
  cache keeps within its 65536 entries.\<close>

theorem session_invariant:
  assumes "reachable x token reg (c, sh)"
  shows "(authenticated (ses c) \<longrightarrow> agent_id (ses c) \<in> allow_all (acl sh)
      \<and> (token \<noteq> None \<longrightarrow> encryption_enabled (pipe (ses c))))
    \<and> subscribed (ses c) \<subseteq> {uri. has_resource (registry sh) uri}
    \<and> length (entries (s_cache sh)) \<le> 65536"
  using reachable_inv [OF assms]
  by (auto simp: conn_inv_def session_inv_def shared_inv_def cache_wf_def)

theorem session_invariant_witness:
  "let (c, sh) = after_first sample_ext sample_env (frame_new ShmSetup 0 []) (shared_new None registry_new) in
   length (entries (s_cache sh)) \<le> 65536"
proof -
  obtain c sh where r: "after_first sample_ext sample_env (frame_new ShmSetup 0 []) (shared_new None registry_new) = (c, sh)"
    by fastforce
  with anonymous_shm_session(1) have "reachable sample_ext None registry_new (c, sh)" by simp
  from session_invariant [OF this] r show ?thesis by simp
qed

text \<open>The access check in front of a tool call never refuses: in every reachable state, an
  authenticated session's agent is allowed every tool, because the daemon grants all tools to each
  agent it authenticates and to the anonymous one.\<close>

lemma access_check_never_refuses:
  assumes "reachable x token reg (c, sh)" "authenticated (ses c)"
  shows "acl_check (acl sh) (agent_id (ses c)) name = Inr ()"
  using reachable_inv [OF assms(1)] assms(2)
  by (simp add: conn_inv_def session_inv_def acl_check_def)

text \<open>C26. Whatever the client writes into the shared rings, the daemon's own writes of results stay inside
  the mapping, in every reachable state.\<close>

theorem daemon_ring_writes_in_bounds:
  assumes "reachable x token reg (c, sh)" "shm (ses c) = Some r" "try_write r d = (Some off, r')"
  shows "unat off mod cap r + length d \<le> length (mem r) \<and> length (mem r) = DEFAULT_SHM_CAP"
proof -
  from reachable_inv [OF assms(1)] assms(2) have "ring_inv (Some r)"
    by (simp add: conn_inv_def session_inv_def)
  then have wf: "ring_wf r" "cap r = DEFAULT_SHM_CAP" by (simp_all add: ring_inv_def)
  then have "cap r dvd 2 ^ 64" by (simp add: DEFAULT_SHM_CAP_def)
  from try_write_in_bounds [OF wf(1) this assms(3)] wf show ?thesis by (simp add: ring_wf_def)
qed

theorem daemon_ring_writes_in_bounds_witness:
  "let (c, sh) = after_first sample_ext sample_env (frame_new ShmSetup 0 []) (shared_new None registry_new) in
   \<exists>r. shm (ses c) = Some r \<and> fst (try_write r [1, 2]) = Some 0 \<and> 2 \<le> length (mem r) \<and> length (mem r) = DEFAULT_SHM_CAP"
proof -
  let ?r = "\<lparr>cap = DEFAULT_SHM_CAP, head = 0, tail = 0, mem = replicate DEFAULT_SHM_CAP 0\<rparr>"
  obtain c sh where a: "after_first sample_ext sample_env (frame_new ShmSetup 0 []) (shared_new None registry_new) = (c, sh)"
    by fastforce
  with anonymous_shm_session have c: "reachable sample_ext None registry_new (c, sh)" "shm (ses c) = Some ?r" by simp_all
  have "fst (try_write ?r [1, 2]) = Some 0"
    by (simp add: try_write_def Let_def DEFAULT_SHM_CAP_def)
  then have w: "try_write ?r [1, 2] = (Some 0, snd (try_write ?r [1, 2]))" by (simp add: prod_eq_iff)
  have "unat (0 :: u64) mod cap ?r + length [1, 2 :: u8] \<le> length (mem ?r) \<and> length (mem ?r) = DEFAULT_SHM_CAP"
    by (rule daemon_ring_writes_in_bounds [OF c w])
  with a c(2) w show ?thesis by (auto simp: prod_eq_iff)
qed

text \<open>The daemon never resolves a cache reference: its side of a session keeps no results, so a
  request sent as a reference cannot be unwrapped, in any reachable state.\<close>

lemma daemon_refuses_cache_refs:
  assumes "reachable x token reg (c, sh)" "cache_ref (flags (header f))"
  shows "\<exists>m. fst (unwrap x now f (pipe (ses c))) = Inl m"
proof -
  have "entries (p_cache (pipe (ses c))) = []"
    using reachable_inv [OF assms(1)] by (simp add: conn_inv_def session_inv_def server_pipe_def)
  then have "\<exists>c'. cache_get now k (p_cache (pipe (ses c))) = (None, c')" for k
    by (simp add: cache_get_def)
  with assms(2) show ?thesis
    unfolding unwrap_def by (auto split: sum.split option.split prod.split) (metis option.distinct(1) prod.inject)
qed

end
