(* ===== verification/Daemon_Answers.thy ===== *)
theory Daemon_Answers
  imports Daemon_Correct
begin

unbundle bit_operations_syntax

text \<open>What a request is answered with: the frames its handling puts on the connection, in order.\<close>

section \<open>The frames put on a connection\<close>

text \<open>Everything put out so far, flushed or not, apart from the bytes that carry descriptors.\<close>

definition sock_bytes :: "sock_item list \<Rightarrow> bytes" where
  "sock_bytes is = concat (map (\<lambda>i. case i of Data b \<Rightarrow> b | Fd _ \<Rightarrow> []) is)"

definition data_out :: "session \<Rightarrow> bytes" where
  "data_out s = sock_bytes (sent s) @ wbuf (wr s)"

text \<open>Frames of the types \<open>ts\<close>, all for request \<open>i\<close>, have been put out between two states.\<close>

definition queued :: "u64 \<Rightarrow> msg_type list \<Rightarrow> session \<Rightarrow> session \<Rightarrow> bool" where
  "queued i ts s s' \<longleftrightarrow> (\<exists>fs. data_out s' = data_out s @ concat (map wire fs)
     \<and> map (\<lambda>g. msg_type (header g)) fs = ts \<and> (\<forall>g \<in> set fs. request_id (header g) = i))"

lemma sock_bytes_append [simp]: "sock_bytes (is @ js) = sock_bytes is @ sock_bytes js"
  by (simp add: sock_bytes_def)

lemma data_out_cong: "wr s' = wr s \<Longrightarrow> sent s' = sent s \<Longrightarrow> data_out s' = data_out s"
  by (simp add: data_out_def)

lemma data_out_emit [simp]: "data_out (emit f s) = data_out s @ wire f"
  by (simp add: data_out_def)

lemma data_out_update [simp]:
  "data_out (s\<lparr>pipe := p\<rparr>) = data_out s" "data_out (s\<lparr>authenticated := a\<rparr>) = data_out s"
  "data_out (s\<lparr>agent_id := g\<rparr>) = data_out s" "data_out (s\<lparr>delivered := d\<rparr>) = data_out s"
  "data_out (s\<lparr>shm := r\<rparr>) = data_out s" "data_out (s\<lparr>shm_up := r\<rparr>) = data_out s"
  "data_out (s\<lparr>cancelled := c\<rparr>) = data_out s" "data_out (s\<lparr>subscribed := u\<rparr>) = data_out s"
  by (simp_all add: data_out_def)

lemma queued_none: "data_out s' = data_out s \<Longrightarrow> queued i [] s s'"
  by (simp add: queued_def)

lemma queued_one:
  "data_out s' = data_out s @ wire g \<Longrightarrow> msg_type (header g) = t \<Longrightarrow> request_id (header g) = i
    \<Longrightarrow> queued i [t] s s'"
  unfolding queued_def by (intro exI [of _ "[g]"]) simp

lemma queued_trans: "queued i ts s s1 \<Longrightarrow> queued i us s1 s2 \<Longrightarrow> queued i (ts @ us) s s2"
  unfolding queued_def by (elim exE conjE, rule_tac x = "fs @ fsa" in exI) auto

lemma queued_from: "data_out s1 = data_out s \<Longrightarrow> queued i ts s1 s2 \<Longrightarrow> queued i ts s s2"
  by (simp add: queued_def)

lemma queued_to: "queued i ts s s1 \<Longrightarrow> data_out s2 = data_out s1 \<Longrightarrow> queued i ts s s2"
  by (simp add: queued_def)

lemma queued_reply: "queued i [t] s (reply x t i b s)"
proof -
  obtain f fl p where w: "wrap x t i b (pipe s) = ((f, fl), p)" by (metis prod.exhaust)
  from w wrap_header(1,2) [OF w] show ?thesis
    by (intro queued_one [of _ _ f]) (simp_all add: reply_def)
qed

lemma queued_reply_error: "queued i [Error] s (reply_error x i c m s)"
  by (simp add: reply_error_def queued_reply)

lemma queued_deliver: "queued i [CallToolResult] s (deliver x i b m s)"
proof -
  obtain f s1 where w: "wrap_maybe_shm x i b s = (f, s1)" by fastforce
  obtain g fl p where wr: "wrap x CallToolResult i b (pipe s) = ((g, fl), p)" by (metis prod.exhaust)
  have f: "msg_type (header f) = CallToolResult" "request_id (header f) = i" "data_out s1 = data_out s"
    using w wrap_header(1,2) [OF wr]
    by (auto simp: wrap_maybe_shm_def wr Let_def frame_new_def split: option.splits if_splits prod.splits)
  have "deliver x i b m s = emit (if m then mark_cacheable f else f) s1"
    by (simp add: deliver_def w)
  with f show ?thesis
    by (intro queued_one [of _ _ "if m then mark_cacheable f else f"]) (simp_all add: mark_cacheable_def)
qed

section \<open>What each request is answered with\<close>

text \<open>The message types of the answers a request may get, in order, in or outside a session.\<close>

fun answers :: "bool \<Rightarrow> msg_type \<Rightarrow> msg_type list set" where
  "answers auth Auth = {[AuthResult]}"
| "answers auth t =
     (if \<not> auth then {[Error]} else
      (case t of
         ShmSetup \<Rightarrow> {[ShmSetupResult]}
       | Initialize \<Rightarrow> {[InitializeResult]}
       | ListTools \<Rightarrow> {[ListToolsResult]}
       | ListResources \<Rightarrow> {[ListResourcesResult]}
       | ReadResource \<Rightarrow> {[ReadResourceResult], [Error]}
       | ListPrompts \<Rightarrow> {[ListPromptsResult]}
       | GetPrompt \<Rightarrow> {[GetPromptResult], [Error]}
       | Ping \<Rightarrow> {[Pong]}
       | SubscribeResource \<Rightarrow> {[SubscribeResourceResult], [Error]}
       | UnsubscribeResource \<Rightarrow> {[SubscribeResourceResult]}
       | CallTool \<Rightarrow> {[CallToolResult], [Error], [Progress, CallToolResult], [Progress, Error]}
       | _ \<Rightarrow> {[]}))"

definition answered :: "u64 \<Rightarrow> msg_type list set \<Rightarrow> session \<Rightarrow> flow \<times> session \<times> shared \<Rightarrow> bool" where
  "answered i A s r \<longleftrightarrow> (case r of (fl, s', sh') \<Rightarrow> fl = Continue \<longrightarrow> (\<exists>ts \<in> A. queued i ts s s'))"

lemma answered_reply: "[t] \<in> A \<Longrightarrow> answered i A s (Continue, reply x t i b s, sh)"
  by (simp add: answered_def) (erule bexI [rotated], rule queued_reply)

lemma answered_reply_error: "[Error] \<in> A \<Longrightarrow> answered i A s (Continue, reply_error x i c m s, sh)"
  by (simp add: answered_def) (erule bexI [rotated], rule queued_reply_error)

lemma answered_from: "data_out s1 = data_out s \<Longrightarrow> answered i A s1 r \<Longrightarrow> answered i A s r"
  by (simp add: answered_def queued_def split: prod.splits)

lemma unwrap_body_out: "unwrap_body x e f s = (r, s') \<Longrightarrow> data_out s' = data_out s"
  by (auto simp: unwrap_body_def split: prod.splits)

lemma with_params_answered:
  assumes "\<And>a s'. answered i A s' (k a s')"
  shows "answered i A s (with_params x e de f s sh k)"
proof -
  obtain r s' where u: "unwrap_body x e f s = (r, s')" by fastforce
  have "answered i A s (k a s')" for a
    by (rule answered_from [OF unwrap_body_out [OF u] assms])
  moreover have "answered i A s (Failed m, s', sh)" for m by (simp add: answered_def)
  ultimately show ?thesis by (simp add: with_params_def u split: sum.split)
qed

lemma on_auth_answered:
  "answered (request_id (header f)) {[AuthResult]} s (on_auth x e f s sh)"
proof -
  have "answered i {[AuthResult]} s (auth_answer x e i params ok peer s sh)" for i params ok peer
  proof (cases ok)
    case True
    have "queued i [AuthResult] s ((emit (frame_new AuthResult i b) s)\<lparr>authenticated := True, agent_id := g, pipe := p\<rparr>)"
      for b g p
      by (rule queued_one [of _ _ "frame_new AuthResult i b"]) (simp_all add: frame_new_def)
    with True show ?thesis by (simp add: auth_answer_def Let_def answered_def)
  next
    case False
    then show ?thesis by (simp add: auth_answer_def Let_def answered_def)
  qed
  moreover have "answered i A s (Failed m, s, sh)" "answered i A s (Panicking, s, sh)" for i A m
    by (simp_all add: answered_def)
  ultimately show ?thesis
    by (simp add: on_auth_def split: sum.split ret.split)
qed

lemma flush_session_out: "flush_session out s = (Inr u, s') \<Longrightarrow> data_out s' = data_out s"
  by (auto simp: flush_session_def flush_def data_out_def sock_bytes_def split: if_splits write_outcome.splits)

lemma exchange_fds_out: "exchange_fds e d u = (r, out) \<Longrightarrow> sock_bytes out = []"
  by (auto simp: exchange_fds_def sock_bytes_def split: option.splits poll.splits sum.splits)

lemma on_shm_setup_answered:
  "answered (request_id (header f)) {[ShmSetupResult]} s (on_shm_setup x e f s sh)"
proof -
  let ?i = "request_id (header f)" and ?down = "ring_of (ring_create DEFAULT_SHM_CAP (e_ring e))"
    and ?up = "ring_of (ring_create DEFAULT_SHM_CAP (e_ring_up e))"
  obtain r s1 where fl: "flush_session (e_flush e) s = (r, s1)" by fastforce
  obtain p out where x: "exchange_fds e ?down ?up = (p, out)" by fastforce
  have "queued ?i [ShmSetupResult] s (reply x ShmSetupResult ?i b (s1\<lparr>sent := sent s1 @ out\<rparr>))"
    if "r = Inr u" for b u
  proof (rule queued_from [OF _ queued_reply])
    show "data_out (s1\<lparr>sent := sent s1 @ out\<rparr>) = data_out s"
      using flush_session_out fl that exchange_fds_out [OF x] by (simp add: data_out_def)
  qed
  note q = this queued_to [OF this]
  show ?thesis
    using fl x q by (auto simp: on_shm_setup_def answered_def Let_def split: sum.split poll.split)
qed

lemma on_cancel_answered: "answered i {[]} s (on_cancel x e f s sh)"
proof -
  obtain r s' where u: "unwrap_body x e f s = (r, s')" by fastforce
  from unwrap_body_out [OF u] queued_none show ?thesis
    by (auto simp: on_cancel_def u answered_def split: sum.split)
qed

lemma call_execute_answered:
  "call_execute x e i params key s sh = (s', sh') \<Longrightarrow> \<exists>ts \<in> {[CallToolResult], [Error]}. queued i ts s s'"
  using queued_deliver [of i s] queued_reply_error [of i s]
    queued_from [OF _ queued_deliver, of "s\<lparr>delivered := d\<rparr>" s i for d]
  by (auto simp: call_execute_def Let_def split: option.splits)

lemma call_authorized_answered:
  assumes "call_authorized x e i params s sh = (s', sh')"
  shows "\<exists>ts \<in> {[CallToolResult], [Error]}. queued i ts s s'"
proof (cases "call_key x (registry sh) params")
  case None
  with assms call_execute_answered show ?thesis by (simp add: call_authorized_def)
next
  case (Some key)
  obtain so sh1 where c: "call_cached x e i key s sh = (so, sh1)" by fastforce
  show ?thesis
  proof (cases so)
    case None
    with Some c assms call_execute_answered show ?thesis by (simp add: call_authorized_def)
  next
    case (Some s1)
    obtain f p where w: "wrap_cache_ref x CallToolResult i key (pipe s) = (f, p)" by fastforce
    then have "msg_type (header f) = CallToolResult \<and> request_id (header f) = i"
      by (auto simp: wrap_cache_ref_def split: option.splits prod.splits)
    then have "queued i [CallToolResult] s (emit f (s\<lparr>pipe := p\<rparr>))"
      by (intro queued_one [of _ _ f]) simp_all
    moreover have "queued i [CallToolResult] s (deliver x i b True (s\<lparr>delivered := d\<rparr>))" for b d
      by (rule queued_from [OF _ queued_deliver]) simp
    ultimately have "queued i [CallToolResult] s s1"
      using c Some w by (auto simp: call_cached_def split: prod.splits option.splits)
    with assms \<open>call_key x (registry sh) params = Some key\<close> c Some show ?thesis
      by (simp add: call_authorized_def)
  qed
qed

lemma call_with_answered:
  "answered i (answers True CallTool) s (Continue, call_with x e i params s sh)"
proof -
  define s1 where "s1 = (if wants_progress params
      then reply x Progress i (to_vec x (se_progress_params (progress_body i (ct_name params)))) s else s)"
  define ps where "ps = (if wants_progress params then [Progress] else [])"
  have "queued i ps s s1"
    by (simp add: s1_def ps_def queued_reply queued_none)
  note tr = queued_trans [OF this]
  obtain s2 sh2 where c: "call_authorized x e i params s1 sh = (s2, sh2)" by fastforce
  from call_authorized_answered [OF c] tr have "queued i (ps @ [CallToolResult]) s s2 \<or> queued i (ps @ [Error]) s s2"
    by auto
  moreover have "queued i (ps @ [Error]) s (reply_error x i d m s1)" for d m
    by (rule tr [OF queued_reply_error])
  moreover have "ps @ [Error] \<in> answers True CallTool" "ps @ [CallToolResult] \<in> answers True CallTool"
    by (simp_all add: ps_def)
  ultimately show ?thesis
    by (auto simp: call_with_def s1_def [symmetric] c answered_def simp del: answers.simps)
qed

lemma on_call_tool_answered:
  "answered (request_id (header f)) (answers True CallTool) s (on_call_tool x e f s sh)"
proof (cases "request_id (header f) \<in> cancelled s")
  case True
  have "answered i (answers True CallTool) s (Continue, reply_error x i c m (s\<lparr>cancelled := d\<rparr>), sh)" for i c m d
    by (rule answered_from [OF _ answered_reply_error]) simp_all
  with True show ?thesis by (simp add: on_call_tool_def)
next
  case False
  then show ?thesis
    unfolding on_call_tool_def by (simp only: if_False) (rule with_params_answered, rule call_with_answered)
qed

lemma on_subscribe_answered:
  "msg_type (header f) \<in> {SubscribeResource, UnsubscribeResource} \<Longrightarrow>
    answered (request_id (header f)) (answers True (msg_type (header f))) s (on_subscribe x e f s sh)"
  unfolding on_subscribe_def Let_def
  by (rule with_params_answered)
    (auto intro!: answered_reply_error answered_from [OF _ answered_reply])

lemma dispatch_answered:
  "answered (request_id (header f)) (answers (authenticated s) (msg_type (header f))) s (dispatch x e f s sh)"
proof -
  consider "msg_type (header f) = Auth" | "msg_type (header f) \<noteq> Auth" "\<not> authenticated s"
    | "msg_type (header f) \<noteq> Auth" "authenticated s" by blast
  then show ?thesis
  proof cases
    case 1
    then show ?thesis by (simp add: dispatch_def on_auth_answered)
  next
    case 2
    then have "answers (authenticated s) (msg_type (header f)) = {[Error]}"
      by (cases "msg_type (header f)") simp_all
    with 2 show ?thesis by (simp add: dispatch_def answered_reply_error)
  next
    case 3
    have "answered (request_id (header f)) {[ReadResourceResult], [Error]} s (on_read_resource x e f s sh)"
      "answered (request_id (header f)) {[GetPromptResult], [Error]} s (on_get_prompt x e f s sh)"
      unfolding on_read_resource_def on_get_prompt_def
      by (rule with_params_answered, simp add: answered_reply answered_reply_error split: option.split)+
    moreover have "answered (request_id (header f)) {[]} s (Continue, s, sh)"
      by (simp add: answered_def queued_none)
    ultimately show ?thesis
      using 3 on_shm_setup_answered [of f s x e sh] on_subscribe_answered [of f s x e sh]
        on_cancel_answered [of "request_id (header f)" s x e f sh] on_call_tool_answered [of f s x e sh]
      by (cases "msg_type (header f)")
        (simp_all add: dispatch_def answered_reply on_initialize_def on_list_tools_def
          on_list_resources_def on_list_prompts_def on_ping_def)
  qed
qed

lemma handle_frame_answered:
  "answered (request_id (header f)) (answers (authenticated s) (msg_type (header f))) s (handle_frame x e f s sh)"
proof -
  obtain r s' where u: "resolve_uplink f s = (r, s')" by fastforce
  from resolve_uplink_inv(2) [OF u] have s': "data_out s' = data_out s" "authenticated s' = authenticated s"
    by auto
  show ?thesis
  proof (cases r)
    case (Inl m)
    then show ?thesis by (simp add: handle_frame_def u answered_def)
  next
    case (Inr f')
    then have "msg_type (header f') = msg_type (header f)" "request_id (header f') = request_id (header f)"
      using u by (auto simp: resolve_uplink_def split: if_splits option.splits prod.splits)
    with dispatch_answered [of f' s' x e sh] s' Inr show ?thesis
      by (auto simp: handle_frame_def u intro: answered_from)
  qed
qed

section \<open>Properties\<close>

text \<open>C3. Every request is answered exactly once: when the handling of a frame ends with the session going
  on, the frames it put on the connection all carry the request's id and are, in order, one of the
  answers its type allows: one result or one error, preceded by a progress notice only for a tool
  call; nothing for a cancellation or a message that is not a request; one error for anything but
  authentication outside a session.\<close>

theorem requests_answered_once:
  assumes "handle_frame x e f s sh = (Continue, s', sh')"
  shows "\<exists>fs. data_out s' = data_out s @ concat (map wire fs)
    \<and> (\<forall>g \<in> set fs. request_id (header g) = request_id (header f))
    \<and> map (\<lambda>g. msg_type (header g)) fs \<in> answers (authenticated s) (msg_type (header f))"
  using handle_frame_answered [of f s x e sh] assms by (auto simp: answered_def queued_def)

theorem requests_answered_once_witness:
  "let s = session_new (shared_new None registry_new) in
   \<exists>s' fs. handle_frame sample_ext sample_env (frame_new Ping 4 []) s (shared_new None registry_new)
       = (Continue, s', shared_new None registry_new)
     \<and> data_out s' = concat (map wire fs) \<and> map (\<lambda>g. msg_type (header g)) fs = [Pong]"
proof -
  let ?s = "session_new (shared_new None registry_new)"
  let ?s' = "reply sample_ext Pong 4 (as_bytes ''{}'') ?s"
  have h: "handle_frame sample_ext sample_env (frame_new Ping 4 []) ?s (shared_new None registry_new)
      = (Continue, ?s', shared_new None registry_new)"
    by (simp add: handle_frame_def resolve_uplink_def frame_new_def flag_bits FLAG_NONE_def dispatch_def on_ping_def
        session_new_def shared_new_def)
  have "data_out ?s = []" by (simp add: data_out_def session_new_def writer_new_def sock_bytes_def)
  moreover have "authenticated ?s" by (simp add: session_new_def shared_new_def)
  ultimately show ?thesis
    using requests_answered_once [OF h] h by (auto simp: frame_new_def)
qed

end
