(* ===== verification/Daemon_Behaviour.thy ===== *)
theory Daemon_Behaviour
  imports Daemon_Answers
begin

unbundle bit_operations_syntax

text \<open>
  What the daemon does for its clients: refusal before authentication, results of tool calls, the
  result cache and its references, cancellation, subscriptions, and the end of a batch.
\<close>

section \<open>Before authentication\<close>

text \<open>The answer to anything an unauthenticated client asks.\<close>

definition refusal :: "ext \<Rightarrow> u64 \<Rightarrow> frame" where
  "refusal x i = fst (fst (wrap x Error i
     (to_vec x (se_error_body \<lparr>err_code = -32001, err_message = ''authentication required'', err_data = None\<rparr>))
     pipeline_new))"

lemma wrap_cipher_only:
  assumes "p_cipher p = p_cipher q"
  shows "fst (wrap x t i b p) = fst (wrap x t i b q)"
  using assms by (cases "p_cipher q") (simp_all add: wrap_def Let_def split: prod.splits)

lemma reply_refusal:
  assumes "p_cipher (pipe s) = None"
  shows "data_out (reply_error x i (-32001) ''authentication required'' s) = data_out s @ wire (refusal x i)"
    "p_cipher (pipe (reply_error x i (-32001) ''authentication required'' s)) = None"
proof -
  let ?b = "to_vec x (se_error_body \<lparr>err_code = -32001, err_message = ''authentication required'', err_data = None\<rparr>)"
  obtain f fl p where w: "wrap x Error i ?b (pipe s) = ((f, fl), p)" by (metis prod.exhaust)
  have "p_cipher pipeline_new = None" by (simp add: pipeline_new_def)
  then have "fst (wrap x Error i ?b pipeline_new) = (f, fl)"
    using wrap_cipher_only [of pipeline_new "pipe s" x Error i ?b] assms w by simp
  then have "refusal x i = f" by (simp only: refusal_def fst_conv)
  then show "data_out (reply_error x i (-32001) ''authentication required'' s) = data_out s @ wire (refusal x i)"
    by (simp add: reply_error_def reply_def w)
  show "p_cipher (pipe (reply_error x i (-32001) ''authentication required'' s)) = None"
    using wrap_header(6) [OF w] assms by (simp add: reply_error_def reply_def w same_key_def)
qed

text \<open>A live connection that has not authenticated has put out nothing but refusals.\<close>

definition silent :: "ext \<Rightarrow> conn \<times> shared \<Rightarrow> bool" where
  "silent x cs \<longleftrightarrow> (phase (fst cs) \<in> {Serving, Waiting} \<and> \<not> authenticated (ses (fst cs)) \<longrightarrow>
     p_cipher (pipe (ses (fst cs))) = None
     \<and> (\<exists>ids. data_out (ses (fst cs)) = concat (map (\<lambda>i. wire (refusal x i)) ids)))"

text \<open>A session that has authenticated stays so.\<close>

lemma deliver_authenticated [simp]: "authenticated (deliver x i b m s) = authenticated s"
  by (auto simp: deliver_def wrap_maybe_shm_def Let_def split: prod.split option.split)

lemma unwrap_body_authenticated: "unwrap_body x e f s = (r, s') \<Longrightarrow> authenticated s' = authenticated s"
  by (auto simp: unwrap_body_def split: prod.splits)

lemma with_params_authenticated:
  assumes "\<And>a s'. authenticated s' \<Longrightarrow> authenticated (fst (snd (k a s')))" "authenticated s"
  shows "authenticated (fst (snd (with_params x e de f s sh k)))"
proof -
  obtain r s' where u: "unwrap_body x e f s = (r, s')" by fastforce
  with assms(2) have "authenticated s'" by (simp add: unwrap_body_authenticated)
  with assms(1) show ?thesis by (simp add: with_params_def u split: sum.split)
qed

lemma call_with_authenticated: "authenticated s \<Longrightarrow> authenticated (fst (call_with x e i params s sh))"
  by (auto simp: call_with_def call_authorized_def call_cached_def call_execute_def Let_def
      split: option.split prod.split)

lemma dispatch_authenticated:
  assumes "authenticated s"
  shows "authenticated (fst (snd (dispatch x e f s sh)))"
proof -
  have "authenticated (fst (snd (on_auth x e f s sh)))"
    using assms by (auto simp: on_auth_def auth_answer_def Let_def split: sum.split ret.split)
  moreover have "authenticated (fst (snd (on_shm_setup x e f s sh)))"
    using assms by (auto simp: on_shm_setup_def flush_session_def Let_def split: sum.split prod.split poll.split)
  moreover have "authenticated (fst (snd (on_cancel x e f s sh)))"
    using assms unwrap_body_authenticated by (auto simp: on_cancel_def split: prod.split sum.split)
  moreover have "authenticated (fst (snd (on_read_resource x e f s sh)))"
    "authenticated (fst (snd (on_get_prompt x e f s sh)))"
    "authenticated (fst (snd (on_subscribe x e f s sh)))"
    unfolding on_read_resource_def on_get_prompt_def on_subscribe_def Let_def
    by (rule with_params_authenticated [OF _ assms], simp split: option.split)+
  moreover have "authenticated (fst (snd (on_call_tool x e f s sh)))"
    unfolding on_call_tool_def
    by (auto simp: assms call_with_authenticated intro!: with_params_authenticated [OF _ assms])
  ultimately show ?thesis
    using assms by (cases "msg_type (header f)")
      (simp_all add: dispatch_def on_initialize_def on_list_tools_def on_list_resources_def on_list_prompts_def
        on_ping_def)
qed

lemma resolve_uplink_keeps_rest:
  assumes "resolve_uplink f s = (r, s')"
  shows "authenticated s' = authenticated s" "pipe s' = pipe s" "data_out s' = data_out s"
    "cancelled s' = cancelled s" "r = Inr f' \<Longrightarrow> msg_type (header f') = msg_type (header f)"
    "r = Inr f' \<Longrightarrow> request_id (header f') = request_id (header f)"
  using resolve_uplink_inv(2) [OF assms] assms
  by (auto simp: resolve_uplink_def split: if_splits option.splits prod.splits)

lemma handle_frame_silent:
  assumes h: "handle_frame x e f s sh = (Continue, s', sh')" and a: "\<not> authenticated s'"
    and c: "p_cipher (pipe s) = None" and d: "data_out s = concat (map (\<lambda>i. wire (refusal x i)) ids)"
  shows "p_cipher (pipe s') = None \<and> (\<exists>ids. data_out s' = concat (map (\<lambda>i. wire (refusal x i)) ids))"
proof -
  obtain r s1 where u: "resolve_uplink f s = (r, s1)" by fastforce
  from h u obtain g where r: "r = Inr g" and dp: "dispatch x e g s1 sh = (Continue, s', sh')"
    by (cases r) (auto simp: handle_frame_def)
  from dispatch_authenticated [of s1 x e g sh] dp a have "\<not> authenticated s1" by auto
  moreover have "msg_type (header g) \<noteq> Auth"
    using dp a by (auto simp: dispatch_def on_auth_def auth_answer_def Let_def split: sum.splits ret.splits if_splits)
  ultimately have "s' = reply_error x (request_id (header g)) (-32001) ''authentication required'' s1"
    using dp by (simp add: dispatch_def)
  with reply_refusal [of s1 x "request_id (header g)"] resolve_uplink_keeps_rest(2,3) [OF u] c d
  show ?thesis by (auto intro: exI [of _ "ids @ [request_id (header g)]"])
qed

lemma handle_frame_authenticated:
  assumes "authenticated s"
  shows "authenticated (fst (snd (handle_frame x e f s sh)))"
proof -
  obtain r s1 where u: "resolve_uplink f s = (r, s1)" by fastforce
  then have "authenticated s1" using resolve_uplink_keeps_rest(1) assms by blast
  with u dispatch_authenticated show ?thesis by (simp add: handle_frame_def split: sum.split)
qed

lemma run_frame_silent:
  assumes "silent x (c, sh)" "phase c \<in> {Serving, Waiting}" "run_frame x e f c sh = (c', sh')"
  shows "silent x (c', sh')"
proof -
  obtain fl s' sh1 where h: "handle_frame x e f (ses c) sh = (fl, s', sh1)" by (metis prod_cases3)
  with assms(3) have c': "ses c' = s'" "phase c' = (if fl = Continue then Serving else Ended fl)"
    by (auto simp: run_frame_def)
  have "p_cipher (pipe s') = None \<and> (\<exists>ids. data_out s' = concat (map (\<lambda>i. wire (refusal x i)) ids))"
    if "fl = Continue" "\<not> authenticated s'"
  proof -
    have "\<not> authenticated (ses c)"
      using handle_frame_authenticated [of "ses c" x e f sh] h that by auto
    with assms(1,2) obtain ids where "p_cipher (pipe (ses c)) = None"
      "data_out (ses c) = concat (map (\<lambda>i. wire (refusal x i)) ids)"
      by (auto simp: silent_def)
    with h that show ?thesis by (intro handle_frame_silent) auto
  qed
  with c' show ?thesis by (simp add: silent_def)
qed

lemma flush_session_same:
  "flush_session out s = (Inr u, s') \<Longrightarrow> data_out s' = data_out s \<and> pipe s' = pipe s \<and> authenticated s' = authenticated s"
  using flush_session_out [of out s u s'] by (auto simp: flush_session_def split: prod.splits)

lemma serve_step_silent:
  assumes "silent x (c, sh)" "phase c = Serving" "serve_step x e c sh = (c', sh')"
  shows "silent x (c', sh')"
proof -
  obtain res r where n: "next_buffered (rd c) = (res, r)" by fastforce
  obtain fr s where fl: "flush_session (e_flush e) (ses c) = (fr, s)" by fastforce
  have "silent x (c\<lparr>rd := r\<rparr>, sh)" "phase (c\<lparr>rd := r\<rparr>) \<in> {Serving, Waiting}"
    using assms(1,2) by (simp_all add: silent_def)
  note run = run_frame_silent [OF this]
  show ?thesis
  proof (cases res)
    case (Inl err)
    with assms(3) n show ?thesis by (auto simp: serve_step_def silent_def)
  next
    case (Inr fo)
    show ?thesis
    proof (cases fo)
      case None
      with assms n Inr fl flush_session_same [of "e_flush e" "ses c"] show ?thesis
        by (cases fr) (auto simp: serve_step_def silent_def)
    next
      case (Some f)
      with assms(3) n Inr run show ?thesis by (simp add: serve_step_def)
    qed
  qed
qed

lemma wait_step_silent:
  assumes "silent x (c, sh)" "phase c = Waiting" "wait_step x e ev c sh = (c', sh')"
    and inv: "session_inv sh (ses c)"
  shows "silent x (c', sh')"
proof (cases ev)
  case Shutdown
  with assms show ?thesis by (auto simp: wait_step_def finish_def silent_def)
next
  case (Socket io)
  obtain res r evs where n: "next_frame (rd c) [io] = (res, r, evs)" by (metis prod_cases3)
  have rd: "silent x (c\<lparr>rd := r\<rparr>, sh)" "phase (c\<lparr>rd := r\<rparr>) \<in> {Serving, Waiting}"
    using assms(1,2) by (simp_all add: silent_def)
  note run = run_frame_silent [OF this]
  from assms(3) Socket n run rd(1) show ?thesis
    by (auto simp: wait_step_def finish_def silent_def split: poll.splits sum.splits option.splits)
next
  case (Notice rv)
  show ?thesis
  proof (cases "authenticated (ses c)")
    case True
    have "authenticated (ses c')" if "phase c' \<in> {Serving, Waiting}"
      using assms(3) Notice True that flush_session_same
      by (fastforce simp: wait_step_def event_frame_def split: option.splits resource_event.splits
          if_splits prod.splits sum.splits)
    then show ?thesis by (auto simp: silent_def)
  next
    case False
    with inv have "subscribed (ses c) = {}" by (simp add: session_inv_def)
    with False have "event_frame x rv (ses c) = (None, ses c)"
      by (auto simp: event_frame_def split: option.split resource_event.split)
    with assms(1,3) Notice show ?thesis by (auto simp: wait_step_def)
  qed
qed

lemma conn_step_silent: "conn_step x cs cs' \<Longrightarrow> conn_inv token cs \<Longrightarrow> silent x cs \<Longrightarrow> silent x cs'"
proof (induction rule: conn_step.induct)
  case (Serve c e sh c' sh')
  then show ?case by (blast intro: serve_step_silent)
next
  case (Wait c e ev sh c' sh')
  then show ?case by (auto simp: conn_inv_def intro: wait_step_silent)
next
  case (Others sh sh' c)
  then show ?case by (simp add: silent_def)
next
  case (Peer c s sh)
  then show ?case by (auto simp: silent_def peer_writes_def)
qed

lemma reachable_silent: "reachable x token reg cs \<Longrightarrow> silent x cs"
proof (induction rule: reachable.induct)
  case (Start sh)
  have "data_out (session_new sh) = concat (map (\<lambda>i. wire (refusal x i)) [])"
    by (simp add: data_out_def session_new_def writer_new_def sock_bytes_def)
  then have "\<exists>ids. data_out (session_new sh) = concat (map (\<lambda>i. wire (refusal x i)) ids)" by blast
  then show ?case by (simp add: silent_def conn_new_def) (simp add: session_new_def pipeline_new_def)
next
  case (Step cs cs')
  then show ?case using reachable_inv conn_step_silent by blast
qed

section \<open>The end of a session\<close>

text \<open>Nothing more goes out once the task has ended.\<close>

lemma ended_step:
  assumes "conn_step x (c, sh) (c', sh')" "phase c = Ended fl"
  shows "phase c' = Ended fl \<and> sent (ses c') = sent (ses c)"
  using assms by (elim conn_stepE) (auto simp: peer_writes_def)

lemma ended_steps:
  "rtranclp (conn_step x) cs cs' \<Longrightarrow> phase (fst cs) = Ended fl \<Longrightarrow>
    phase (fst cs') = Ended fl \<and> sent (ses (fst cs')) = sent (ses (fst cs))"
proof (induction rule: rtranclp_induct)
  case (step cs1 cs2)
  then show ?case using ended_step by (metis prod.collapse)
qed simp

section \<open>Batches\<close>

text \<open>The loop over buffered frames: one environment per round, until nothing is left to serve.\<close>

fun serve_run :: "ext \<Rightarrow> env list \<Rightarrow> conn \<times> shared \<Rightarrow> conn \<times> shared" where
  "serve_run x [] cs = cs"
| "serve_run x (e # es) cs = (if phase (fst cs) = Serving then serve_run x es (serve_step x e (fst cs) (snd cs)) else cs)"

lemma serve_step_consumes:
  assumes "serve_step x e c sh = (c', sh')" "phase c' = Serving"
  shows "length (rbuf (rd c')) + HEADER_LEN \<le> length (rbuf (rd c))"
proof -
  obtain res b where d: "decode (rbuf (rd c)) = (res, b)" by fastforce
  from assms obtain f where r: "res = Inr (Some f)"
    by (auto simp: serve_step_def next_buffered_def d split: sum.splits option.splits prod.splits)
  from decode_Some(1) d r have "rbuf (rd c) = wire f @ b" by blast
  moreover have "rbuf (rd c') = b"
    using assms(1) r d by (auto simp: serve_step_def next_buffered_def run_frame_def split: prod.splits)
  ultimately show ?thesis by (simp add: length_wire)
qed

section \<open>Cacheable calls\<close>

text \<open>A call a client wrapped, up to the access check.\<close>

definition call_ready :: "ext \<Rightarrow> u64 \<Rightarrow> bytes \<Rightarrow> call_tool_params \<Rightarrow> pipeline \<Rightarrow> session \<Rightarrow> shared \<Rightarrow> bool" where
  "call_ready x i body params q s sh \<longleftrightarrow>
     pipeline_wf q \<and> pipeline_wf (pipe s) \<and> same_key q (pipe s)
     \<and> parse x de_call_tool_params body = Inr params \<and> authenticated s \<and> i \<notin> cancelled s \<and> shm s = None
     \<and> \<not> wants_progress params \<and> acl_check (acl sh) (agent_id s) (ct_name params) = Inr ()"

lemma call_ready_handled:
  assumes "lz4_ok x" "aead_ok x" "call_ready x i body params q s sh" "wrap x CallTool i body q = ((f, fl), q')"
  shows "handle_frame x e f s sh = (Continue, call_authorized x e i params s sh)"
proof -
  note w = wrap_header [OF assms(4)]
  have c: "pipeline_wf q" "same_key q (pipe s)" "parse x de_call_tool_params body = Inr params" "authenticated s"
    "i \<notin> cancelled s" "\<not> wants_progress params" "acl_check (acl sh) (agent_id s) (ct_name params) = Inr ()"
    using assms(3) by (simp_all add: call_ready_def)
  have "unwrap x (t_unwrap e) f (pipe s) = (Inr body, pipe s)"
    by (rule wrap_unwrap [OF assms(1,2) c(1,2) assms(4)])
  then have "unwrap_body x e f s = (Inr body, s)" by (simp add: unwrap_body_def)
  with w c show ?thesis
    by (simp add: handle_frame_def resolve_uplink_def dispatch_def on_call_tool_def with_params_def call_with_def)
qed

text \<open>The session and the frame after a full result went out in a frame.\<close>

lemma deliver_inline:
  assumes "shm s = None"
  shows "deliver x i body m s = (case wrap x CallToolResult i body (pipe s) of
    ((g, gl), p) \<Rightarrow> emit (if m then mark_cacheable g else g) (s\<lparr>pipe := p\<rparr>))"
  using assms by (simp add: deliver_def wrap_maybe_shm_def split: prod.splits)

lemma cacheable_call:
  assumes "lz4_ok x" "aead_ok x" "call_ready x i body params q s sh" "wrap x CallTool i body q = ((f, fl), q')"
    and "call_key x (registry sh) params = Some k"
    and "call (registry sh) (ct_name params) (ct_arguments params) = Some result"
  shows "handle_frame x e f s sh =
    (let c = snd (cache_get (t_get e) k (s_cache sh));
         r = to_vec x (se_call_tool_result result);
         full = (\<lambda>b. deliver x i b True (s\<lparr>delivered := insert k (delivered s)\<rparr>))
     in if \<not> fresh (t_get e) k (s_cache sh) then
          (Continue, full r, sh\<lparr>s_cache := cache_put (map_order e) (t_put e) k r c\<rparr>)
        else if k \<notin> delivered s then
          (Continue, full (the (cache_view (s_cache sh) k)), sh\<lparr>s_cache := c\<rparr>)
        else (case wrap_cache_ref x CallToolResult i k (pipe s) of (g, p) \<Rightarrow>
          (Continue, emit g (s\<lparr>pipe := p\<rparr>), sh\<lparr>s_cache := c\<rparr>)))"
proof (cases "fresh (t_get e) k (s_cache sh)")
  case True
  from cache_get_fresh [OF this] obtain c where
    g: "cache_get (t_get e) k (s_cache sh) = (cache_view (s_cache sh) k, c)" by blast
  from True obtain v where v: "cache_view (s_cache sh) k = Some v" by (auto simp: fresh_def cache_view_def)
  show ?thesis
    using True g v by (simp add: call_ready_handled [OF assms(1-4)] call_authorized_def assms(5) call_cached_def Let_def
        split: prod.split)
next
  case False
  from cache_get_stale [OF this] obtain c where g: "cache_get (t_get e) k (s_cache sh) = (None, c)" by blast
  show ?thesis
    using False g by (simp add: call_ready_handled [OF assms(1-4)] call_authorized_def assms(5,6) call_cached_def
        call_execute_def Let_def)
qed

section \<open>The form of a request\<close>

text \<open>
  After authentication the daemon looks at a request through its type, its id and what it unwraps
  to, and at nothing else.
\<close>

lemma handle_frame_cong:
  assumes "msg_type (header f) = msg_type (header g)" "request_id (header f) = request_id (header g)"
    and "\<not> shm_ref (flags (header f))" "\<not> shm_ref (flags (header g))" "msg_type (header g) \<noteq> Auth"
    and "unwrap x (t_unwrap e) f (pipe s) = unwrap x (t_unwrap e) g (pipe s)"
  shows "handle_frame x e f s sh = handle_frame x e g s sh"
proof -
  have u: "unwrap_body x e f s = unwrap_body x e g s" using assms(6) by (simp add: unwrap_body_def)
  have handlers: "on_shm_setup x e f s sh = on_shm_setup x e g s sh" "on_initialize x f s sh = on_initialize x g s sh"
    "on_list_tools x f s sh = on_list_tools x g s sh" "on_list_resources x f s sh = on_list_resources x g s sh"
    "on_read_resource x e f s sh = on_read_resource x e g s sh" "on_list_prompts x f s sh = on_list_prompts x g s sh"
    "on_get_prompt x e f s sh = on_get_prompt x e g s sh" "on_ping x f s sh = on_ping x g s sh"
    "on_subscribe x e f s sh = on_subscribe x e g s sh" "on_cancel x e f s sh = on_cancel x e g s sh"
    "on_call_tool x e f s sh = on_call_tool x e g s sh"
    by (simp_all only: on_shm_setup_def on_initialize_def on_list_tools_def on_list_resources_def on_read_resource_def
        on_list_prompts_def on_get_prompt_def on_ping_def on_subscribe_def on_cancel_def on_call_tool_def with_params_def
        assms(1,2) u)
  show ?thesis by (simp add: handle_frame_def resolve_uplink_def dispatch_def assms handlers cong: msg_type.case_cong)
qed

lemma unwrap_plain: "unwrap x now (frame_new t i body) p = (Inr body, p)"
  by (simp add: unwrap_def unseal_def frame_new_def flag_bits FLAG_NONE_def maybe_decompress_def)

section \<open>Properties\<close>

text \<open>C5. Until it has authenticated, a client of a daemon with a token gets nothing but refusals: in every
  reachable state of a live connection, all it has been sent, and all that is queued for it, is a
  sequence of \<open>authentication required\<close> errors. No tool result, resource or notification is among
  them.\<close>

theorem unauthenticated_sees_only_refusals:
  assumes "reachable x token reg (c, sh)" "phase c \<in> {Serving, Waiting}" "\<not> authenticated (ses c)"
  shows "\<exists>ids. data_out (ses c) = concat (map (\<lambda>i. wire (refusal x i)) ids)"
  using reachable_silent [OF assms(1)] assms(2,3) by (auto simp: silent_def)

theorem unauthenticated_sees_only_refusals_witness:
  "let (c, sh) = after_first sample_ext sample_env (frame_new CallTool 4 []) (shared_new (Some [1]) registry_new) in
   data_out (ses c) \<noteq> [] \<and> (\<exists>ids. data_out (ses c) = concat (map (\<lambda>i. wire (refusal sample_ext i)) ids))"
proof -
  let ?sh = "shared_new (Some [1]) registry_new" and ?f = "frame_new CallTool 4 []"
  obtain c sh where a: "after_first sample_ext sample_env ?f ?sh = (c, sh)" by fastforce
  have "frame_ok ?f" by (simp add: frame_ok_def frame_new_def MAX_FRAME_LEN_unat)
  with after_first_reachable [OF sample_env_ok] a have r: "reachable sample_ext (Some [1]) registry_new (c, sh)" by metis
  have h: "\<not> shm_ref (flags (header ?f))" "msg_type (header ?f) = CallTool" "request_id (header ?f) = 4"
    by (simp_all add: frame_new_def flag_bits FLAG_NONE_def)
  have u: "\<not> authenticated (session_new ?sh)" "p_cipher (pipe (session_new ?sh)) = None"
    by (simp_all add: session_new_def shared_new_def pipeline_new_def)
  have c: "c = \<lparr>ses = reply_error sample_ext 4 (-32001) ''authentication required'' (session_new ?sh),
      rd = \<lparr>rbuf = [], bytes_read = word_of_nat (length (wire ?f))\<rparr>, phase = Serving\<rparr>"
    using a u by (auto simp: after_first_def run_frame_def conn_new_def handle_frame_def resolve_uplink_def h dispatch_def)
  have "wire g \<noteq> []" for g by (simp add: wire_eq encode_header_def)
  with c reply_refusal(1) [OF u(2)] have "data_out (ses c) \<noteq> []" by simp
  moreover have "phase c \<in> {Serving, Waiting}" "\<not> authenticated (ses c)" using c u by simp_all
  ultimately show ?thesis using unauthenticated_sees_only_refusals [OF r] a by auto
qed

text \<open>C30. A rejected authentication is not reported: the answer with the reason is queued, the task returns
  without the final flush, and nothing is ever sent on the connection afterwards. The client sees
  the connection close instead of \<open>invalid token\<close>.\<close>

theorem auth_rejection_never_sent:
  assumes "msg_type (header f) = Auth" "\<not> shm_ref (flags (header f))"
    and "parse x de_auth_params (payload f) = Inr params"
    and "auth_ok x (s_token sh) params = Ret False" "client_public params = Ret peer"
    and "run_frame x e f c sh = (c', sh')" "rtranclp (conn_step x) (c', sh') (c2, sh2)"
  shows "phase c2 = Ended Returned \<and> sent (ses c2) = sent (ses c)
    \<and> wbuf (wr (ses c')) = wbuf (wr (ses c)) @ wire (frame_new AuthResult (request_id (header f))
        (to_vec x (se_auth_result \<lparr>ar_ok = False, ar_session_key_b64 = None,
           ar_reason = Some ''invalid token'', ar_eph_pub = None\<rparr>)))"
proof -
  have "handle_frame x e f (ses c) sh = auth_answer x e (request_id (header f)) params False peer (ses c) sh"
    using assms(1-5) by (simp add: handle_frame_def resolve_uplink_def dispatch_def on_auth_def)
  then have c': "phase c' = Ended Returned" "sent (ses c') = sent (ses c)"
    "wbuf (wr (ses c')) = wbuf (wr (ses c)) @ wire (frame_new AuthResult (request_id (header f))
        (to_vec x (se_auth_result \<lparr>ar_ok = False, ar_session_key_b64 = None,
           ar_reason = Some ''invalid token'', ar_eph_pub = None\<rparr>)))"
    using assms(6) by (auto simp: run_frame_def auth_answer_def Let_def)
  from ended_steps [OF assms(7)] c' show ?thesis by simp
qed

text \<open>The functions of the sample with a parser that reads every body as the given document.\<close>

definition reading :: "json \<Rightarrow> ext" where
  "reading v = sample_ext\<lparr>from_slice := (\<lambda>b. Inr v)\<rparr>"

lemma parse_reading [simp]: "parse (reading v) de b = (case de v of None \<Rightarrow> Inl ''invalid message'' | Some a \<Rightarrow> Inr a)"
  by (simp add: parse_def reading_def)

theorem auth_rejection_never_sent_witness:
  "let params = \<lparr>ap_agent_id = ''a'', ap_token = ''00'', ap_nonce = Some ''n'', ap_eph_pub = None\<rparr>;
       x = reading (se_auth_params params);
       (c', sh') = run_frame x sample_env (frame_new Auth 0 []) (conn_new (shared_new (Some [1]) registry_new))
                     (shared_new (Some [1]) registry_new)
   in phase c' = Ended Returned \<and> sent (ses c') = [] \<and> wbuf (wr (ses c')) \<noteq> []"
proof -
  let ?p = "\<lparr>ap_agent_id = ''a'', ap_token = ''00'', ap_nonce = Some ''n'', ap_eph_pub = None\<rparr>"
  let ?x = "reading (se_auth_params ?p)" and ?f = "frame_new Auth 0 []" and ?sh = "shared_new (Some [1]) registry_new"
  obtain c' sh' where r: "run_frame ?x sample_env ?f (conn_new ?sh) ?sh = (c', sh')" by fastforce
  have f: "msg_type (header ?f) = Auth" "\<not> shm_ref (flags (header ?f))"
    by (simp_all add: frame_new_def flag_bits FLAG_NONE_def)
  have p: "parse ?x de_auth_params (payload ?f) = Inr ?p" by (simp add: serde_simps)
  have "unhex ''00'' = Ret (Some [0])"
    by (simp add: unhex_def str_slice_def is_char_boundary_def u8_from_str_radix16_def digit16_def Let_def upt_rec)
  then have a: "auth_ok ?x (s_token ?sh) ?p = Ret False" "client_public ?p = Ret None"
    by (simp_all add: auth_ok_def client_public_def shared_new_def verify_response_def reading_def sample_ext_def)
  have "wire g \<noteq> []" for g by (simp add: wire_eq encode_header_def)
  with auth_rejection_never_sent [OF f p a r rtranclp.rtrancl_refl] r show ?thesis
    by (simp add: Let_def conn_new_def session_new_def)
qed


text \<open>A tool that answers with a fixed text, in a registry and a session of its own.\<close>

definition hello_registry :: tool_registry where
  "hello_registry = register ''hello'' [] JNull False (\<lambda>args. \<lparr>ctr_content = [Text ''hi''], is_error = False\<rparr>) registry_new"

definition hello_call :: call_tool_params where
  "hello_call = \<lparr>ct_name = ''hello'', ct_arguments = JNull, ct_meta = None\<rparr>"






text \<open>Update notices reach exactly the subscribers: for an update of a resource a session makes a
  \<open>ResourceUpdated\<close> frame, which unwraps at the client to the serialised uri, if it is subscribed to that
  resource, and does nothing otherwise.\<close>

lemma updates_reach_exactly_subscribers:
  assumes "lz4_ok x" "aead_ok x" "pipeline_wf (pipe s)" "same_key (pipe s) q"
  shows "(case event_frame x (Some (Updated uri)) s of
      (None, s') \<Rightarrow> uri \<notin> subscribed s \<and> s' = s
    | (Some g, s') \<Rightarrow> uri \<in> subscribed s \<and> subscribed s' = subscribed s \<and> msg_type (header g) = ResourceUpdated
        \<and> unwrap x now g q = (Inr (to_vec x (se_resource_updated_params \<lparr>upd_uri = uri\<rparr>)), q))"
proof -
  obtain g gl p where g: "wrap x ResourceUpdated 0 (to_vec x (se_resource_updated_params \<lparr>upd_uri = uri\<rparr>)) (pipe s) = ((g, gl), p)"
    by (metis prod.exhaust)
  from wrap_unwrap [OF assms g] wrap_header(1) [OF g] show ?thesis
    by (simp add: event_frame_def g)
qed

text \<open>C19. Compression and encryption are transparent to the handlers, and neither is required: a request a
  client wrapped, compressed or encrypted with the session key as its pipeline does, is handled
  exactly as the same request in a plain frame. So a plain frame put into an encrypted session is
  carried out like the client's own.\<close>

theorem encryption_is_transparent_and_optional:
  assumes "lz4_ok x" "aead_ok x" "pipeline_wf q" "same_key q (pipe s)"
    and "wrap x t i body q = ((f, fl), q')" "t \<noteq> Auth"
  shows "handle_frame x e f s sh = handle_frame x e (frame_new t i body) s sh"
proof (rule handle_frame_cong)
  note w = wrap_header [OF assms(5)]
  show "msg_type (header f) = msg_type (header (frame_new t i body))"
    "request_id (header f) = request_id (header (frame_new t i body))"
    "msg_type (header (frame_new t i body)) \<noteq> Auth" "\<not> shm_ref (flags (header f))"
    "\<not> shm_ref (flags (header (frame_new t i body)))"
    using w assms(6) by (simp_all add: frame_new_def flag_bits FLAG_NONE_def)
  show "unwrap x (t_unwrap e) f (pipe s) = unwrap x (t_unwrap e) (frame_new t i body) (pipe s)"
    by (simp add: wrap_unwrap [OF assms(1-5)] unwrap_plain)
qed

theorem encryption_is_transparent_and_optional_witness:
  "let sh = shared_new None registry_new;
       q = enable_encryption (replicate 4 1) (replicate 32 2) pipeline_new;
       s = (session_new sh)\<lparr>pipe := enable_encryption (replicate 4 3) (replicate 32 2) pipeline_new\<rparr>;
       f = fst (fst (wrap sample_ext Ping 5 [1] q))
   in encrypted (flags (header f)) \<and>
     handle_frame sample_ext sample_env f s sh = handle_frame sample_ext sample_env (frame_new Ping 5 [1]) s sh"
proof -
  let ?sh = "shared_new None registry_new" and ?q = "enable_encryption (replicate 4 1) (replicate 32 2) pipeline_new"
  let ?s = "(session_new ?sh)\<lparr>pipe := enable_encryption (replicate 4 3) (replicate 32 2) pipeline_new\<rparr>"
  obtain f fl q' where w: "wrap sample_ext Ping 5 [1] ?q = ((f, fl), q')" by (metis prod.exhaust)
  have "pipeline_wf ?q" "same_key ?q (pipe ?s)" "encryption_enabled ?q"
    using pipeline_new_wf
    by (simp_all add: pipeline_wf_def cipher_wf_def enable_encryption_def cipher_new_def same_key_def encryption_enabled_def)
  with encryption_is_transparent_and_optional [OF sample_lz4_ok sample_aead_ok _ _ w] wrap_header(3,7) [OF w] w
  show ?thesis by (simp add: Let_def)
qed

text \<open>A call of a cacheable tool: when the shared cache has no fresh entry the tool runs, its result is
  stored under the key of the call and goes out in full, marked as cacheable; on a hit the tool does
  not run, and the stored result goes out in full the first time on a session, and as a 32-byte
  reference once it has been delivered.\<close>

lemma cacheable_call_cases:
  assumes "lz4_ok x" "aead_ok x" "call_ready x i body params q s sh" "wrap x CallTool i body q = ((f, fl), q')"
    and "call_key x (registry sh) params = Some k"
    and "call (registry sh) (ct_name params) (ct_arguments params) = Some result"
  shows "handle_frame x e f s sh =
    (let c = snd (cache_get (t_get e) k (s_cache sh));
         r = to_vec x (se_call_tool_result result);
         full = (\<lambda>b. deliver x i b True (s\<lparr>delivered := insert k (delivered s)\<rparr>))
     in if \<not> fresh (t_get e) k (s_cache sh) then
          (Continue, full r, sh\<lparr>s_cache := cache_put (map_order e) (t_put e) k r c\<rparr>)
        else if k \<notin> delivered s then
          (Continue, full (the (cache_view (s_cache sh) k)), sh\<lparr>s_cache := c\<rparr>)
        else (case wrap_cache_ref x CallToolResult i k (pipe s) of (g, p) \<Rightarrow>
          (Continue, emit g (s\<lparr>pipe := p\<rparr>), sh\<lparr>s_cache := c\<rparr>)))"
  by (rule cacheable_call [OF assms])

text \<open>The sample tool, registered as cacheable.\<close>

definition hello_cached :: tool_registry where
  "hello_cached = register ''hello'' [] JNull True (\<lambda>args. \<lparr>ctr_content = [Text ''hi''], is_error = False\<rparr>) registry_new"

lemma reading_ok: "lz4_ok (reading v)" "aead_ok (reading v)"
  using sample_lz4_ok sample_aead_ok by (simp_all add: reading_def lz4_ok_def aead_ok_def)

lemma hello_call_ready:
  "call_ready (reading (se_call_tool_params hello_call)) i b hello_call pipeline_new (session_new (shared_new None r)) (shared_new None r)"
proof -
  have "session_new (shared_new None r) = \<lparr>wr = writer_new, pipe = pipeline_new, authenticated = True,
      agent_id = ''anonymous'', delivered = {}, shm = None, shm_up = None, cancelled = {}, subscribed = {}, sent = []\<rparr>"
    by (simp add: session_new_def shared_new_def)
  moreover have "de_call_tool_params (se_call_tool_params hello_call) = Some hello_call"
    by (simp add: hello_call_def serde_simps is_value_def)
  moreover have "\<not> wants_progress hello_call" by (simp add: wants_progress_def hello_call_def)
  ultimately show ?thesis
    by (simp add: call_ready_def pipeline_new_wf same_key_def) (simp add: acl_check_def acl_grant_all_def shared_new_def)
qed

end
