(* ===== verification/Daemon_Server.thy ===== *)
theory Daemon_Server
  imports Daemon_Behaviour
begin

text \<open>
  The daemon as a whole, \<open>run_with\<close> and \<open>reject_busy\<close> of \<open>ohmcpd/src/server.rs\<close>: the accept loop
  under a connection limit, the session tasks it spawns, the broadcast of resource events to them,
  and the shutdown. The tasks interleave; a step of the daemon is a step of one of its parts.
\<close>

section \<open>State\<close>

text \<open>
  The accept loop, the drain after the shutdown signal, or how \<open>run_with\<close> returned: with an error
  of the listener, or with \<open>Ok\<close> and whether the sessions ended within the grace period.
\<close>

datatype run_state = Accepting | Draining | Stopped "string + bool"

text \<open>
  A task of the \<open>JoinSet\<close>: its connection, and how far its receiver has come in the sequence of
  the broadcast events. A receiver that has fallen behind skips events and sees an error instead.
\<close>

record task =
  tconn :: conn
  cursor :: nat

text \<open>\<open>turned_away\<close> is what each connection over the limit was sent.\<close>

record server =
  run :: run_state
  permits :: nat
  tasks :: "task list"
  turned_away :: "bytes list"
  events :: "resource_event list"
  sv_shared :: shared

definition server_new :: "bytes option \<Rightarrow> tool_registry \<Rightarrow> nat \<Rightarrow> server" where
  "server_new token reg max_conns =
     \<lparr>run = Accepting, permits = max_conns, tasks = [], turned_away = [], events = [],
      sv_shared = shared_new token reg\<rparr>"

section \<open>Steps\<close>

definition busy_frame :: "ext \<Rightarrow> frame" where
  "busy_frame x = frame_new Error 0 (to_vec x (se_error_body
     \<lparr>err_code = -32005, err_message = ''server busy: connection limit reached'', err_data = None\<rparr>))"

text \<open>\<open>reject_busy\<close>: what reaches the client; the outcome of the write is ignored.\<close>

definition reject_busy :: "ext \<Rightarrow> write_outcome \<Rightarrow> bytes" where
  "reject_busy x out = (case send (busy_frame x) writer_new out of (_, _, bs) \<Rightarrow> bs)"

definition accept_conn :: "ext \<Rightarrow> write_outcome \<Rightarrow> server \<Rightarrow> server" where
  "accept_conn x out sv =
     (if permits sv = 0 then sv\<lparr>turned_away := turned_away sv @ [reject_busy x out]\<rparr>
      else sv\<lparr>permits := permits sv - 1,
              tasks := tasks sv @ [\<lparr>tconn = conn_new (sv_shared sv), cursor = length (events sv)\<rparr>]\<rparr>)"

text \<open>A task that has returned, failed or panicked has dropped its permit.\<close>

definition released :: "conn \<Rightarrow> bool" where
  "released c = (case phase c of Ended fl \<Rightarrow> fl \<noteq> Blocked | _ \<Rightarrow> False)"

definition put_task :: "nat \<Rightarrow> conn \<Rightarrow> nat \<Rightarrow> shared \<Rightarrow> server \<Rightarrow> server" where
  "put_task i c cur sh sv =
     sv\<lparr>tasks := (tasks sv)[i := \<lparr>tconn = c, cursor = cur\<rparr>], sv_shared := sh,
        permits := (if released c then permits sv + 1 else permits sv)\<rparr>"

text \<open>
  What the \<open>select!\<close> of a task can wake up for, and where its receiver is afterwards: the shutdown
  signal once it was sent, its next event, or the error of a receiver that lost events.
\<close>

definition wakes :: "server \<Rightarrow> nat \<Rightarrow> wait_ev \<Rightarrow> nat \<Rightarrow> bool" where
  "wakes sv cur ev cur' =
     (case ev of
        Socket io \<Rightarrow> cur' = cur
      | Shutdown \<Rightarrow> run sv = Draining \<and> cur' = cur
      | Notice (Some v) \<Rightarrow> cur < length (events sv) \<and> v = events sv ! cur \<and> cur' = Suc cur
      | Notice None \<Rightarrow> cur < cur' \<and> cur' \<le> length (events sv))"

text \<open>The host holds the updater handle only.\<close>

fun host_op :: "registry_op \<Rightarrow> bool" where
  "host_op (Op_updater_update u t) = True"
| "host_op (Op_updater_add u n m t) = True"
| "host_op _ = False"

definition host_update :: "registry_op \<Rightarrow> server \<Rightarrow> server" where
  "host_update op sv =
     (case registry_apply op (registry (sv_shared sv)) of
        (r, evs) \<Rightarrow> sv\<lparr>sv_shared := (sv_shared sv)\<lparr>registry := r\<rparr>, events := events sv @ evs\<rparr>)"

inductive server_step :: "ext \<Rightarrow> server \<Rightarrow> server \<Rightarrow> bool" for x where
  Accept: "run sv = Accepting \<Longrightarrow> server_step x sv (accept_conn x out sv)"
| Accept_failed: "run sv = Accepting \<Longrightarrow> server_step x sv (sv\<lparr>run := Stopped (Inl err)\<rparr>)"
| Shut_down: "run sv = Accepting \<Longrightarrow> server_step x sv (sv\<lparr>run := Draining\<rparr>)"
| Drained: "run sv = Draining \<Longrightarrow> \<forall>t \<in> set (tasks sv). released (tconn t) \<Longrightarrow>
    server_step x sv (sv\<lparr>run := Stopped (Inr True)\<rparr>)"
| Grace_over: "run sv = Draining \<Longrightarrow> server_step x sv (sv\<lparr>run := Stopped (Inr False)\<rparr>)"
| Task_serves: "run sv \<in> {Accepting, Draining} \<Longrightarrow> i < length (tasks sv) \<Longrightarrow> tasks sv ! i = \<lparr>tconn = c, cursor = cur\<rparr> \<Longrightarrow>
    phase c = Serving \<Longrightarrow> env_ok e \<Longrightarrow> serve_step x e c (sv_shared sv) = (c', sh) \<Longrightarrow>
    server_step x sv (put_task i c' cur sh sv)"
| Task_waits: "run sv \<in> {Accepting, Draining} \<Longrightarrow> i < length (tasks sv) \<Longrightarrow> tasks sv ! i = \<lparr>tconn = c, cursor = cur\<rparr> \<Longrightarrow>
    phase c = Waiting \<Longrightarrow> env_ok e \<Longrightarrow> wakes sv cur ev cur' \<Longrightarrow> wait_step x e ev c (sv_shared sv) = (c', sh) \<Longrightarrow>
    server_step x sv (put_task i c' cur' sh sv)"
| Client_writes: "i < length (tasks sv) \<Longrightarrow> tasks sv ! i = \<lparr>tconn = c, cursor = cur\<rparr> \<Longrightarrow> peer_writes (ses c) s \<Longrightarrow>
    server_step x sv (sv\<lparr>tasks := (tasks sv)[i := \<lparr>tconn = c\<lparr>ses := s\<rparr>, cursor = cur\<rparr>]\<rparr>)"
| Host: "host_op op \<Longrightarrow> server_step x sv (host_update op sv)"

inductive_cases server_stepE: "server_step x sv sv'"

inductive server_reachable :: "ext \<Rightarrow> bytes option \<Rightarrow> tool_registry \<Rightarrow> nat \<Rightarrow> server \<Rightarrow> bool" for x token reg n where
  Start: "server_reachable x token reg n (server_new token reg n)"
| Step: "server_reachable x token reg n sv \<Longrightarrow> server_step x sv sv' \<Longrightarrow> server_reachable x token reg n sv'"

section \<open>A step of a session, seen from the others\<close>

lemma registry_run_append:
  "fst (registry_run (ops @ ops') r) = fst (registry_run ops' (fst (registry_run ops r)))"
  by (induction ops arbitrary: r) (simp_all add: case_prod_beta)

lemma shared_changes_trans:
  assumes "shared_changes a b" "shared_changes b c"
  shows "shared_changes a c"
proof -
  from assms obtain ops ops' where "registry b = fst (registry_run ops (registry a))"
    "registry c = fst (registry_run ops' (registry b))" by (auto simp: shared_changes_def)
  then have "registry c = fst (registry_run (ops @ ops') (registry a))" by (simp add: registry_run_append)
  with assms show ?thesis by (auto simp: shared_changes_def)
qed

lemma shared_le_changes:
  assumes "shared_le sh sh'" "shared_inv sh"
  shows "shared_changes sh sh'"
proof -
  have "registry sh' = fst (registry_run [] (registry sh))" using assms by (simp add: shared_le_def)
  then have "\<exists>ops. registry sh' = fst (registry_run ops (registry sh))" by blast
  with assms show ?thesis by (auto simp: shared_changes_def shared_le_def shared_inv_def)
qed

lemma run_frame_le:
  assumes "session_inv sh (ses c)" "env_ok e" "run_frame x e f c sh = (c', sh')"
  shows "shared_le sh sh'"
proof -
  obtain fl s' sh1 where h: "handle_frame x e f (ses c) sh = (fl, s', sh1)" by (metis prod_cases3)
  with handle_frame_keeps [OF assms(1,2), of x f] assms(3) show ?thesis
    by (auto simp: run_frame_def keeps_def)
qed

lemma serve_step_le:
  assumes "session_inv sh (ses c)" "env_ok e" "serve_step x e c sh = (c', sh')"
  shows "shared_le sh sh'"
  using assms run_frame_le [of sh "c\<lparr>rd := r\<rparr>" e x f c' sh' for r f]
  by (auto simp: serve_step_def split: sum.splits option.splits prod.splits)

lemma wait_step_le:
  assumes "session_inv sh (ses c)" "env_ok e" "wait_step x e ev c sh = (c', sh')"
  shows "shared_le sh sh'"
  using assms run_frame_le [of sh "c\<lparr>rd := r\<rparr>" e x f c' sh' for r f]
  by (auto simp: wait_step_def split: wait_ev.splits poll.splits sum.splits option.splits prod.splits)

lemma host_update_changes:
  assumes "registry_apply op (registry sh) = (r, evs)"
  shows "shared_changes sh (sh\<lparr>registry := r\<rparr>)"
proof -
  have "r = fst (registry_run [op] (registry sh))" using assms by simp
  then show ?thesis by (auto simp: shared_changes_def simp del: registry_run.simps)
qed

section \<open>Every session of the daemon is a session of the single-connection model\<close>

definition server_inv :: "ext \<Rightarrow> bytes option \<Rightarrow> tool_registry \<Rightarrow> server \<Rightarrow> bool" where
  "server_inv x token reg sv \<longleftrightarrow> shared_changes (shared_new token reg) (sv_shared sv)
     \<and> (\<forall>t \<in> set (tasks sv). reachable x token reg (tconn t, sv_shared sv))"

lemma server_inv_others:
  assumes "server_inv x token reg sv" "shared_changes (sv_shared sv) sh"
  shows "shared_changes (shared_new token reg) sh"
    and "\<forall>t \<in> set (tasks sv). reachable x token reg (tconn t, sh)"
  using assms shared_changes_trans reachable.Step conn_step.Others unfolding server_inv_def by blast+

text \<open>One session moves; for the others it is a change of the shared state.\<close>

lemma put_task_inv:
  assumes inv: "server_inv x token reg sv" and i: "i < length (tasks sv)" "tasks sv ! i = \<lparr>tconn = c, cursor = cur\<rparr>"
    and step: "conn_step x (c, sv_shared sv) (c', sh)" and le: "shared_le (sv_shared sv) sh"
  shows "server_inv x token reg (put_task i c' cur' sh sv)"
proof -
  have "shared_inv (sv_shared sv)"
    using inv shared_changes_inv(1) shared_new_inv by (auto simp: server_inv_def)
  from shared_le_changes [OF le this] have sh: "shared_changes (sv_shared sv) sh" .
  have "\<lparr>tconn = c, cursor = cur\<rparr> \<in> set (tasks sv)" using i nth_mem by metis
  with inv have "reachable x token reg (c, sv_shared sv)" by (auto simp: server_inv_def)
  from reachable.Step [OF this step] have "reachable x token reg (c', sh)" .
  with server_inv_others [OF inv sh] set_update_subset_insert [of "tasks sv" i "\<lparr>tconn = c', cursor = cur'\<rparr>"]
  show ?thesis by (auto simp: server_inv_def put_task_def)
qed

lemma task_session_inv:
  assumes "server_inv x token reg sv" "i < length (tasks sv)" "tasks sv ! i = \<lparr>tconn = c, cursor = cur\<rparr>"
  shows "session_inv (sv_shared sv) (ses c)"
proof -
  have "\<lparr>tconn = c, cursor = cur\<rparr> \<in> set (tasks sv)" using assms(2,3) nth_mem by metis
  with assms(1) have "reachable x token reg (c, sv_shared sv)" by (auto simp: server_inv_def)
  from reachable_inv [OF this] show ?thesis by (simp add: conn_inv_def)
qed

lemma server_step_keeps_inv: "server_step x sv sv' \<Longrightarrow> server_inv x token reg sv \<Longrightarrow> server_inv x token reg sv'"
proof (induction rule: server_step.induct)
  case (Accept sv out)
  then show ?case by (auto simp: accept_conn_def server_inv_def intro: reachable.Start)
next
  case (Task_serves sv i c cur e c' sh)
  from Task_serves(5,6) task_session_inv [OF Task_serves(7,2,3)] have "shared_le (sv_shared sv) sh"
    by (intro serve_step_le)
  with Task_serves show ?case by (auto intro: put_task_inv conn_step.Serve)
next
  case (Task_waits sv i c cur e ev cur' c' sh)
  from Task_waits(5,7) task_session_inv [OF Task_waits(8,2,3)] have "shared_le (sv_shared sv) sh"
    by (intro wait_step_le)
  with Task_waits show ?case by (auto intro: put_task_inv conn_step.Wait)
next
  case (Client_writes i sv c cur s)
  then have "\<lparr>tconn = c, cursor = cur\<rparr> \<in> set (tasks sv)" using nth_mem by metis
  with Client_writes(4) have "reachable x token reg (c, sv_shared sv)" by (auto simp: server_inv_def)
  from reachable.Step [OF this conn_step.Peer [OF Client_writes(3)]]
  have "reachable x token reg (c\<lparr>ses := s\<rparr>, sv_shared sv)" .
  with Client_writes set_update_subset_insert [of "tasks sv" i "\<lparr>tconn = c\<lparr>ses := s\<rparr>, cursor = cur\<rparr>"]
  show ?case by (auto simp: server_inv_def)
next
  case (Host op sv)
  obtain r evs where a: "registry_apply op (registry (sv_shared sv)) = (r, evs)" by fastforce
  from server_inv_others [OF Host(2) host_update_changes [OF a]] a show ?case
    by (simp add: host_update_def server_inv_def)
qed (simp_all add: server_inv_def)

lemma server_reachable_inv: "server_reachable x token reg n sv \<Longrightarrow> server_inv x token reg sv"
proof (induction rule: server_reachable.induct)
  case Start
  then show ?case by (simp add: server_inv_def server_new_def shared_changes_refl)
next
  case (Step sv sv')
  then show ?case using server_step_keeps_inv by blast
qed

text \<open>Finished tasks stay in the \<open>JoinSet\<close>: nothing joins them before the drain.\<close>

lemma tasks_never_reaped: "server_step x sv sv' \<Longrightarrow> length (tasks sv) \<le> length (tasks sv')"
  by (induction rule: server_step.induct) (auto simp: accept_conn_def put_task_def host_update_def split: prod.splits)

section \<open>The connection limit\<close>

definition holds_permit :: "task \<Rightarrow> bool" where
  "holds_permit t \<longleftrightarrow> \<not> released (tconn t)"

definition sessions :: "server \<Rightarrow> nat" where
  "sessions sv = length (filter holds_permit (tasks sv))"

lemma length_filter_update:
  "i < length ts \<Longrightarrow> length (filter P (ts[i := t])) + (if P (ts ! i) then 1 else 0)
    = length (filter P ts) + (if P t then 1 else 0)"
proof (induction ts arbitrary: i)
  case (Cons u ts)
  then show ?case by (cases i) auto
qed simp

lemma put_task_permits:
  assumes "i < length (tasks sv)" "tasks sv ! i = \<lparr>tconn = c, cursor = cur\<rparr>" "\<not> released c"
  shows "permits (put_task i c' cur' sh sv) + sessions (put_task i c' cur' sh sv) = permits sv + sessions sv"
  using length_filter_update [OF assms(1), of holds_permit "\<lparr>tconn = c', cursor = cur'\<rparr>"] assms(2,3)
  by (simp add: put_task_def sessions_def holds_permit_def split: if_splits)

lemma server_step_permits: "server_step x sv sv' \<Longrightarrow> permits sv' + sessions sv' = permits sv + sessions sv"
proof (induction rule: server_step.induct)
  case (Accept sv out)
  then show ?case by (simp add: accept_conn_def sessions_def holds_permit_def released_def conn_new_def)
next
  case (Task_serves sv i c cur e c' sh)
  then show ?case by (intro put_task_permits [of i sv c cur]) (auto simp: released_def)
next
  case (Task_waits sv i c cur e ev cur' c' sh)
  then show ?case by (intro put_task_permits [of i sv c cur]) (auto simp: released_def)
next
  case (Client_writes i sv c cur s)
  then show ?case
    using length_filter_update [OF Client_writes(1), of holds_permit "\<lparr>tconn = c\<lparr>ses := s\<rparr>, cursor = cur\<rparr>"]
    by (simp add: sessions_def holds_permit_def released_def split: if_splits)
next
  case (Host op sv)
  then show ?case by (simp add: host_update_def sessions_def split: prod.split)
qed (simp_all add: sessions_def)

lemma server_reachable_permits: "server_reachable x token reg n sv \<Longrightarrow> permits sv + sessions sv = n"
proof (induction rule: server_reachable.induct)
  case Start
  then show ?case by (simp add: server_new_def sessions_def)
next
  case (Step sv sv')
  then show ?case using server_step_permits by metis
qed

section \<open>Shutdown\<close>

text \<open>Only the descriptor exchange of \<open>ShmSetup\<close> blocks, and not when its sends succeed.\<close>

lemma exchange_fds_sample: "\<exists>r out. exchange_fds sample_env down up = (Ready r, out)"
  by (auto simp: exchange_fds_def sample_env_def send_fd_blocking_def send_fd_decline_def split: option.split)

lemma with_params_flow: "(\<And>a s'. fst (k a s') \<noteq> Blocked) \<Longrightarrow> fst (with_params x e de f s sh k) \<noteq> Blocked"
  by (auto simp: with_params_def split: prod.split sum.split)

lemma on_shm_setup_returns: "fst (on_shm_setup x sample_env f s sh) \<noteq> Blocked"
proof -
  obtain r s1 where fl: "flush_session (e_flush sample_env) s = (r, s1)" by fastforce
  obtain q out where "exchange_fds sample_env (ring_of (ring_create DEFAULT_SHM_CAP (e_ring sample_env)))
      (ring_of (ring_create DEFAULT_SHM_CAP (e_ring_up sample_env))) = (Ready q, out)"
    using exchange_fds_sample by blast
  with fl show ?thesis by (simp add: on_shm_setup_def Let_def split: sum.split)
qed

lemma dispatch_returns: "fst (dispatch x sample_env f s sh) \<noteq> Blocked"
proof -
  have "fst (on_auth x sample_env f s sh) \<noteq> Blocked"
    by (simp add: on_auth_def auth_answer_def Let_def split: sum.split ret.split)
  moreover have "fst (on_read_resource x sample_env f s sh) \<noteq> Blocked" "fst (on_get_prompt x sample_env f s sh) \<noteq> Blocked"
    "fst (on_subscribe x sample_env f s sh) \<noteq> Blocked" "fst (on_call_tool x sample_env f s sh) \<noteq> Blocked"
    unfolding on_read_resource_def on_get_prompt_def on_subscribe_def on_call_tool_def Let_def
    by (auto intro!: with_params_flow split: option.splits if_splits)
  moreover have "fst (on_cancel x sample_env f s sh) \<noteq> Blocked"
    by (simp add: on_cancel_def split: prod.split sum.split)
  ultimately show ?thesis
    using on_shm_setup_returns
    by (simp add: dispatch_def on_initialize_def on_list_tools_def on_list_resources_def on_list_prompts_def on_ping_def
        split: msg_type.split)
qed

lemma run_frame_returns:
  assumes "run_frame x sample_env f c sh = (c', sh')"
  shows "phase c' \<noteq> Ended Blocked"
proof -
  obtain q s1 where u: "resolve_uplink f (ses c) = (q, s1)" by fastforce
  have "fst (handle_frame x sample_env f (ses c) sh) \<noteq> Blocked"
    using dispatch_returns by (simp add: handle_frame_def u split: sum.split)
  with assms show ?thesis by (auto simp: run_frame_def split: prod.splits if_splits)
qed

lemma serve_step_returns:
  assumes "serve_step x sample_env c sh = (c', sh')" "phase c = Serving"
  shows "phase c' \<noteq> Ended Blocked"
  using assms run_frame_returns by (auto simp: serve_step_def split: sum.splits option.splits prod.splits)

text \<open>What a session still has to do before it can end: the frames in its buffer, then one wake-up.\<close>

definition backlog :: "conn \<Rightarrow> nat" where
  "backlog c = (case phase c of Serving \<Rightarrow> 2 + length (rbuf (rd c)) | Waiting \<Rightarrow> 1 | Ended _ \<Rightarrow> 0)"

lemma serve_step_backlog:
  assumes "serve_step x e c sh = (c', sh')" "phase c = Serving"
  shows "backlog c' < backlog c"
proof (cases "phase c' = Serving")
  case True
  from serve_step_consumes [OF assms(1) True] assms(2) True show ?thesis
    by (simp add: backlog_def HEADER_LEN_def)
next
  case False
  with assms(2) show ?thesis by (auto simp: backlog_def split: phase.split)
qed

definition total_backlog :: "server \<Rightarrow> nat" where
  "total_backlog sv = sum_list (map (backlog \<circ> tconn) (tasks sv))"

lemma sum_list_update_less:
  "i < length ts \<Longrightarrow> f t < f (ts ! i) \<Longrightarrow> sum_list (map f (ts[i := t])) < (sum_list (map f ts) :: nat)"
proof (induction ts arbitrary: i)
  case (Cons u ts)
  then show ?case by (cases i) auto
qed simp

lemma put_task_backlog:
  assumes "i < length (tasks sv)" "tasks sv ! i = \<lparr>tconn = c, cursor = cur\<rparr>" "backlog c' < backlog c"
  shows "total_backlog (put_task i c' cur' sh sv) < total_backlog sv"
  using sum_list_update_less [of i "tasks sv" "backlog \<circ> tconn" "\<lparr>tconn = c', cursor = cur'\<rparr>"] assms
  by (simp add: total_backlog_def put_task_def)

definition unblocked :: "server \<Rightarrow> bool" where
  "unblocked sv \<longleftrightarrow> (\<forall>t \<in> set (tasks sv). phase (tconn t) \<noteq> Ended Blocked)"

lemma put_task_unblocked:
  "unblocked sv \<Longrightarrow> phase c' \<noteq> Ended Blocked \<Longrightarrow> unblocked (put_task i c' cur sh sv)"
  using set_update_subset_insert [of "tasks sv" i "\<lparr>tconn = c', cursor = cur\<rparr>"]
  by (auto simp: unblocked_def put_task_def)

text \<open>While a session is left, one of them can make a step that brings the end nearer.\<close>

lemma drain_step:
  assumes "run sv = Draining" "unblocked sv" "\<not> (\<forall>t \<in> set (tasks sv). released (tconn t))"
  shows "\<exists>sv'. server_step x sv sv' \<and> run sv' = Draining \<and> unblocked sv' \<and> total_backlog sv' < total_backlog sv"
proof -
  from assms(3) obtain i where i: "i < length (tasks sv)" "\<not> released (tconn (tasks sv ! i))"
    by (metis in_set_conv_nth)
  obtain c cur where t: "tasks sv ! i = \<lparr>tconn = c, cursor = cur\<rparr>" by (cases "tasks sv ! i") auto
  from i t assms(2) nth_mem [OF i(1)] have "phase c \<in> {Serving, Waiting}"
    by (auto simp: unblocked_def released_def split: phase.splits)
  then consider "phase c = Serving" | "phase c = Waiting" by blast
  then show ?thesis
  proof cases
    case 1
    obtain c' sh where s: "serve_step x sample_env c (sv_shared sv) = (c', sh)" by fastforce
    from server_step.Task_serves [OF _ i(1) t 1 sample_env_ok s] assms(1)
    have "server_step x sv (put_task i c' cur sh sv)" by simp
    moreover have "run (put_task i c' cur sh sv) = Draining" using assms(1) by (simp add: put_task_def)
    ultimately show ?thesis
      using put_task_unblocked [OF assms(2) serve_step_returns [OF s 1]]
        put_task_backlog [OF i(1) t serve_step_backlog [OF s 1]] by blast
  next
    case 2
    have s: "wait_step x sample_env Shutdown c (sv_shared sv) = (finish sample_env c, sv_shared sv)"
      by (simp add: wait_step_def)
    have f: "phase (finish sample_env c) = Ended Returned" by (simp add: finish_def)
    from server_step.Task_waits [OF _ i(1) t 2 sample_env_ok _ s] assms(1)
    have "server_step x sv (put_task i (finish sample_env c) cur (sv_shared sv) sv)" by (simp add: wakes_def)
    moreover have "run (put_task i (finish sample_env c) cur (sv_shared sv) sv) = Draining"
      using assms(1) by (simp add: put_task_def)
    moreover have "backlog (finish sample_env c) < backlog c" using f 2 by (simp add: backlog_def)
    ultimately show ?thesis
      using put_task_unblocked [OF assms(2)] put_task_backlog [OF i(1) t] f by fastforce
  qed
qed

lemma drain_completes:
  "run sv = Draining \<Longrightarrow> unblocked sv \<Longrightarrow> \<exists>sv'. rtranclp (server_step x) sv sv' \<and> run sv' = Stopped (Inr True)"
proof (induction "total_backlog sv" arbitrary: sv rule: less_induct)
  case less
  show ?case
  proof (cases "\<forall>t \<in> set (tasks sv). released (tconn t)")
    case True
    from server_step.Drained [OF less.prems(1) True, of x]
    show ?thesis by (intro exI [of _ "sv\<lparr>run := Stopped (Inr True)\<rparr>"]) auto
  next
    case False
    from drain_step [OF less.prems False] obtain sv1 where
      s: "server_step x sv sv1" "run sv1 = Draining" "unblocked sv1" "total_backlog sv1 < total_backlog sv" by blast
    from less.hyps [OF s(4,2,3)] s(1) show ?thesis by (meson converse_rtranclp_into_rtranclp)
  qed
qed

text \<open>Once \<open>run_with\<close> has returned, the tasks are gone: nothing more is sent.\<close>

definition outputs :: "server \<Rightarrow> sock_item list list" where
  "outputs sv = map (sent \<circ> ses \<circ> tconn) (tasks sv)"

lemma stopped_step:
  "server_step x sv sv' \<Longrightarrow> run sv = Stopped r \<Longrightarrow> run sv' = Stopped r \<and> outputs sv' = outputs sv"
proof (induction rule: server_step.induct)
  case (Client_writes i sv c cur s)
  then have "sent s = sent (ses c)" by (auto simp: peer_writes_def)
  with Client_writes have "map (sent \<circ> ses \<circ> tconn) ((tasks sv)[i := \<lparr>tconn = c\<lparr>ses := s\<rparr>, cursor = cur\<rparr>])
      = map (sent \<circ> ses \<circ> tconn) (tasks sv)"
    by (simp add: map_update list_update_same_conv)
  with Client_writes show ?case by (simp add: outputs_def)
next
  case (Host op sv)
  then show ?case by (simp add: host_update_def outputs_def split: prod.split)
qed auto

lemma stopped_steps:
  "rtranclp (server_step x) sv sv' \<Longrightarrow> run sv = Stopped r \<Longrightarrow> run sv' = Stopped r \<and> outputs sv' = outputs sv"
proof (induction rule: rtranclp_induct)
  case (step sv1 sv2)
  then show ?case using stopped_step by metis
qed simp

section \<open>Properties\<close>

text \<open>A daemon with one connection, and the same after a second client was turned away.\<close>

definition one_session :: "shared \<Rightarrow> server" where
  "one_session sh =
     \<lparr>run = Accepting, permits = 0, tasks = [\<lparr>tconn = conn_new sh, cursor = 0\<rparr>], turned_away = [], events = [],
      sv_shared = sh\<rparr>"

lemma one_session_accepted: "accept_conn x out (server_new token reg 1) = one_session (shared_new token reg)"
  by (simp add: accept_conn_def server_new_def one_session_def)

lemma one_session_reachable: "server_reachable x token reg 1 (one_session (shared_new token reg))"
proof -
  have "server_step x (server_new token reg 1) (accept_conn x Wrote_all (server_new token reg 1))"
    by (rule server_step.Accept) (simp add: server_new_def)
  with server_reachable.Start server_reachable.Step show ?thesis
    unfolding one_session_accepted by blast
qed

text \<open>C7. Every session of the running daemon, whatever the other sessions, the host and the clients do, is
  in a state of the single-connection model. So what holds of its reachable states holds of each
  session of the daemon: the session invariant, the silence before authentication, the bounds.\<close>

theorem sessions_refine_the_connection_model:
  assumes "server_reachable x token reg n sv" "i < length (tasks sv)"
  shows "reachable x token reg (tconn (tasks sv ! i), sv_shared sv)"
  using server_reachable_inv [OF assms(1)] assms(2) by (auto simp: server_inv_def)

theorem sessions_refine_the_connection_model_witness:
  "reachable sample_ext (Some [1]) registry_new (conn_new (shared_new (Some [1]) registry_new), shared_new (Some [1]) registry_new)"
  using sessions_refine_the_connection_model [OF one_session_reachable [of sample_ext "Some [1]" registry_new], of 0]
  by (simp add: one_session_def)

text \<open>C20. The connection limit is kept: at most \<open>max_connections\<close> tasks are unfinished at any time. A new
  connection below the limit gets a session; at the limit it gets no session, no other session is
  touched, and it is sent one plain error frame, code -32005.\<close>

theorem connection_limit:
  assumes "server_reachable x token reg n sv"
  shows "sessions sv \<le> n
    \<and> (sessions sv < n \<longrightarrow> tasks (accept_conn x out sv)
          = tasks sv @ [\<lparr>tconn = conn_new (sv_shared sv), cursor = length (events sv)\<rparr>]
        \<and> turned_away (accept_conn x out sv) = turned_away sv)
    \<and> (sessions sv = n \<longrightarrow> accept_conn x Wrote_all sv = sv\<lparr>turned_away := turned_away sv @ [wire (busy_frame x)]\<rparr>)"
proof -
  have "send (busy_frame x) writer_new Wrote_all
      = (Inr (), \<lparr>wbuf = [], bytes_written = word_of_nat (length (wire (busy_frame x)))\<rparr>, wire (busy_frame x))"
    by (simp add: send_def flush_def queue_def encode_wire writer_new_def wire_eq encode_header_def)
  then have "reject_busy x Wrote_all = wire (busy_frame x)" by (simp add: reject_busy_def)
  with server_reachable_permits [OF assms] show ?thesis by (auto simp: accept_conn_def)
qed

theorem connection_limit_witness:
  "sessions (one_session (shared_new None registry_new)) = 1
   \<and> turned_away (accept_conn sample_ext Wrote_all (one_session (shared_new None registry_new))) = [wire (busy_frame sample_ext)]"
proof -
  have s: "sessions (one_session (shared_new None registry_new)) = 1"
    by (simp add: sessions_def one_session_def holds_permit_def released_def conn_new_def)
  with connection_limit [OF one_session_reachable [of sample_ext None registry_new], of Wrote_all]
  have "accept_conn sample_ext Wrote_all (one_session (shared_new None registry_new))
      = (one_session (shared_new None registry_new))\<lparr>turned_away := [wire (busy_frame sample_ext)]\<rparr>"
    by (simp add: one_session_def)
  with s show ?thesis by simp
qed



text \<open>One failed \<open>accept\<close> ends the daemon: \<open>run_with\<close> returns the listener's error at once, without the
  shutdown signal and the grace period, and from then on no session sends anything, not even the
  answers it has queued.\<close>

lemma accept_error_silences_every_session:
  assumes "run sv = Accepting"
  shows "\<exists>sv1. server_step x sv sv1 \<and> run sv1 = Stopped (Inl err) \<and> tasks sv1 = tasks sv
    \<and> (\<forall>sv2. rtranclp (server_step x) sv1 sv2 \<longrightarrow> run sv2 = Stopped (Inl err) \<and> outputs sv2 = outputs sv)"
proof -
  have "outputs (sv\<lparr>run := Stopped (Inl err)\<rparr>) = outputs sv" by (simp add: outputs_def)
  with stopped_steps [of x "sv\<lparr>run := Stopped (Inl err)\<rparr>" _ "Inl err"] server_step.Accept_failed [OF assms, of x err]
  show ?thesis by (intro exI [of _ "sv\<lparr>run := Stopped (Inl err)\<rparr>"]) auto
qed



end
