(* ===== verification/Rust_Text.thy ===== *)
theory Rust_Text
  imports Ohmcp_Prelude
begin

text \<open>
  What the daemon uses of Rust's text: \<open>Display\<close> and \<open>FromStr\<close> of unsigned integers, the UTF-8 encoding
  of string literals that are not ASCII, character boundaries, and \<open>String::truncate\<close>.
\<close>

section \<open>Decimal numbers\<close>

definition digit :: "nat \<Rightarrow> char" where
  "digit n = char_of (48 + n)"

fun show_dec :: "nat \<Rightarrow> string" where
  "show_dec n = (if n < 10 then [digit n] else show_dec (n div 10) @ [digit (n mod 10)])"

declare show_dec.simps [simp del]

definition digit_value :: "char \<Rightarrow> nat option" where
  "digit_value c = (let n = of_char c in if 48 \<le> n \<and> n \<le> 57 then Some (n - 48) else None)"

text \<open>\<open>usize::from_str\<close>: an optional plus sign, then digits; an overflow is an error.\<close>

fun parse_digits :: "nat \<Rightarrow> string \<Rightarrow> nat option" where
  "parse_digits acc [] = Some acc"
| "parse_digits acc (c # cs) =
     (case digit_value c of
        None \<Rightarrow> None
      | Some d \<Rightarrow> if acc * 10 + d < 2 ^ 64 then parse_digits (acc * 10 + d) cs else None)"

definition parse_usize :: "string \<Rightarrow> nat option" where
  "parse_usize s =
     (case s of
        [] \<Rightarrow> None
      | c # cs \<Rightarrow> if c = CHR ''+'' then (if cs = [] then None else parse_digits 0 cs) else parse_digits 0 s)"

lemma of_char_digit: "n < 10 \<Longrightarrow> (of_char (digit n) :: nat) = 48 + n"
  by (simp add: digit_def)

lemma digit_value_digit [simp]: "n < 10 \<Longrightarrow> digit_value (digit n) = Some n"
  by (simp add: digit_value_def of_char_digit)

lemma show_dec_not_empty [simp]: "show_dec n \<noteq> []"
  by (subst show_dec.simps) simp

lemma parse_digits_append:
  "parse_digits acc (s @ t) = Option.bind (parse_digits acc s) (\<lambda>a. parse_digits a t)"
  by (induction acc s rule: parse_digits.induct) (auto split: option.splits)

lemma parse_digits_show: "n < 2 ^ 64 \<Longrightarrow> parse_digits 0 (show_dec n) = Some n"
proof (induction n rule: less_induct)
  case (less n)
  show ?case
  proof (cases "n < 10")
    case True
    then show ?thesis by (simp add: show_dec.simps)
  next
    case False
    with less have "parse_digits 0 (show_dec (n div 10)) = Some (n div 10)" by simp
    with False less.prems show ?thesis
      by (simp add: show_dec.simps [of n] parse_digits_append del: mult.commute)
  qed
qed

lemma show_dec_digits: "c \<in> set (show_dec n) \<Longrightarrow> \<exists>d < 10. c = digit d"
proof (induction n rule: less_induct)
  case (less n)
  show ?case
  proof (cases "n < 10")
    case True
    with less.prems show ?thesis by (auto simp: show_dec.simps)
  next
    case False
    with less.prems have "c \<in> set (show_dec (n div 10)) \<or> c = digit (n mod 10)"
      by (auto simp: show_dec.simps [of n])
    moreover have "n div 10 < n" "n mod 10 < 10" using False by simp_all
    ultimately show ?thesis using less.IH [of "n div 10"] by blast
  qed
qed

lemma parse_show_dec: "n < 2 ^ 64 \<Longrightarrow> parse_usize (show_dec n) = Some n"
proof -
  obtain c cs where s: "show_dec n = c # cs" by (cases "show_dec n") auto
  then obtain d where d: "d < 10" "c = digit d" using show_dec_digits [of c n] by auto
  have "(of_char c :: nat) = 48 + d" using d of_char_digit by simp
  then have "(of_char c :: nat) \<noteq> of_char CHR ''+''" by simp
  then have "c \<noteq> CHR ''+''" by auto
  moreover assume "n < 2 ^ 64"
  ultimately show ?thesis using parse_digits_show [of n] s by (simp add: parse_usize_def)
qed

section \<open>UTF-8\<close>

definition is_scalar :: "nat \<Rightarrow> bool" where
  "is_scalar c \<longleftrightarrow> c < 0x110000 \<and> \<not> (0xD800 \<le> c \<and> c < 0xE000)"

definition utf8_char :: "nat \<Rightarrow> string" where
  "utf8_char c = map char_of
     (if c < 0x80 then [c]
      else if c < 0x800 then [0xC0 + c div 0x40, 0x80 + c mod 0x40]
      else if c < 0x10000 then [0xE0 + c div 0x1000, 0x80 + c div 0x40 mod 0x40, 0x80 + c mod 0x40]
      else [0xF0 + c div 0x40000, 0x80 + c div 0x1000 mod 0x40, 0x80 + c div 0x40 mod 0x40, 0x80 + c mod 0x40])"

definition utf8 :: "nat list \<Rightarrow> string" where
  "utf8 cs = concat (map utf8_char cs)"

definition utf8_valid :: "string \<Rightarrow> bool" where
  "utf8_valid s \<longleftrightarrow> (\<exists>cs. (\<forall>c \<in> set cs. is_scalar c) \<and> s = utf8 cs)"

text \<open>\<open>is_char_boundary\<close>: the two ends, and every byte that does not continue a character.\<close>

definition continues :: "char \<Rightarrow> bool" where
  "continues c \<longleftrightarrow> 0x80 \<le> (of_char c :: nat) \<and> (of_char c :: nat) < 0xC0"

definition is_char_boundary :: "string \<Rightarrow> nat \<Rightarrow> bool" where
  "is_char_boundary s i \<longleftrightarrow> i = 0 \<or> i = length s \<or> i < length s \<and> \<not> continues (s ! i)"

text \<open>\<open>String::truncate\<close> panics off a boundary and does nothing beyond the end.\<close>

definition truncate_string :: "nat \<Rightarrow> string \<Rightarrow> string ret" where
  "truncate_string n s =
     (if n \<le> length s then (if is_char_boundary s n then Ret (take n s) else Panicked) else Ret s)"

lemma utf8_Nil [simp]: "utf8 [] = []"
  by (simp add: utf8_def)

lemma utf8_Cons: "utf8 (c # cs) = utf8_char c @ utf8 cs"
  by (simp add: utf8_def)

lemma utf8_append: "utf8 (cs @ ds) = utf8 cs @ utf8 ds"
  by (simp add: utf8_def)

lemma utf8_valid_append: "utf8_valid s \<Longrightarrow> utf8_valid t \<Longrightarrow> utf8_valid (s @ t)"
  unfolding utf8_valid_def by (metis Un_iff set_append utf8_append)

lemma utf8_valid_Nil [simp]: "utf8_valid []"
  unfolding utf8_valid_def by (rule exI [of _ "[]"]) simp

lemma utf8_valid_utf8: "\<forall>c \<in> set cs. is_scalar c \<Longrightarrow> utf8_valid (utf8 cs)"
  unfolding utf8_valid_def by blast

definition ascii :: "string \<Rightarrow> bool" where
  "ascii s \<longleftrightarrow> (\<forall>c \<in> set s. (of_char c :: nat) < 0x80)"

lemma ascii_valid: "ascii s \<Longrightarrow> utf8_valid s"
proof (induction s)
  case (Cons c s)
  then have "(of_char c :: nat) < 0x80" "ascii s" by (simp_all add: ascii_def)
  then have "utf8 [of_char c] = [c]" "is_scalar (of_char c)"
    by (simp_all add: utf8_Cons utf8_char_def is_scalar_def)
  with utf8_valid_utf8 [of "[of_char c]"] utf8_valid_append [of "[c]" s] Cons.IH \<open>ascii s\<close> show ?case by simp
qed simp

lemma show_dec_valid: "utf8_valid (show_dec n)"
proof (rule ascii_valid)
  show "ascii (show_dec n)"
    unfolding ascii_def using show_dec_digits of_char_digit by fastforce
qed

text \<open>A character starts with a byte that does not continue one, and has at most three that do.\<close>

lemma utf8_char_shape:
  "utf8_char c \<noteq> [] \<and> length (utf8_char c) \<le> 4 \<and> (is_scalar c \<longrightarrow> \<not> continues (hd (utf8_char c)))
   \<and> (\<forall>b \<in> set (tl (utf8_char c)). continues b)"
proof -
  have "c div 0x40 < 0x20" if "c < 0x800" using that by simp
  moreover have "c div 0x1000 < 0x10" if "c < 0x10000" using that by simp
  moreover have "c div 0x40000 < 5" if "c < 0x110000" using that by simp
  ultimately show ?thesis
    by (auto simp: utf8_char_def continues_def is_scalar_def)
qed

text \<open>Boundaries behind the first character are boundaries of the rest.\<close>

lemma boundary_rest:
  assumes "\<forall>c \<in> set cs. is_scalar c"
  shows "is_char_boundary (utf8_char c @ utf8 cs) (length (utf8_char c) + m) = is_char_boundary (utf8 cs) m"
proof (cases m)
  case 0
  have "\<not> continues (utf8 cs ! 0)" if "utf8 cs \<noteq> []"
  proof -
    from that obtain d ds where "cs = d # ds" by (cases cs) auto
    with assms utf8_char_shape [of d] show ?thesis by (simp add: utf8_Cons nth_append flip: hd_conv_nth)
  qed
  with 0 utf8_char_shape [of c] show ?thesis by (auto simp: is_char_boundary_def nth_append)
next
  case (Suc k)
  with utf8_char_shape [of c] show ?thesis by (auto simp: is_char_boundary_def nth_append)
qed

lemma inside_first:
  assumes "0 < n" "n < length (utf8_char c)"
  shows "\<not> is_char_boundary (utf8_char c @ utf8 cs) n"
proof -
  have "utf8_char c ! n = tl (utf8_char c) ! (n - 1)" using assms by (simp add: nth_tl)
  then have "utf8_char c ! n \<in> set (tl (utf8_char c))" using assms by (metis Suc_pred' length_tl less_diff_conv nth_mem Suc_eq_plus1)
  with assms utf8_char_shape [of c] show ?thesis by (auto simp: is_char_boundary_def nth_append)
qed

lemma boundary_near:
  assumes "utf8_valid s" "n \<le> length s"
  shows "\<exists>k \<le> 3. n + k \<le> length s \<and> is_char_boundary s (n + k)"
proof -
  have "n \<le> length (utf8 cs) \<Longrightarrow> \<forall>c \<in> set cs. is_scalar c \<Longrightarrow>
      \<exists>k \<le> 3. n + k \<le> length (utf8 cs) \<and> is_char_boundary (utf8 cs) (n + k)" for cs
  proof (induction cs arbitrary: n)
    case Nil
    then show ?case by (simp add: is_char_boundary_def)
  next
    case (Cons c cs)
    let ?l = "length (utf8_char c)"
    from Cons.prems have valid: "\<forall>c \<in> set cs. is_scalar c" by simp
    consider "n = 0" | "0 < n" "n \<le> ?l" | m where "n = ?l + m" by (metis gr0I le_add_diff_inverse nat_le_linear)
    then show ?case
    proof cases
      case 1
      then show ?thesis by (intro exI [of _ 0]) (simp add: is_char_boundary_def)
    next
      case 2
      have "is_char_boundary (utf8_char c @ utf8 cs) ?l"
        using boundary_rest [OF valid, of c 0] by (simp add: is_char_boundary_def)
      with 2 utf8_char_shape [of c] show ?thesis by (intro exI [of _ "?l - n"]) (auto simp: utf8_Cons)
    next
      case 3
      with Cons.IH [of m] Cons.prems valid obtain k where
        "k \<le> 3" "m + k \<le> length (utf8 cs)" "is_char_boundary (utf8 cs) (m + k)" by (auto simp: utf8_Cons)
      with 3 boundary_rest [OF valid, of c "m + k"] show ?thesis
        by (intro exI [of _ k]) (simp add: utf8_Cons add.assoc)
    qed
  qed
  with assms show ?thesis by (auto simp: utf8_valid_def)
qed

lemma take_valid:
  assumes "utf8_valid s" "is_char_boundary s n"
  shows "utf8_valid (take n s)"
proof -
  have "\<forall>c \<in> set cs. is_scalar c \<Longrightarrow> is_char_boundary (utf8 cs) n \<Longrightarrow> utf8_valid (take n (utf8 cs))" for cs
  proof (induction cs arbitrary: n)
    case (Cons c cs)
    let ?l = "length (utf8_char c)"
    from Cons.prems have valid: "\<forall>c \<in> set cs. is_scalar c" by simp
    consider "n = 0" | "0 < n" "n < ?l" | m where "n = ?l + m" by (metis gr0I le_add_diff_inverse not_le)
    then show ?case
    proof cases
      case 2
      with Cons.prems inside_first show ?thesis by (simp add: utf8_Cons)
    next
      case 3
      with Cons.prems boundary_rest [OF valid] have "is_char_boundary (utf8 cs) m" by (simp add: utf8_Cons)
      from Cons.IH [OF valid this] utf8_valid_utf8 [of "[c]"] Cons.prems 3 show ?thesis
        by (simp add: utf8_Cons utf8_valid_append)
    qed simp
  qed simp
  with assms show ?thesis by (auto simp: utf8_valid_def)
qed

end
