(* ===== verification/Rust_Float.thy ===== *)
theory Rust_Float
  imports Ohmcp_Prelude
begin

text \<open>
  What the daemon uses of \<open>f64\<close>: the addition of IEEE 754 double precision, rounding to nearest and
  ties to even, and the conversion of integers. A double is its 64 bits; a finite one is a whole
  number of the smallest steps, \<open>2 ^ -1074\<close> each.
\<close>

section \<open>Doubles\<close>

definition f64_negative :: "u64 \<Rightarrow> bool" where
  "f64_negative w \<longleftrightarrow> 2 ^ 63 \<le> unat w"

definition f64_exponent :: "u64 \<Rightarrow> nat" where
  "f64_exponent w = unat w div 2 ^ 52 mod 2048"

definition f64_fraction :: "u64 \<Rightarrow> nat" where
  "f64_fraction w = unat w mod 2 ^ 52"

definition f64_nan :: "u64 \<Rightarrow> bool" where
  "f64_nan w \<longleftrightarrow> f64_exponent w = 2047 \<and> f64_fraction w \<noteq> 0"

definition f64_infinite :: "u64 \<Rightarrow> bool" where
  "f64_infinite w \<longleftrightarrow> f64_exponent w = 2047 \<and> f64_fraction w = 0"

definition f64_magnitude :: "u64 \<Rightarrow> nat" where
  "f64_magnitude w =
     (if f64_exponent w = 0 then f64_fraction w
      else (2 ^ 52 + f64_fraction w) * 2 ^ (f64_exponent w - 1))"

definition f64_steps :: "u64 \<Rightarrow> int" where
  "f64_steps w = (if f64_negative w then - int (f64_magnitude w) else int (f64_magnitude w))"

section \<open>Rounding\<close>

fun bit_length :: "nat \<Rightarrow> nat" where
  "bit_length n = (if n = 0 then 0 else Suc (bit_length (n div 2)))"

declare bit_length.simps [simp del]

text \<open>
  The bits of the positive double nearest to \<open>n\<close> steps: 53 significant bits are kept. The carry of a
  mantissa that rounds up to \<open>2 ^ 53\<close> goes into the exponent, and the largest exponent is infinity.
\<close>

definition round_steps :: "nat \<Rightarrow> nat" where
  "round_steps n =
     (let k = bit_length n - 53; q = n div 2 ^ k; r = n mod 2 ^ k;
          up = (2 ^ k < 2 * r \<or> 2 ^ k = 2 * r \<and> odd q)
      in min (k * 2 ^ 52 + q + (if up then 1 else 0)) (2047 * 2 ^ 52))"

definition f64_of_steps :: "bool \<Rightarrow> nat \<Rightarrow> u64" where
  "f64_of_steps neg n = word_of_nat (round_steps n + (if neg then 2 ^ 63 else 0))"

definition f64_add :: "u64 \<Rightarrow> u64 \<Rightarrow> u64" where
  "f64_add a b =
     (if f64_nan a \<or> f64_nan b \<or> f64_infinite a \<and> f64_infinite b \<and> f64_negative a \<noteq> f64_negative b
      then 0x7FF8000000000000
      else if f64_infinite a then a
      else if f64_infinite b then b
      else (let s = f64_steps a + f64_steps b
            in if s = 0 then (if f64_negative a \<and> f64_negative b then 0x8000000000000000 else 0)
               else f64_of_steps (s < 0) (nat \<bar>s\<bar>)))"

text \<open>\<open>as f64\<close> of an integer; one is \<open>2 ^ 1074\<close> steps.\<close>

definition one_steps :: nat where "one_steps = 2 ^ 1074"

definition f64_of_int :: "int \<Rightarrow> u64" where
  "f64_of_int i = f64_of_steps (i < 0) (nat \<bar>i\<bar> * one_steps)"

section \<open>Integers below \<open>2 ^ 53\<close> are exact\<close>

lemma bit_length_bounds: "n \<noteq> 0 \<Longrightarrow> 2 ^ (bit_length n - 1) \<le> n \<and> n < 2 ^ bit_length n"
proof (induction n rule: bit_length.induct)
  case (1 n)
  show ?case
  proof (cases "n < 2")
    case True
    with 1 have "n = 1" by simp
    then show ?thesis by (simp add: bit_length.simps)
  next
    case False
    with 1 have "2 ^ (bit_length (n div 2) - 1) \<le> n div 2" "n div 2 < 2 ^ bit_length (n div 2)" by auto
    moreover have "bit_length (n div 2) \<noteq> 0" using False by (simp add: bit_length.simps [of "n div 2"])
    then obtain l where "bit_length (n div 2) = Suc l" using not0_implies_Suc by blast
    ultimately have "2 * 2 ^ l \<le> n" "n < 2 * (2 * 2 ^ l)" "bit_length n = Suc (Suc l)"
      using False by (simp_all add: bit_length.simps [of n])
    then show ?thesis by simp
  qed
qed

lemma bit_length_eq: "2 ^ l \<le> n \<Longrightarrow> n < 2 ^ Suc l \<Longrightarrow> bit_length n = Suc l"
proof -
  assume n: "2 ^ l \<le> n" "n < 2 ^ Suc l"
  then have "n \<noteq> 0" by (metis not_less power_not_zero zero_neq_numeral le_zero_eq)
  from bit_length_bounds [OF this] have b: "2 ^ (bit_length n - 1) \<le> n" "n < 2 ^ bit_length n" by simp_all
  from n(1) b(2) have "l < bit_length n" by (meson le_less_trans nat_power_less_imp_less zero_less_numeral)
  moreover from n(2) b(1) have "bit_length n - 1 < Suc l" by (meson le_less_trans nat_power_less_imp_less zero_less_numeral)
  ultimately show ?thesis by simp
qed

lemma round_exact:
  assumes "2 ^ 52 \<le> q" "q < 2 ^ 53" "k < 2046"
  shows "round_steps (q * 2 ^ k) = k * 2 ^ 52 + q"
proof -
  have "2 ^ (52 + k) \<le> q * 2 ^ k" "q * 2 ^ k < 2 ^ Suc (52 + k)"
    using assms by (simp_all add: power_add)
  then have "bit_length (q * 2 ^ k) = Suc (52 + k)" by (rule bit_length_eq)
  moreover have "k * 2 ^ 52 + q \<le> 2047 * 2 ^ 52"
  proof -
    have "k * 2 ^ 52 \<le> 2045 * 2 ^ 52" using assms(3) by (intro mult_le_mono1) simp
    with assms(2) show ?thesis by simp
  qed
  ultimately show ?thesis by (simp add: round_steps_def Let_def min_absorb1)
qed

lemma exact_double:
  assumes "2 ^ 52 \<le> q" "q < 2 ^ 53" "k < 2046"
  shows "f64_magnitude (f64_of_steps False (q * 2 ^ k)) = q * 2 ^ k"
    and "\<not> f64_negative (f64_of_steps False (q * 2 ^ k))"
    and "f64_exponent (f64_of_steps False (q * 2 ^ k)) = Suc k"
proof -
  have k: "k * 2 ^ 52 \<le> 2045 * 2 ^ 52" using assms(3) by (intro mult_le_mono1) simp
  have q: "q = 2 ^ 52 + (q - 2 ^ 52)" "q - 2 ^ 52 < 2 ^ 52" using assms(1,2) by simp_all
  then have b: "k * 2 ^ 52 + q = Suc k * 2 ^ 52 + (q - 2 ^ 52)" by simp
  have u: "unat (f64_of_steps False (q * 2 ^ k)) = Suc k * 2 ^ 52 + (q - 2 ^ 52)"
    unfolding f64_of_steps_def round_exact [OF assms] b [symmetric]
    using k assms(2) by (simp add: unat_of_nat_u64 del: of_nat_add of_nat_mult)
  have d: "(Suc k * 2 ^ 52 + (q - 2 ^ 52)) div 2 ^ 52 = Suc k" "(Suc k * 2 ^ 52 + (q - 2 ^ 52)) mod 2 ^ 52 = q - 2 ^ 52"
    using q(2) by (simp_all only: div_mult_self3 mod_mult_self3 div_less mod_less)
  show e: "f64_exponent (f64_of_steps False (q * 2 ^ k)) = Suc k"
    using assms(3) by (simp only: f64_exponent_def u d) simp
  have f: "f64_fraction (f64_of_steps False (q * 2 ^ k)) = q - 2 ^ 52"
    by (simp only: f64_fraction_def u d)
  show "f64_magnitude (f64_of_steps False (q * 2 ^ k)) = q * 2 ^ k"
    using assms(1) by (simp add: f64_magnitude_def e f)
  show "\<not> f64_negative (f64_of_steps False (q * 2 ^ k))"
    using k assms(2) by (simp only: f64_negative_def u b [symmetric]) simp
qed

lemma one_steps_pos [simp]: "0 < one_steps"
  by (simp add: one_steps_def)

lemma small_integer_steps:
  fixes m :: nat
  assumes "0 < m" "m < 2 ^ 53"
  obtains q k where "2 ^ 52 \<le> q" "q < 2 ^ 53" "k < 2046" "m * one_steps = q * 2 ^ k"
proof -
  from bit_length_bounds [of m] assms(1) have b: "2 ^ (bit_length m - 1) \<le> m" "m < 2 ^ bit_length m" by simp_all
  have l: "0 < bit_length m" "bit_length m \<le> 53"
  proof -
    show "0 < bit_length m" using b(2) assms(1) by (cases "bit_length m") auto
    from b(1) assms(2) have "(2::nat) ^ (bit_length m - 1) < 2 ^ 53" by (rule le_less_trans)
    then have "bit_length m - 1 < 53" by (rule nat_power_less_imp_less [rotated]) simp
    then show "bit_length m \<le> 53" by simp
  qed
  let ?q = "m * 2 ^ (53 - bit_length m)" and ?k = "1021 + bit_length m"
  have "(2::nat) ^ (bit_length m - 1) * 2 ^ (53 - bit_length m) = 2 ^ 52"
    using l by (simp flip: power_add)
  with b(1) have "2 ^ 52 \<le> ?q" by (metis mult_le_mono1)
  moreover have "(2::nat) ^ bit_length m * 2 ^ (53 - bit_length m) = 2 ^ 53"
    using l by (simp flip: power_add)
  with b(2) have "?q < 2 ^ 53" by (metis mult_less_mono1 zero_less_numeral zero_less_power)
  moreover have "?k < 2046" using l by simp
  moreover have "m * one_steps = ?q * 2 ^ ?k"
  proof -
    have "53 - bit_length m + ?k = 1074" using l by simp
    then have "one_steps = 2 ^ (53 - bit_length m + ?k)" by (simp only: one_steps_def)
    then show ?thesis by (simp only: power_add mult.assoc)
  qed
  ultimately show thesis by (rule that)
qed

lemma f64_zero: "f64_of_int 0 = 0"
  by (simp add: f64_of_int_def f64_of_steps_def round_steps_def bit_length.simps Let_def)

lemma f64_of_small:
  assumes "m < 2 ^ 53"
  shows "f64_steps (f64_of_int (int m)) = int m * int one_steps"
    and "\<not> f64_negative (f64_of_int (int m))" and "f64_exponent (f64_of_int (int m)) \<noteq> 2047"
proof -
  have "f64_steps (f64_of_int (int m)) = int m * int one_steps \<and> \<not> f64_negative (f64_of_int (int m))
      \<and> f64_exponent (f64_of_int (int m)) \<noteq> 2047"
  proof (cases "m = 0")
    case True
    then show ?thesis
      by (simp add: f64_zero f64_steps_def f64_negative_def f64_magnitude_def f64_exponent_def f64_fraction_def)
  next
    case False
    with assms obtain q k where q: "2 ^ 52 \<le> q" "q < 2 ^ 53" "k < 2046" "m * one_steps = q * 2 ^ k"
      using small_integer_steps by blast
    have i: "f64_of_int (int m) = f64_of_steps False (q * 2 ^ k)"
      by (simp only: f64_of_int_def abs_of_nat nat_int q(4)) simp
    have "int m * int one_steps = int (q * 2 ^ k)" by (simp only: q(4) [symmetric]) simp
    with exact_double [OF q(1-3)] q(3) show ?thesis by (simp add: i f64_steps_def)
  qed
  then show "f64_steps (f64_of_int (int m)) = int m * int one_steps"
    "\<not> f64_negative (f64_of_int (int m))" "f64_exponent (f64_of_int (int m)) \<noteq> 2047" by simp_all
qed

lemma f64_add_small:
  assumes "a + b < 2 ^ 53"
  shows "f64_add (f64_of_int (int a)) (f64_of_int (int b)) = f64_of_int (int (a + b))"
proof -
  have l: "a < 2 ^ 53" "b < 2 ^ 53" using assms by simp_all
  note s = f64_of_small [OF l(1)] f64_of_small [OF l(2)]
  have sum: "f64_steps (f64_of_int (int a)) + f64_steps (f64_of_int (int b)) = int (a + b) * int one_steps"
    by (simp only: s of_nat_add distrib_right)
  show ?thesis
  proof (cases "a + b = 0")
    case True
    with s sum show ?thesis by (simp add: f64_add_def f64_nan_def f64_infinite_def f64_zero)
  next
    case False
    define S where "S = int (a + b) * int one_steps"
    have "0 < int (a + b)" using False by linarith
    then have S: "0 < S" unfolding S_def by (rule mult_pos_pos) simp
    have "nat \<bar>S\<bar> = nat \<bar>int (a + b)\<bar> * one_steps"
      unfolding S_def abs_mult by (subst nat_mult_distrib) simp_all
    then have i: "f64_of_int (int (a + b)) = f64_of_steps False (nat \<bar>S\<bar>)" by (simp only: f64_of_int_def) simp
    show ?thesis using S s(3,6) unfolding i
      by (simp add: f64_add_def f64_nan_def f64_infinite_def sum S_def [symmetric] del: of_nat_add)
  qed
qed

lemma f64_sum_small:
  "a + sum_list ms < 2 ^ 53 \<Longrightarrow> foldl f64_add (f64_of_int (int a)) (map (f64_of_int \<circ> int) ms) = f64_of_int (int (a + sum_list ms))"
proof (induction ms arbitrary: a)
  case (Cons m ms)
  then have "a + m < 2 ^ 53" "(a + m) + sum_list ms < 2 ^ 53" by simp_all
  with Cons.IH [of "a + m"] f64_add_small [of a m] show ?case by (simp add: add.assoc)
qed simp

end
