(* ===== verification/Daemon_Builtin.thy ===== *)
theory Daemon_Builtin
  imports Daemon_Registry External Rust_Text Rust_Float
begin

text \<open>
  The built-in tools, resources and prompt of the daemon, \<open>builtin_registry\<close> of \<open>ohmcpd/src/tools.rs\<close>.
  Each handler is the function of its arguments that the source registers; string literals that
  are not ASCII are written as their code points.
\<close>

section \<open>Results and schemas\<close>

definition text_result :: "string \<Rightarrow> call_tool_result" where
  "text_result t = \<lparr>ctr_content = [Text t], is_error = False\<rparr>"

text \<open>The argument of a tool, or its default.\<close>

definition str_arg :: "string \<Rightarrow> string \<Rightarrow> json \<Rightarrow> string" where
  "str_arg field other args = (case Option.bind (json_get field args) as_str of Some s \<Rightarrow> s | None \<Rightarrow> other)"

definition u64_arg :: "string \<Rightarrow> nat \<Rightarrow> json \<Rightarrow> nat" where
  "u64_arg field other args = (case Option.bind (json_get field args) as_u64 of Some n \<Rightarrow> unat n | None \<Rightarrow> other)"

definition object_schema :: "(string \<times> json) list \<Rightarrow> json" where
  "object_schema props = to_value (JObj [(''type'', JStr ''object''), (''properties'', JObj props)])"

text \<open>\<open>Value::to_string\<close>.\<close>

definition json_text :: "ext \<Rightarrow> json \<Rightarrow> string" where
  "json_text x v = from_bytes (to_vec x v)"

section \<open>The tools\<close>

definition echo_tool :: "json \<Rightarrow> call_tool_result" where
  "echo_tool args = text_result (str_arg ''msg'' '''' args)"

definition search_paragraph :: "string \<Rightarrow> nat \<Rightarrow> string" where
  "search_paragraph query i =
      ''[doc-'' @ show_dec i @ ''] '' @ utf8 [0x5173, 0x4E8E, 0x300C] @ query @
      utf8 [0x300D, 0x7684, 0x68C0, 0x7D22, 0x7ED3, 0x679C, 0xFF1A] @ ''OpenHarmony '' @
      utf8 [0x662F, 0x9762, 0x5411, 0x4E07, 0x7269, 0x667A, 0x8054, 0x65F6, 0x4EE3, 0x7684, 0x5F00, 0x6E90, 0x64CD,
        0x4F5C, 0x7CFB, 0x7EDF, 0xFF0C, 0x652F, 0x6301, 0x5206, 0x5E03, 0x5F0F, 0x8F6F, 0x603B, 0x7EBF, 0x3001,
        0x8DE8, 0x8BBE, 0x5907, 0x534F, 0x540C, 0x4E0E, 0x7EDF, 0x4E00, 0x751F, 0x6001, 0x3002, 0x672C, 0x7247,
        0x6BB5, 0x4E3A, 0x77E5, 0x8BC6, 0x5E93, 0x4E2D, 0x4E0E, 0x67E5, 0x8BE2, 0x76F8, 0x5173, 0x7684, 0x6587,
        0x6863, 0x5185, 0x5BB9, 0xFF0C, 0x6BB5, 0x843D, 0x7F16, 0x53F7] @
      '' '' @ show_dec i @
      utf8 [0xFF0C, 0x5305, 0x542B, 0x80CC, 0x666F, 0x4ECB, 0x7ECD, 0x3001, 0x63A5, 0x53E3, 0x8BF4, 0x660E, 0x4E0E,
        0x793A, 0x4F8B, 0x4EE3, 0x7801, 0x3002] @
      [CHR 0x0A]"

definition search_text :: "string \<Rightarrow> nat \<Rightarrow> string" where
  "search_text query top_k = fold (\<lambda>i out. out @ search_paragraph query i) [0..<top_k] []"

definition kb_search :: "json \<Rightarrow> call_tool_result" where
  "kb_search args = text_result (search_text (str_arg ''query'' '''' args) (u64_arg ''top_k'' 5 args))"

definition dump_paragraph :: "string \<Rightarrow> nat \<Rightarrow> string" where
  "dump_paragraph doc_id i =
      ''['' @ doc_id @ ''#'' @ show_dec i @ ''] OpenHarmony '' @
      utf8 [0x5206, 0x5E03, 0x5F0F, 0x8F6F, 0x603B, 0x7EBF, 0x63D0, 0x4F9B, 0x8BBE, 0x5907, 0x53D1, 0x73B0, 0x3001,
        0x8FDE, 0x63A5, 0x3001, 0x7EC4, 0x7F51, 0x4E0E, 0x4F20, 0x8F93, 0x80FD, 0x529B, 0xFF0C, 0x5E94, 0x7528,
        0x65E0, 0x9700, 0x5173, 0x5FC3, 0x5E95, 0x5C42, 0x901A, 0x4FE1, 0x7EC6, 0x8282, 0x5373, 0x53EF, 0x5B9E,
        0x73B0, 0x8DE8, 0x8BBE, 0x5907, 0x8C03, 0x7528, 0x3002, 0x672C, 0x6BB5, 0x4E3A, 0x6587, 0x6863, 0x6B63,
        0x6587, 0x7B2C] @
      '' '' @ show_dec i @ '' '' @
      utf8 [0x6BB5, 0xFF0C, 0x542B, 0x63A5, 0x53E3, 0x5B9A, 0x4E49, 0x3001, 0x53C2, 0x6570, 0x8BF4, 0x660E, 0x3001,
        0x9519, 0x8BEF, 0x7801, 0x8868, 0x4E0E, 0x793A, 0x4F8B, 0x4EE3, 0x7801, 0x7247, 0x6BB5, 0x3002] @
      [CHR 0x0A]"

lemma dump_paragraph_pos: "0 < length (dump_paragraph doc_id i)"
  by (simp add: dump_paragraph_def)

function dump_loop :: "string \<Rightarrow> nat \<Rightarrow> string \<Rightarrow> string" where
  "dump_loop doc_id i out =
     (if length out < 64 * 1024 then dump_loop doc_id (i + 1) (out @ dump_paragraph doc_id i) else out)"
  by pat_completeness auto

termination dump_loop
  using dump_paragraph_pos
  by (relation "measure (\<lambda>(doc_id, i, out). 64 * 1024 - length out)") (auto intro: diff_less_mono2)

declare dump_loop.simps [simp del]

definition kb_dump :: "json \<Rightarrow> call_tool_result" where
  "kb_dump args = text_result (dump_loop (str_arg ''doc_id'' ''0'' args) 0 [])"

definition blob_paragraph :: "nat \<Rightarrow> nat \<Rightarrow> string" where
  "blob_paragraph seed i =
      ''[blob#'' @ show_dec seed @ '':'' @ show_dec i @ ''] OpenHarmony '' @ utf8 [0x6CDB, 0x5728] @ '' OS '' @
      utf8 [0x539F, 0x751F] @ '' MCP '' @ utf8 [0x5927] @ '' payload '' @
      utf8 [0x4F20, 0x8F93, 0x6837, 0x672C, 0x6BB5, 0x843D, 0xFF0C, 0x542B, 0x63A5, 0x53E3, 0x5B9A, 0x4E49, 0x3001,
        0x53C2, 0x6570, 0x8BF4, 0x660E, 0x4E0E, 0x793A, 0x4F8B, 0x4EE3, 0x7801, 0xFF0C, 0x7528, 0x4E8E, 0x8861,
        0x91CF, 0x5171, 0x4EAB, 0x5185, 0x5B58, 0x901A, 0x9053, 0x968F, 0x8D1F, 0x8F7D, 0x6269, 0x5C55, 0x6027,
        0x3002] @
      [CHR 0x0A]"

lemma blob_paragraph_pos: "0 < length (blob_paragraph seed i)"
  by (simp add: blob_paragraph_def)

function blob_loop :: "nat \<Rightarrow> nat \<Rightarrow> nat \<Rightarrow> string \<Rightarrow> string" where
  "blob_loop sz seed i out =
     (if length out < sz then blob_loop sz seed (i + 1) (out @ blob_paragraph seed i) else out)"
  by pat_completeness auto

termination blob_loop
  using blob_paragraph_pos
  by (relation "measure (\<lambda>(sz, seed, i, out). sz - length out)") (auto intro: diff_less_mono2)

declare blob_loop.simps [simp del]

text \<open>The first boundary from \<open>n\<close> on.\<close>

function cut_at :: "string \<Rightarrow> nat \<Rightarrow> nat" where
  "cut_at out n = (if n < length out \<and> \<not> is_char_boundary out n then cut_at out (n + 1) else n)"
  by pat_completeness auto

termination cut_at
  by (relation "measure (\<lambda>(out, n). length out - n)") auto

declare cut_at.simps [simp del]

definition blob_size :: "json \<Rightarrow> nat" where
  "blob_size args = max 1 (min 4096 (u64_arg ''size_kb'' 64 args)) * 1024"

definition blob_text :: "nat \<Rightarrow> nat \<Rightarrow> string ret" where
  "blob_text sz seed = (let out = blob_loop sz seed 0 [] in truncate_string (cut_at out sz) out)"

text \<open>A handler returns a result; that \<open>truncate\<close> does not panic is the property below.\<close>

definition kb_blob :: "json \<Rightarrow> call_tool_result" where
  "kb_blob args =
     (case blob_text (blob_size args) (u64_arg ''seed'' 0 args) of Ret t \<Rightarrow> text_result t | Panicked \<Rightarrow> text_result [])"

text \<open>0.42 is the double with these bits.\<close>

definition device_status :: "ext \<Rightarrow> json \<Rightarrow> call_tool_result" where
  "device_status x args = text_result (json_text x (to_value (JObj
     [(''device_id'', JStr (str_arg ''device_id'' ''local'' args)), (''cpu_load'', JFloat 0x3FDAE147AE147AE1),
      (''mem_free_mb'', JPos 1024), (''battery'', JPos 87), (''network'', JStr ''wifi'')])))"

text \<open>
  \<open>Value::as_f64\<close>, and the sum of an iterator: it starts from \<open>start\<close>, which is 0 or -0 depending on the
  version of the standard library. \<open>show\<close> is \<open>Display\<close> of a double.
\<close>

definition as_f64 :: "json \<Rightarrow> u64 option" where
  "as_f64 v = (case v of JPos n \<Rightarrow> Some (f64_of_int (int (unat n))) | JNeg i \<Rightarrow> Some (f64_of_int i)
     | JFloat w \<Rightarrow> Some w | _ \<Rightarrow> None)"

definition math_sum :: "(u64 \<Rightarrow> string) \<Rightarrow> u64 \<Rightarrow> json \<Rightarrow> call_tool_result" where
  "math_sum show start args = text_result (show
     (case Option.bind (json_get ''values'' args) as_array of
        Some vs \<Rightarrow> foldl f64_add start (List.map_filter as_f64 vs)
      | None \<Rightarrow> 0))"

section \<open>The prompt\<close>

definition summarize_prompt :: prompt where
  "summarize_prompt = \<lparr>prompt_name = ''summarize'', prompt_description = Some (utf8 [0x751F, 0x6210, 0x6587, 0x672C, 0x6458, 0x8981, 0x6307, 0x4EE4]),
     prompt_arguments = [\<lparr>pa_name = ''text'', pa_description = Some (utf8 [0x5F85, 0x6458, 0x8981, 0x7684, 0x539F, 0x6587]), pa_required = True\<rparr>]\<rparr>"

definition summarize :: "json \<Rightarrow> get_prompt_result" where
  "summarize args = \<lparr>gp_description = Some (utf8 [0x6458, 0x8981, 0x6307, 0x4EE4]),
     gp_messages = [\<lparr>pm_role = ''user'', pm_content = Text
      (utf8 [0x8BF7, 0x7528, 0x4E09, 0x53E5, 0x8BDD, 0x4EE5, 0x5185, 0x603B, 0x7ED3, 0x4EE5, 0x4E0B, 0x5185, 0x5BB9,
          0xFF1A] @
        [CHR 0x0A] @ str_arg ''text'' '''' args)\<rparr>]\<rparr>"

section \<open>The registry\<close>

definition builtin_registry :: "ext \<Rightarrow> (u64 \<Rightarrow> string) \<Rightarrow> u64 \<Rightarrow> tool_registry" where
  "builtin_registry x show start = fold id
     [register ''echo'' (utf8 [0x56DE, 0x663E, 0x8F93, 0x5165, 0x6D88, 0x606F]) (object_schema [(''msg'', JObj [(''type'', JStr ''string'')])]) False echo_tool,
      register ''kb.search'' (utf8 [0x77E5, 0x8BC6, 0x5E93, 0x68C0, 0x7D22, 0xFF0C, 0x8FD4, 0x56DE, 0x6587, 0x6863, 0x7247, 0x6BB5])
        (object_schema [(''query'', JObj [(''type'', JStr ''string'')]), (''top_k'', JObj [(''type'', JStr ''integer'')])]) True kb_search,
      register ''kb.dump'' (utf8 [0x62C9, 0x53D6, 0x6574, 0x7BC7, 0x77E5, 0x8BC6, 0x5E93, 0x6587, 0x6863]) (object_schema [(''doc_id'', JObj [(''type'', JStr ''string'')])]) True kb_dump,
      register ''kb.blob'' (utf8 [0x751F, 0x6210, 0x6307, 0x5B9A, 0x5927, 0x5C0F, 0x7684, 0x8D1F, 0x8F7D, 0xFF08] @ ''size_kb '' @
        utf8 [0x5343, 0x5B57, 0x8282, 0xFF09])
        (object_schema [(''size_kb'', JObj [(''type'', JStr ''integer'')]), (''seed'', JObj [(''type'', JStr ''integer'')])]) False kb_blob,
      register ''device.status'' (utf8 [0x67E5, 0x8BE2, 0x8BBE, 0x5907, 0x8D44, 0x6E90, 0x72B6, 0x6001]) (object_schema [(''device_id'', JObj [(''type'', JStr ''string'')])]) True (device_status x),
      register ''math.sum'' (utf8 [0x5BF9, 0x6570, 0x7EC4, 0x6C42, 0x548C])
        (object_schema [(''values'', JObj [(''type'', JStr ''array''), (''items'', JObj [(''type'', JStr ''number'')])])]) False (math_sum show start),
      register_resource ''ohmcp://docs/protocol'' (utf8 [0x534F, 0x8BAE, 0x8BF4, 0x660E]) ''text/markdown''
        (''# ohmcp '' @ utf8 [0x534F, 0x8BAE] @ [CHR 0x0A] @ utf8 [0x4E8C, 0x8FDB, 0x5236, 0x5E27] @ '' + LZ4 '' @
        utf8 [0x538B, 0x7F29] @ '' + ChaCha20-Poly1305 '' @ utf8 [0x52A0, 0x5BC6, 0x7684, 0x539F, 0x751F] @ '' MCP '' @
        utf8 [0x4F20, 0x8F93, 0x3002]),
      register_resource ''ohmcp://device/profile'' (utf8 [0x8BBE, 0x5907, 0x753B, 0x50CF]) ''application/json''
        ''{\"os\":\"OpenHarmony\",\"kernel\":\"linux\",\"arch\":\"aarch64\"}'',
      register_prompt summarize_prompt summarize]
     registry_new"

end
