(* ===== verification/Builtin_Correct.thy ===== *)
theory Builtin_Correct
  imports Daemon_Builtin
begin

text \<open>What the built-in tools return: how long their texts are, and what the registry lists and serves.\<close>

section \<open>Lengths\<close>

lemma length_show_dec: "n < 10 ^ k \<Longrightarrow> 0 < k \<Longrightarrow> length (show_dec n) \<le> k"
proof (induction k arbitrary: n)
  case (Suc k)
  show ?case
  proof (cases "n < 10")
    case True
    then show ?thesis by (simp add: show_dec.simps)
  next
    case False
    with Suc.prems have "0 < k" by (cases k) auto
    moreover have "n div 10 < 10 ^ k" using Suc.prems by (simp add: div_less_iff_less_mult)
    ultimately have "length (show_dec (n div 10)) \<le> k" by (rule Suc.IH [rotated])
    with False show ?thesis by (simp add: show_dec.simps [of n])
  qed
qed simp

lemma length_dump_paragraph: "length (dump_paragraph doc_id i) = length doc_id + 2 * length (show_dec i) + 256"
  by (simp add: dump_paragraph_def utf8_def utf8_char_def)

lemma length_search_paragraph: "length (search_paragraph query i) = length query + 2 * length (show_dec i) + 285"
  by (simp add: search_paragraph_def utf8_def utf8_char_def)

lemma search_text_Suc: "search_text query (Suc k) = search_text query k @ search_paragraph query k"
  by (simp add: search_text_def)

lemma show_dec_pos: "0 < length (show_dec n)"
  by simp

lemma length_search_text: "k * (length query + 287) \<le> length (search_text query k)"
proof (induction k)
  case (Suc k)
  have "length query + 287 \<le> length (search_paragraph query k)"
    using show_dec_pos [of k] unfolding length_search_paragraph by linarith
  with Suc show ?case by (simp add: search_text_Suc)
qed simp

text \<open>The loop of \<open>kb.dump\<close> stops with the first paragraph that reaches the size.\<close>

lemma length_dump_loop:
  "length out < 64 * 1024 \<Longrightarrow> i \<le> length out \<Longrightarrow>
    \<exists>j < 64 * 1024. 64 * 1024 \<le> length (dump_loop doc_id i out)
      \<and> length (dump_loop doc_id i out) < 64 * 1024 + length (dump_paragraph doc_id j)"
proof (induction doc_id i out rule: dump_loop.induct)
  case (1 doc_id i out)
  let ?out = "out @ dump_paragraph doc_id i"
  have step: "dump_loop doc_id i out = dump_loop doc_id (i + 1) ?out"
    using 1(2) by (simp add: dump_loop.simps [of doc_id i out])
  show ?case
  proof (cases "length ?out < 64 * 1024")
    case True
    moreover have "i + 1 \<le> length ?out" using 1(3) dump_paragraph_pos [of doc_id i] by (simp del: length_greater_0_conv)
    ultimately show ?thesis using 1(1) [OF 1(2)] unfolding step by blast
  next
    case False
    then have "dump_loop doc_id (i + 1) ?out = ?out" by (simp add: dump_loop.simps [of _ _ ?out])
    with False 1(2,3) show ?thesis unfolding step by (intro exI [of _ i]) auto
  qed
qed

lemma dump_size:
  "64 * 1024 \<le> length (dump_loop doc_id 0 []) \<and> length (dump_loop doc_id 0 []) < 64 * 1024 + length doc_id + 266"
proof -
  obtain j where j: "j < 64 * 1024" "64 * 1024 \<le> length (dump_loop doc_id 0 [])"
    "length (dump_loop doc_id 0 []) < 64 * 1024 + length (dump_paragraph doc_id j)"
    using length_dump_loop [of "[]" 0 doc_id] by auto
  from j(1) have "length (show_dec j) \<le> 5" by (intro length_show_dec) simp_all
  with j(2,3) show ?thesis by (simp add: length_dump_paragraph)
qed

section \<open>Texts\<close>

lemma blob_paragraph_valid: "utf8_valid (blob_paragraph seed i)"
  unfolding blob_paragraph_def
  by (intro utf8_valid_append show_dec_valid; (rule utf8_valid_utf8, simp add: is_scalar_def | rule ascii_valid, simp add: ascii_def))

lemma blob_loop_text:
  "utf8_valid out \<Longrightarrow> utf8_valid (blob_loop sz seed i out) \<and> sz \<le> length (blob_loop sz seed i out)"
proof (induction sz seed i out rule: blob_loop.induct)
  case (1 sz seed i out)
  then show ?case
    using utf8_valid_append [OF _ blob_paragraph_valid] by (subst (1 2) blob_loop.simps) simp
qed

lemma cut_at_boundary:
  "n \<le> m \<Longrightarrow> m \<le> length s \<Longrightarrow> is_char_boundary s m \<Longrightarrow>
    n \<le> cut_at s n \<and> cut_at s n \<le> m \<and> is_char_boundary s (cut_at s n)"
proof (induction s n rule: cut_at.induct)
  case (1 s n)
  show ?case
  proof (cases "n < length s \<and> \<not> is_char_boundary s n")
    case True
    with 1(4) have "n \<noteq> m" by blast
    with 1 True have "n + 1 \<le> cut_at s (n + 1) \<and> cut_at s (n + 1) \<le> m \<and> is_char_boundary s (cut_at s (n + 1))" by simp
    moreover have "cut_at s n = cut_at s (n + 1)" using True by (simp add: cut_at.simps [of s n])
    ultimately show ?thesis by simp
  next
    case False
    with 1(2,3) have "is_char_boundary s n" by (auto simp: is_char_boundary_def)
    moreover have "cut_at s n = n" using False by (subst cut_at.simps) auto
    ultimately show ?thesis using 1(2) by simp
  qed
qed

lemma object_schema_value: "is_value (object_schema props)"
  unfolding object_schema_def by (rule to_value_is_value)

section \<open>Sums\<close>

text \<open>Negative zero.\<close>

lemma f64_add_neg_zero:
  assumes "m < 2 ^ 53"
  shows "f64_add 0x8000000000000000 (f64_of_int (int m)) = f64_of_int (int m)"
proof -
  note s = f64_of_small [OF assms]
  have z: "f64_steps 0x8000000000000000 = 0" "f64_negative 0x8000000000000000" "f64_exponent 0x8000000000000000 = 0"
    by (simp_all add: f64_steps_def f64_magnitude_def f64_negative_def f64_exponent_def f64_fraction_def)
  have "f64_add 0x8000000000000000 (f64_of_int (int m)) = f64_add (f64_of_int (int 0)) (f64_of_int (int m))"
    using s z f64_of_small [of 0] by (simp add: f64_add_def f64_nan_def f64_infinite_def)
  with f64_add_small [of 0 m] assms show ?thesis by simp
qed

lemma integer_arguments:
  "List.map_filter as_f64 (map JPos ns) = map (f64_of_int \<circ> int) (map unat ns)"
  by (induction ns) (simp_all add: List.map_filter_def as_f64_def)

section \<open>Properties\<close>

text \<open>\<open>kb.blob\<close> returns a text of the size asked for: the number of kilobytes, brought into the range from 1
  to 4096, and at most three bytes more, because the cut moves to the next character boundary. The
  text is whole UTF-8 characters and \<open>truncate\<close> does not panic.\<close>

lemma blob_has_the_size_asked_for:
  "\<exists>t. kb_blob args = text_result t \<and> blob_text (blob_size args) (u64_arg ''seed'' 0 args) = Ret t
    \<and> blob_size args \<le> length t \<and> length t \<le> blob_size args + 3 \<and> utf8_valid t
    \<and> 1024 \<le> blob_size args \<and> blob_size args \<le> 4 * 1024 * 1024"
proof -
  let ?seed = "u64_arg ''seed'' 0 args" and ?n = "blob_size args"
  let ?out = "blob_loop ?n ?seed 0 []"
  from blob_loop_text [OF utf8_valid_Nil] have out: "utf8_valid ?out" "?n \<le> length ?out" by simp_all
  from boundary_near [OF this] obtain k where k: "k \<le> 3" "?n + k \<le> length ?out" "is_char_boundary ?out (?n + k)" by blast
  from cut_at_boundary [OF le_add1 k(2,3)] have
    cut: "?n \<le> cut_at ?out ?n" "cut_at ?out ?n \<le> ?n + k" "is_char_boundary ?out (cut_at ?out ?n)" by simp_all
  let ?t = "take (cut_at ?out ?n) ?out"
  have b: "blob_text ?n ?seed = Ret ?t"
    using cut k(2) by (simp add: blob_text_def truncate_string_def Let_def)
  moreover have "kb_blob args = text_result ?t" by (simp add: kb_blob_def b)
  moreover have "?n \<le> length ?t" "length ?t \<le> ?n + 3" using cut k(1,2) by simp_all
  moreover have "utf8_valid ?t" by (rule take_valid [OF out(1) cut(3)])
  moreover have "1024 \<le> ?n" "?n \<le> 4 * 1024 * 1024" by (auto simp: blob_size_def)
  ultimately show ?thesis by blast
qed

text \<open>The loops of the text generators end, with these sizes: a dump has at least 64 KiB and stops within one
  paragraph of it; a search has a paragraph of at least 287 bytes for each of the \<open>top_k\<close> results,
  and \<open>top_k\<close> is any 64-bit number the client sends: a number of 2^18 passes the limit of a frame.\<close>

lemma generated_text_sizes:
  "kb_dump args = text_result dump \<Longrightarrow> kb_search args = text_result found \<Longrightarrow>
    64 * 1024 \<le> length dump \<and> length dump < 64 * 1024 + length (str_arg ''doc_id'' ''0'' args) + 266
    \<and> u64_arg ''top_k'' 5 args * (length (str_arg ''query'' '''' args) + 287) \<le> length found
    \<and> (2 ^ 18 \<le> u64_arg ''top_k'' 5 args \<longrightarrow> 64 * 1024 * 1024 < length found)"
proof -
  assume "kb_dump args = text_result dump" "kb_search args = text_result found"
  then have d: "dump = dump_loop (str_arg ''doc_id'' ''0'' args) 0 []"
    and f: "found = search_text (str_arg ''query'' '''' args) (u64_arg ''top_k'' 5 args)"
    by (simp_all add: kb_dump_def kb_search_def text_result_def)
  have s: "u64_arg ''top_k'' 5 args * (length (str_arg ''query'' '''' args) + 287) \<le> length found"
    unfolding f by (rule length_search_text)
  have "64 * 1024 * 1024 < length found" if "2 ^ 18 \<le> u64_arg ''top_k'' 5 args"
  proof -
    have "2 ^ 18 * 287 \<le> u64_arg ''top_k'' 5 args * (length (str_arg ''query'' '''' args) + 287)"
      using that by (intro mult_le_mono) simp_all
    with s show ?thesis by simp
  qed
  with s dump_size [of "str_arg ''doc_id'' ''0'' args"] show ?thesis unfolding d by blast
qed

text \<open>\<open>math.sum\<close> is exact on whole numbers: while the total stays below 2^53, the double it computes is the
  sum, so that the text is its decimal form, whether the standard library starts a sum at 0 or at
  -0; an empty list or none at all gives the text of the start and of 0.\<close>

lemma math_sum_is_exact:
  assumes "\<And>n. n < 2 ^ 53 \<Longrightarrow> show (f64_of_int (int n)) = show_dec n"
    and "json_get ''values'' args = Some (JArr (map JPos ns))" "sum_list (map unat ns) < 2 ^ 53"
    and "start = 0 \<or> start = 0x8000000000000000 \<and> ns \<noteq> []"
  shows "math_sum show start args = text_result (show_dec (sum_list (map unat ns)))"
proof -
  let ?ms = "map unat ns"
  have "foldl f64_add start (map (f64_of_int \<circ> int) ?ms) = f64_of_int (int (sum_list ?ms))"
    using assms(4)
  proof
    assume "start = 0"
    with f64_sum_small [of 0 ?ms] assms(3) show ?thesis by (simp add: f64_zero)
  next
    assume s: "start = 0x8000000000000000 \<and> ns \<noteq> []"
    then obtain m ms where m: "?ms = m # ms" by (cases "?ms") auto
    with assms(3) have "m + sum_list ms < 2 ^ 53" "m < 2 ^ 53" by simp_all
    with s f64_add_neg_zero [of m] f64_sum_small [of m ms] show ?thesis by (simp add: m)
  qed
  with assms(1) [OF assms(3)] show ?thesis
    by (simp add: math_sum_def assms(2) integer_arguments del: map_map)
qed


end
