(* ===== verification/Daemon_Main.thy ===== *)
theory Daemon_Main
  imports Daemon_Server Builtin_Correct
begin

text \<open>
  Starting the daemon: the command line of \<open>ohmcpd/src/main.rs\<close>, the configuration and the start of
  \<open>run_with\<close> in \<open>ohmcpd/src/server.rs\<close>.
\<close>

section \<open>Configuration\<close>

text \<open>The grace period is in nanoseconds.\<close>

record server_config =
  max_connections :: nat
  shutdown_grace :: nat

definition config_default :: server_config where
  "config_default = \<lparr>max_connections = 256, shutdown_grace = 5 * 10 ^ 9\<rparr>"

section \<open>The command line\<close>

text \<open>\<open>Iterator::position\<close>.\<close>

fun position :: "('a \<Rightarrow> bool) \<Rightarrow> 'a list \<Rightarrow> nat option" where
  "position P [] = None"
| "position P (a # as) = (if P a then Some 0 else map_option Suc (position P as))"

definition parse_arg :: "string list \<Rightarrow> string \<Rightarrow> string option" where
  "parse_arg args name =
     (case position (\<lambda>a. a = name) args of
        None \<Rightarrow> None
      | Some i \<Rightarrow> if i + 1 < length args then Some (args ! (i + 1)) else None)"

definition DEFAULT_SOCKET_PATH :: string where
  "DEFAULT_SOCKET_PATH = ''/tmp/ohmcpd.sock''"

definition socket_arg :: "string list \<Rightarrow> string" where
  "socket_arg args = (case parse_arg args ''--socket'' of Some s \<Rightarrow> s | None \<Rightarrow> DEFAULT_SOCKET_PATH)"

definition token_arg :: "string list \<Rightarrow> bytes option" where
  "token_arg args = map_option as_bytes (parse_arg args ''--token'')"

definition config_arg :: "string list \<Rightarrow> server_config" where
  "config_arg args =
     (case Option.bind (parse_arg args ''--max-conns'') parse_usize of
        Some n \<Rightarrow> config_default\<lparr>max_connections := n\<rparr>
      | None \<Rightarrow> config_default)"

section \<open>Start\<close>

text \<open>
  The state in which the accept loop starts. \<open>Semaphore::new\<close> of tokio panics above
  \<open>Semaphore::MAX_PERMITS\<close>, which is \<open>usize::MAX >> 3\<close>.
\<close>

definition MAX_PERMITS :: nat where "MAX_PERMITS = (2 ^ 64 - 1) div 8"

definition run_with :: "bytes option \<Rightarrow> tool_registry \<Rightarrow> server_config \<Rightarrow> server ret" where
  "run_with token reg config =
     (if max_connections config \<le> MAX_PERMITS then Ret (server_new token reg (max_connections config)) else Panicked)"

text \<open>\<open>run\<close>: the default configuration and a shutdown signal that never comes.\<close>

definition run_default :: "bytes option \<Rightarrow> tool_registry \<Rightarrow> server ret" where
  "run_default token reg = run_with token reg config_default"

definition daemon_main :: "ext \<Rightarrow> (u64 \<Rightarrow> string) \<Rightarrow> u64 \<Rightarrow> string list \<Rightarrow> server ret" where
  "daemon_main x show start args = run_with (token_arg args) (builtin_registry x show start) (config_arg args)"

section \<open>Arguments\<close>

lemma position_first:
  "name \<notin> set pre \<Longrightarrow> position (\<lambda>a. a = name) (pre @ name # post) = Some (length pre)"
  by (induction pre) auto

lemma position_None: "position P as = None \<longleftrightarrow> (\<forall>a \<in> set as. \<not> P a)"
  by (induction as) auto

lemma parse_arg_found: "name \<notin> set pre \<Longrightarrow> parse_arg (pre @ name # v # post) name = Some v"
  by (simp add: parse_arg_def position_first nth_append)

lemma parse_arg_absent: "name \<notin> set args \<Longrightarrow> parse_arg args name = None"
proof -
  assume "name \<notin> set args"
  then have "position (\<lambda>a. a = name) args = None" by (subst position_None) blast
  then show ?thesis by (simp add: parse_arg_def)
qed

section \<open>Properties\<close>

text \<open>The limit on the command line is the limit that is kept: a daemon started with \<open>--max-conns n\<close> never
  has more than \<open>n\<close> unfinished sessions, with anything that is not a number the limit is 256, and a
  number above the semaphore's maximum panics at the start. The token is the argument's own bytes.\<close>

lemma command_line_limit_is_kept:
  assumes "''--max-conns'' \<notin> set pre" "args = pre @ ''--max-conns'' # v # post"
    and "n = (case parse_usize v of Some m \<Rightarrow> m | None \<Rightarrow> 256)"
  shows "daemon_main x show start args
      = (if n \<le> MAX_PERMITS then Ret (server_new (token_arg args) (builtin_registry x show start) n) else Panicked)
    \<and> (server_reachable x (token_arg args) (builtin_registry x show start) n sv \<longrightarrow> sessions sv \<le> n)
    \<and> (m < 2 ^ 64 \<and> v = show_dec m \<longrightarrow> n = m)"
proof -
  have c: "max_connections (config_arg args) = n"
    using parse_arg_found [OF assms(1), of v post] assms(2,3)
    by (simp add: config_arg_def config_default_def split: option.split)
  have "sessions sv \<le> n" if "server_reachable x (token_arg args) (builtin_registry x show start) n sv"
    using server_reachable_permits [OF that] by linarith
  with c assms(3) parse_show_dec [of m] show ?thesis
    by (auto simp: daemon_main_def run_with_def)
qed

theorem command_line_limit_is_kept_witness:
  "daemon_main x show start [''ohmcpd'', ''--max-conns'', ''8'']
      = Ret (server_new None (builtin_registry x show start) 8)
   \<and> daemon_main x show start [''ohmcpd'', ''--max-conns'', ''8x'']
      = Ret (server_new None (builtin_registry x show start) 256)"
proof -
  have p: "parse_usize ''8'' = Some 8" "parse_usize ''8x'' = None"
    by (simp_all add: parse_usize_def digit_value_def)
  have t: "token_arg [''ohmcpd'', ''--max-conns'', ''8''] = None" "token_arg [''ohmcpd'', ''--max-conns'', ''8x''] = None"
    by (simp_all add: token_arg_def parse_arg_absent)
  have m: "8 \<le> MAX_PERMITS" "256 \<le> MAX_PERMITS" by (simp_all add: MAX_PERMITS_def)
  have pre: "''--max-conns'' \<notin> set [''ohmcpd'']" by simp
  have l: "daemon_main x show start [''ohmcpd'', ''--max-conns'', ''8''] = Ret (server_new None (builtin_registry x show start) 8)"
    using command_line_limit_is_kept [OF pre, of _ "''8''" "[]", OF _ refl] p t m by simp
  have "daemon_main x show start [''ohmcpd'', ''--max-conns'', ''8x''] = Ret (server_new None (builtin_registry x show start) 256)"
    using command_line_limit_is_kept [OF pre, of _ "''8x''" "[]", OF _ refl] p t m by simp
  with l show ?thesis by simp
qed

end
