(* ===== verification/Baseline.thy ===== *)
theory Baseline
  imports Daemon_Registry External
begin

text \<open>
  The JSON-RPC stack the benchmark compares with, \<open>ohmcp-bench/src/baseline.rs\<close>: one document per line,
  the server's handler and the client that dispatches answers by their id. The server runs the same
  tool registry. Bytes that are not UTF-8 are no document to \<open>from_slice\<close>.
\<close>

section \<open>Lines\<close>

text \<open>
  \<open>Lines::next_line\<close> on a stream that ends behind the given bytes: the line without its line feed
  and a carriage return in front of that, and what is left.
\<close>

definition next_line :: "bytes \<Rightarrow> (bytes \<times> bytes) option" where
  "next_line buf =
     (if buf = [] then None
      else let l = takeWhile (\<lambda>b. b \<noteq> 10) buf in
        case drop (length l) buf of
          [] \<Rightarrow> Some (l, [])
        | _ # rest \<Rightarrow> Some (if l \<noteq> [] \<and> last l = 13 then butlast l else l, rest))"

lemma next_line_shorter: "next_line buf = Some (l, rest) \<Longrightarrow> length rest < length buf"
proof -
  assume n: "next_line buf = Some (l, rest)"
  then have "buf \<noteq> []" by (auto simp: next_line_def)
  moreover have "length rest < length buf" if "drop n buf = y # rest" for n y
    using arg_cong [OF that, of length] by simp
  ultimately show ?thesis using n by (auto simp: next_line_def Let_def split: list.splits if_splits)
qed

function lines_of :: "bytes \<Rightarrow> bytes list" where
  "lines_of buf = (case next_line buf of None \<Rightarrow> [] | Some (l, rest) \<Rightarrow> l # lines_of rest)"
  by pat_completeness auto

termination lines_of
  by (relation "measure length") (auto intro: next_line_shorter)

declare lines_of.simps [simp del]

section \<open>Server\<close>

text \<open>The result of a request; \<open>None\<close> for a call of a tool that is not there.\<close>

definition baseline_result :: "tool_registry \<Rightarrow> json \<Rightarrow> json option" where
  "baseline_result reg req =
     (let field = (case Option.bind (json_get ''method'' req) as_str of Some s \<Rightarrow> s | None \<Rightarrow> '''') in
      if field = ''initialize'' then Some (to_value (JObj
        [(''protocolVersion'', JStr ''2025-06-18''),
         (''serverInfo'', JObj [(''name'', JStr ''baseline''), (''version'', JStr ''0.1.0'')]),
         (''capabilities'', JObj [(''tools'', JObj [])])]))
      else if field = ''tools/list'' then Some (to_value (JObj [(''tools'', JArr (map se_tool (reg_tools reg)))]))
      else if field = ''tools/call'' then
        (let params = (case json_get ''params'' req of Some v \<Rightarrow> v | None \<Rightarrow> JNull);
             name = (case Option.bind (json_get ''name'' params) as_str of Some s \<Rightarrow> s | None \<Rightarrow> '''');
             args = (case json_get ''arguments'' params of Some v \<Rightarrow> v | None \<Rightarrow> JNull)
         in map_option (\<lambda>r. to_value (se_call_tool_result r)) (call reg name args))
      else Some (JObj []))"

definition baseline_answer :: "tool_registry \<Rightarrow> json \<Rightarrow> json" where
  "baseline_answer reg req =
     (let i = (case json_get ''id'' req of Some v \<Rightarrow> v | None \<Rightarrow> JNull) in
      to_value (case baseline_result reg req of
        Some res \<Rightarrow> JObj [(''jsonrpc'', JStr ''2.0''), (''id'', i), (''result'', res)]
      | None \<Rightarrow> JObj [(''jsonrpc'', JStr ''2.0''), (''id'', i),
          (''error'', JObj [(''code'', se_i64 (-32601)), (''message'', JStr ''unknown tool'')])]))"

text \<open>A line that is no document ends the connection, after the answers so far.\<close>

fun handle_lines :: "ext \<Rightarrow> tool_registry \<Rightarrow> bytes list \<Rightarrow> bytes \<times> (string + unit)" where
  "handle_lines x reg [] = ([], Inr ())"
| "handle_lines x reg (l # ls) =
     (case from_slice x l of
        Inl e \<Rightarrow> ([], Inl e)
      | Inr v \<Rightarrow> (case handle_lines x reg ls of
          (out, r) \<Rightarrow> (to_vec x (baseline_answer reg (to_value v)) @ [10] @ out, r)))"

definition baseline_handle :: "ext \<Rightarrow> tool_registry \<Rightarrow> bytes \<Rightarrow> bytes \<times> (string + unit)" where
  "baseline_handle x reg buf = handle_lines x reg (lines_of buf)"

section \<open>Client\<close>

text \<open>
  The senders of \<open>pending\<close> are the ids in \<open>b_pending\<close>; an answer sent to one is in \<open>b_ready\<close> until its
  request takes it. \<open>b_reading\<close>: the background task still reads. \<open>b_out\<close> is what has been written.
\<close>

record baseline_client =
  b_pending :: "u64 set"
  b_ready :: "u64 \<rightharpoonup> json"
  b_next :: u64
  b_sent :: u64
  b_recv :: u64
  b_reading :: bool
  b_out :: bytes

definition baseline_new :: baseline_client where
  "baseline_new = \<lparr>b_pending = {}, b_ready = Map.empty, b_next = 1, b_sent = 0, b_recv = 0, b_reading = True, b_out = []\<rparr>"

definition baseline_request :: "u64 \<Rightarrow> string \<Rightarrow> json \<Rightarrow> json" where
  "baseline_request i method params =
     to_value (JObj [(''jsonrpc'', JStr ''2.0''), (''id'', JPos i), (''method'', JStr method), (''params'', params)])"

text \<open>Up to the write of \<open>request\<close>, which succeeds or fails.\<close>

definition baseline_send :: "ext \<Rightarrow> string \<Rightarrow> json \<Rightarrow> string option \<Rightarrow> baseline_client \<Rightarrow> (string + u64) \<times> baseline_client" where
  "baseline_send x method params err c =
     (let i = b_next c; line = to_vec x (baseline_request i method params) @ [10];
          c1 = c\<lparr>b_pending := insert i (b_pending c), b_next := i + 1, b_sent := b_sent c + word_of_nat (length line)\<rparr>
      in case err of Some e \<Rightarrow> (Inl e, c1) | None \<Rightarrow> (Inr i, c1\<lparr>b_out := b_out c @ line\<rparr>))"

text \<open>One line of the background task, and its end.\<close>

definition baseline_line :: "ext \<Rightarrow> bytes \<Rightarrow> baseline_client \<Rightarrow> baseline_client" where
  "baseline_line x l c =
     (if \<not> b_reading c then c
      else let c1 = c\<lparr>b_recv := b_recv c + word_of_nat (length l) + 1\<rparr> in
        case from_slice x l of
          Inl _ \<Rightarrow> c1\<lparr>b_reading := False\<rparr>
        | Inr v \<Rightarrow>
            (let i = (case Option.bind (json_get ''id'' (to_value v)) as_u64 of Some n \<Rightarrow> n | None \<Rightarrow> 0) in
             if i \<in> b_pending c1 then c1\<lparr>b_pending := b_pending c1 - {i}, b_ready := (b_ready c1)(i \<mapsto> to_value v)\<rparr>
             else c1))"

definition baseline_end :: "baseline_client \<Rightarrow> baseline_client" where
  "baseline_end c = c\<lparr>b_reading := False\<rparr>"

text \<open>The end of \<open>request\<close>: \<open>None\<close> while the answer has not come.\<close>

definition baseline_outcome :: "json \<Rightarrow> json + json" where
  "baseline_outcome resp =
     (case json_get ''error'' resp of
        Some err \<Rightarrow> if \<not> is_null err then Inl err
          else Inr (case json_get ''result'' resp of Some v \<Rightarrow> v | None \<Rightarrow> JNull)
      | None \<Rightarrow> Inr (case json_get ''result'' resp of Some v \<Rightarrow> v | None \<Rightarrow> JNull))"

definition baseline_take :: "u64 \<Rightarrow> baseline_client \<Rightarrow> (json + json) option \<times> baseline_client" where
  "baseline_take i c = (map_option baseline_outcome (b_ready c i), c\<lparr>b_ready := (b_ready c)(i := None)\<rparr>)"

definition baseline_call :: "ext \<Rightarrow> string \<Rightarrow> json \<Rightarrow> string option \<Rightarrow> baseline_client \<Rightarrow> (string + u64) \<times> baseline_client" where
  "baseline_call x name args err c =
     baseline_send x ''tools/call'' (to_value (JObj [(''name'', JStr name), (''arguments'', args)])) err c"

section \<open>Requests as lines\<close>

text \<open>A document that is one line and reads back: compact JSON has no line feed or carriage return.\<close>

definition one_line :: "ext \<Rightarrow> json \<Rightarrow> bool" where
  "one_line x v \<longleftrightarrow> from_slice x (to_vec x v) = Inr v \<and> 10 \<notin> set (to_vec x v) \<and> 13 \<notin> set (to_vec x v)"

lemma next_line_whole:
  assumes "10 \<notin> set l" "13 \<notin> set l"
  shows "next_line (l @ 10 # rest) = Some (l, rest)"
proof -
  have "takeWhile (\<lambda>b. b \<noteq> 10) (l @ 10 # rest) = l" using assms(1) by (subst takeWhile_append2) auto
  moreover have "\<not> (l \<noteq> [] \<and> last l = 13)" using assms(2) last_in_set by metis
  ultimately show ?thesis by (auto simp: next_line_def Let_def)
qed

lemma lines_of_Nil: "lines_of [] = []"
  by (simp add: lines_of.simps next_line_def)

lemma lines_of_whole:
  assumes "10 \<notin> set l" "13 \<notin> set l"
  shows "lines_of (l @ 10 # rest) = l # lines_of rest"
  using next_line_whole [OF assms] by (simp add: lines_of.simps [of "l @ 10 # rest"])

lemma lines_of_documents:
  "\<forall>v \<in> set vs. one_line x v \<Longrightarrow> lines_of (concat (map (\<lambda>v. to_vec x v @ [10]) vs)) = map (to_vec x) vs"
proof (induction vs)
  case (Cons v vs)
  then have "10 \<notin> set (to_vec x v)" "13 \<notin> set (to_vec x v)" by (simp_all add: one_line_def)
  with Cons show ?case by (simp add: lines_of_whole)
qed (simp add: lines_of_Nil)

lemma handle_documents:
  "\<forall>v \<in> set vs. one_line x v \<Longrightarrow> handle_lines x reg (map (to_vec x) vs)
    = (concat (map (\<lambda>v. to_vec x (baseline_answer reg (to_value v)) @ [10]) vs), Inr ())"
  by (induction vs) (simp_all add: one_line_def)

section \<open>Requests in flight\<close>

text \<open>Several requests are sent before an answer is read.\<close>

fun send_all :: "ext \<Rightarrow> (string \<times> json) list \<Rightarrow> baseline_client \<Rightarrow> baseline_client" where
  "send_all x [] c = c"
| "send_all x ((m, v) # reqs) c = send_all x reqs (snd (baseline_send x m v None c))"

text \<open>The documents they write, numbered from the first free id.\<close>

fun requests_from :: "u64 \<Rightarrow> (string \<times> json) list \<Rightarrow> json list" where
  "requests_from i [] = []"
| "requests_from i ((m, v) # reqs) = baseline_request i m v # requests_from (i + 1) reqs"

lemma requests_from_append:
  "requests_from i (reqs @ reqs') = requests_from i reqs @ requests_from (i + word_of_nat (length reqs)) reqs'"
  by (induction i reqs rule: requests_from.induct) (simp_all add: add.assoc)

lemma length_requests_from [simp]: "length (requests_from i reqs) = length reqs"
  by (induction i reqs rule: requests_from.induct) simp_all

lemma requests_from_nth:
  "k < length reqs \<Longrightarrow> requests_from i reqs ! k = baseline_request (i + word_of_nat k) (fst (reqs ! k)) (snd (reqs ! k))"
  by (induction i reqs arbitrary: k rule: requests_from.induct) (auto simp: nth_Cons' add.assoc algebra_simps of_nat_diff)

lemma send_all_effect:
  "send_all x reqs c = c\<lparr>b_pending := b_pending c \<union> (\<lambda>k. b_next c + word_of_nat k) ` {..<length reqs},
     b_next := b_next c + word_of_nat (length reqs),
     b_sent := b_sent c + word_of_nat (length (concat (map (\<lambda>v. to_vec x v @ [10]) (requests_from (b_next c) reqs)))),
     b_out := b_out c @ concat (map (\<lambda>v. to_vec x v @ [10]) (requests_from (b_next c) reqs))\<rparr>"
proof (induction x reqs c rule: send_all.induct)
  case (2 x m v reqs c)
  let ?i = "b_next c" and ?line = "to_vec x (baseline_request (b_next c) m v) @ [10]"
  let ?c = "c\<lparr>b_pending := insert ?i (b_pending c), b_next := ?i + 1, b_sent := b_sent c + word_of_nat (length ?line),
    b_out := b_out c @ ?line\<rparr>"
  have c: "snd (baseline_send x m v None c) = ?c" by (simp add: baseline_send_def Let_def)
  have "(\<lambda>k. ?i + word_of_nat k) ` {..<Suc (length reqs)} = insert ?i ((\<lambda>k. ?i + 1 + word_of_nat k) ` {..<length reqs})"
    unfolding lessThan_Suc_eq_insert_0 by (simp add: image_image add.assoc)
  then have p: "insert ?i (b_pending c) \<union> (\<lambda>k. ?i + 1 + word_of_nat k) ` {..<length reqs}
      = b_pending c \<union> (\<lambda>k. ?i + word_of_nat k) ` {..<Suc (length reqs)}" by blast
  have "send_all x ((m, v) # reqs) c = send_all x reqs ?c" by (simp only: send_all.simps c)
  also note 2 [unfolded c]
  finally show ?case
    by (intro baseline_client.equality) (use p in \<open>simp_all add: add.assoc\<close>)
qed simp

section \<open>Documents\<close>

lemma baseline_request_value [simp]: "to_value (baseline_request i m v) = baseline_request i m v"
  using to_value_is_value by (simp add: baseline_request_def is_value_def del: to_value.simps)

lemma baseline_answer_value [simp]: "to_value (baseline_answer reg req) = baseline_answer reg req"
  using to_value_is_value by (simp add: baseline_answer_def Let_def is_value_def del: to_value.simps)

lemma baseline_request_id: "json_get ''id'' (baseline_request i m v) = Some (JPos i)"
  by (simp add: baseline_request_def map_of_members_norm)

lemma baseline_answer_id:
  "json_get ''id'' (baseline_answer reg (baseline_request i m v)) = Some (JPos i)"
  by (simp add: baseline_answer_def Let_def baseline_request_id map_of_members_norm split: option.split)

lemma baseline_result_value: "baseline_result reg req = Some res \<Longrightarrow> to_value res = res"
  using to_value_is_value
  by (auto simp: baseline_result_def Let_def is_value_def to_value.simps(8) [of "[]"] members_norm_def
      simp del: to_value.simps(8) split: if_splits)

definition unknown_tool :: json where
  "unknown_tool = JObj [(''code'', se_i64 (-32601)), (''message'', JStr ''unknown tool'')]"

lemma baseline_answer_outcome:
  "baseline_outcome (baseline_answer reg req) = (case baseline_result reg req of Some res \<Rightarrow> Inr res | None \<Rightarrow> Inl unknown_tool)"
  using baseline_result_value [of reg req]
  by (simp add: baseline_outcome_def baseline_answer_def Let_def map_of_members_norm is_null_def unknown_tool_def
      members_norm_def se_i64_def split: option.split)

section \<open>The answers come back\<close>

text \<open>The client after the lines of the answers to the requests numbered from \<open>i\<close>.\<close>

definition answers :: "tool_registry \<Rightarrow> u64 \<Rightarrow> (string \<times> json) list \<Rightarrow> json list" where
  "answers reg i reqs = map (baseline_answer reg) (requests_from i reqs)"

lemma word_of_nat_pos: "0 < k \<Longrightarrow> k < 2 ^ 64 \<Longrightarrow> (word_of_nat k :: u64) \<noteq> 0"
  using unat_of_nat_u64 [of k] by fastforce

lemma answer_dispatched:
  assumes "one_line x (baseline_answer reg (baseline_request i m v))" "b_reading c" "i \<in> b_pending c"
  shows "baseline_line x (to_vec x (baseline_answer reg (baseline_request i m v))) c
    = c\<lparr>b_pending := b_pending c - {i}, b_ready := (b_ready c)(i \<mapsto> baseline_answer reg (baseline_request i m v)),
        b_recv := b_recv c + word_of_nat (length (to_vec x (baseline_answer reg (baseline_request i m v)) @ [10]))\<rparr>"
  using assms by (simp add: baseline_line_def one_line_def baseline_answer_id Let_def add.commute)

lemma answers_dispatched:
  assumes "\<forall>v \<in> set (answers reg i reqs). one_line x v" "b_reading c" "length reqs \<le> 2 ^ 64"
    and "\<forall>k < length reqs. i + word_of_nat k \<in> b_pending c"
    and "c' = fold (baseline_line x) (map (to_vec x) (answers reg i reqs)) c"
  shows "b_reading c' \<and> b_pending c' = b_pending c - (\<lambda>k. i + word_of_nat k) ` {..<length reqs}
    \<and> (\<forall>k < length reqs. b_ready c' (i + word_of_nat k) = Some (answers reg i reqs ! k))
    \<and> (\<forall>j. j \<notin> (\<lambda>k. i + word_of_nat k) ` {..<length reqs} \<longrightarrow> b_ready c' j = b_ready c j)
    \<and> b_recv c' = b_recv c + word_of_nat (length (concat (map (\<lambda>v. to_vec x v @ [10]) (answers reg i reqs))))"
  using assms
proof (induction i reqs arbitrary: c rule: requests_from.induct)
  case (1 i)
  then show ?case by (simp add: answers_def)
next
  case (2 i m v reqs)
  let ?a = "baseline_answer reg (baseline_request i m v)"
  have ans: "answers reg i ((m, v) # reqs) = ?a # answers reg (i + 1) reqs" by (simp add: answers_def)
  let ?c = "c\<lparr>b_pending := b_pending c - {i}, b_ready := (b_ready c)(i \<mapsto> ?a),
    b_recv := b_recv c + word_of_nat (length (to_vec x ?a @ [10]))\<rparr>"
  have i: "i \<in> b_pending c" using 2(5) by (auto dest: spec [of _ 0])
  have c: "baseline_line x (to_vec x ?a) c = ?c"
    using 2(2,3) i by (intro answer_dispatched) (simp_all add: ans)
  have shift: "i + 1 + word_of_nat k = i + word_of_nat (Suc k)" for k by (simp add: add.assoc)
  have new: "i + word_of_nat (Suc k) \<noteq> i" if "k < length reqs" for k
    using word_of_nat_pos [of "Suc k"] that 2(4) by simp
  have pend: "\<forall>k < length reqs. i + 1 + word_of_nat k \<in> b_pending ?c"
    using 2(5) new by (auto simp: shift simp del: of_nat_Suc)
  let ?ids = "(\<lambda>k. i + 1 + word_of_nat k) ` {..<length reqs}"
  have ids: "(\<lambda>k. i + word_of_nat k) ` {..<length ((m, v) # reqs)} = insert i ?ids"
    by (simp add: lessThan_Suc_eq_insert_0 image_image add.assoc)
  have out: "i \<notin> ?ids" using new by (auto simp: shift simp del: of_nat_Suc)
  have "c' = fold (baseline_line x) (map (to_vec x) (answers reg (i + 1) reqs)) ?c" using 2(6) by (simp add: ans c)
  from 2(1) [OF _ _ _ pend this] 2(2-4) have IH: "b_reading c'" "b_pending c' = b_pending c - {i} - ?ids"
    "\<forall>k < length reqs. b_ready c' (i + 1 + word_of_nat k) = Some (answers reg (i + 1) reqs ! k)"
    "\<forall>j. j \<notin> ?ids \<longrightarrow> b_ready c' j = ((b_ready c)(i \<mapsto> ?a)) j"
    "b_recv c' = b_recv c + word_of_nat (length (to_vec x ?a @ [10]))
      + word_of_nat (length (concat (map (\<lambda>v. to_vec x v @ [10]) (answers reg (i + 1) reqs))))"
    by (simp_all add: ans)
  have "b_ready c' (i + word_of_nat k) = Some (answers reg i ((m, v) # reqs) ! k)" if "k < Suc (length reqs)" for k
  proof (cases k)
    case 0
    with IH(4) out show ?thesis by (simp add: ans)
  next
    case (Suc l)
    with that IH(3) show ?thesis by (simp add: ans add.assoc)
  qed
  with IH(1,2,4,5) show ?case unfolding ids by (auto simp: ans)
qed

section \<open>A connection that has ended\<close>

text \<open>What can happen to a client: requests, lines, the end of the stream, and a request that takes its answer.\<close>

inductive baseline_step :: "ext \<Rightarrow> baseline_client \<Rightarrow> baseline_client \<Rightarrow> bool" for x where
  Sends: "baseline_send x m v err c = (r, c') \<Longrightarrow> baseline_step x c c'"
| Line: "baseline_step x c (baseline_line x l c)"
| Ends: "baseline_step x c (baseline_end c)"
| Takes: "baseline_take i c = (Some r, c') \<Longrightarrow> baseline_step x c c'"

lemma ended_baseline_step:
  "baseline_step x c c' \<Longrightarrow> \<not> b_reading c \<and> b_pending c \<noteq> {} \<and> b_ready c i = None
    \<Longrightarrow> \<not> b_reading c' \<and> b_pending c \<subseteq> b_pending c' \<and> b_ready c' i = None"
  by (induction rule: baseline_step.induct)
    (auto simp: baseline_send_def Let_def baseline_line_def baseline_end_def baseline_take_def split: option.splits)

lemma ended_baseline_steps:
  "rtranclp (baseline_step x) c c' \<Longrightarrow> \<not> b_reading c \<and> b_pending c \<noteq> {} \<and> b_ready c i = None
    \<Longrightarrow> \<not> b_reading c' \<and> b_pending c \<subseteq> b_pending c' \<and> b_ready c' i = None"
proof (induction rule: rtranclp_induct)
  case (step c1 c2)
  then have "\<not> b_reading c1 \<and> b_pending c1 \<noteq> {} \<and> b_ready c1 i = None" "b_pending c \<subseteq> b_pending c1" by auto
  with ended_baseline_step [OF step.hyps(2), of i] show ?case by auto
qed simp

section \<open>Properties\<close>


text \<open>Documents as their positions in a list, as lines.\<close>

definition line_docs :: "json list \<Rightarrow> ext" where
  "line_docs vs = sample_ext\<lparr>to_vec := (\<lambda>v. [65 + word_of_nat (length (takeWhile (\<lambda>u. u \<noteq> v) vs))]),
     from_slice := (\<lambda>b. case b of [i] \<Rightarrow> Inr (vs ! unat (i - 65)) | _ \<Rightarrow> Inl ''EOF'')\<rparr>"

lemma line_docs_one_line:
  assumes "v \<in> set vs" "length vs \<le> 64"
  shows "one_line (line_docs vs) v"
proof -
  have "takeWhile (\<lambda>u. u \<noteq> v) vs \<noteq> vs" using assms(1) set_takeWhileD by metis
  then have l: "length (takeWhile (\<lambda>u. u \<noteq> v) vs) < length vs"
    by (metis append_Nil2 length_append length_takeWhile_le nat_less_le takeWhile_dropWhile_id takeWhile_eq_take take_all_iff)
  then have v: "vs ! length (takeWhile (\<lambda>u. u \<noteq> v) vs) = v" using nth_length_takeWhile by blast
  define n where "n = length (takeWhile (\<lambda>u. u \<noteq> v) vs)"
  have n: "n < 64" "vs ! n = v" using l v assms(2) by (simp_all add: n_def)
  then have u: "unat (65 + word_of_nat n :: u8) = 65 + n" by (simp add: unat_word_ariths unat_of_nat)
  have "(65 + word_of_nat n :: u8) \<noteq> 10" "(65 + word_of_nat n :: u8) \<noteq> 13"
    by (rule notI, drule arg_cong [of _ _ unat], simp add: u)+
  with n show ?thesis by (simp add: one_line_def line_docs_def n_def [symmetric] unat_of_nat)
qed




text \<open>A request outlives its connection: once the background task has ended, because the stream ended or a
  line was no document, a request that still waits never returns, whatever else happens. The error
  for a closed connection is not reachable, for the client keeps the sender of every waiting request.\<close>

lemma baseline_request_hangs:
  assumes "\<not> b_reading c" "i \<in> b_pending c" "b_ready c i = None"
    and "rtranclp (baseline_step x) c c'"
  shows "i \<in> b_pending c' \<and> fst (baseline_take i c') = None"
  using ended_baseline_steps [OF assms(4), of i] assms(1-3) by (auto simp: baseline_take_def)

end
