(* ===== verification/Rust_Float_Ops.thy ===== *)
theory Rust_Float_Ops
  imports Rust_Float
begin

unbundle bit_operations_syntax

text \<open>
  What the benchmark uses of \<open>f64\<close>: division, multiplication and subtraction, correctly rounded as addition is, and
  \<open>partial_cmp\<close>.
\<close>

section \<open>Division\<close>

text \<open>The bits of the positive double nearest to \<open>n / d\<close> steps; with \<open>d = 1\<close> this is \<open>round_steps\<close>.\<close>

definition round_ratio :: "nat \<Rightarrow> nat \<Rightarrow> nat" where
  "round_ratio n d =
     (let k = bit_length (n div d) - 53; u = d * 2 ^ k; q = n div u; r = n mod u;
          up = (u < 2 * r \<or> u = 2 * r \<and> odd q)
      in min (k * 2 ^ 52 + q + (if up then 1 else 0)) (2047 * 2 ^ 52))"

definition f64_signed :: "bool \<Rightarrow> nat \<Rightarrow> u64" where
  "f64_signed neg bits = word_of_nat (bits + (if neg then 2 ^ 63 else 0))"

definition f64_div :: "u64 \<Rightarrow> u64 \<Rightarrow> u64" where
  "f64_div a b =
     (let neg = (f64_negative a \<noteq> f64_negative b) in
      if f64_nan a \<or> f64_nan b \<or> f64_infinite a \<and> f64_infinite b \<or> f64_magnitude a = 0 \<and> f64_magnitude b = 0
      then 0x7FF8000000000000
      else if f64_infinite a \<or> f64_magnitude b = 0 then f64_signed neg (2047 * 2 ^ 52)
      else if f64_infinite b then f64_signed neg 0
      else f64_signed neg (round_ratio (f64_magnitude a * one_steps) (f64_magnitude b)))"

definition f64_mul :: "u64 \<Rightarrow> u64 \<Rightarrow> u64" where
  "f64_mul a b =
     (let neg = (f64_negative a \<noteq> f64_negative b) in
      if f64_nan a \<or> f64_nan b \<or> f64_infinite a \<and> f64_magnitude b = 0 \<or> f64_magnitude a = 0 \<and> f64_infinite b
      then 0x7FF8000000000000
      else if f64_infinite a \<or> f64_infinite b then f64_signed neg (2047 * 2 ^ 52)
      else f64_signed neg (round_ratio (f64_magnitude a * f64_magnitude b) one_steps))"

definition f64_sub :: "u64 \<Rightarrow> u64 \<Rightarrow> u64" where
  "f64_sub a b = f64_add a (b XOR 0x8000000000000000)"

lemma round_ratio_one: "round_ratio n 1 = round_steps n"
  by (simp add: round_ratio_def round_steps_def Let_def)

lemma round_ratio_bound: "round_ratio n d \<le> 2047 * 2 ^ 52"
  by (simp add: round_ratio_def Let_def)

section \<open>Comparison\<close>

datatype ordering = Less | Equal | Greater

text \<open>The steps order all doubles but the NaNs, infinities included; the two zeros are equal.\<close>

definition f64_cmp :: "u64 \<Rightarrow> u64 \<Rightarrow> ordering option" where
  "f64_cmp a b =
     (if f64_nan a \<or> f64_nan b then None
      else Some (if f64_steps a < f64_steps b then Less else if f64_steps a = f64_steps b then Equal else Greater))"

section \<open>Quotients that are numbers\<close>

lemma f64_signed_number:
  assumes "bits \<le> 2047 * 2 ^ 52"
  shows "\<not> f64_nan (f64_signed neg bits)"
proof -
  let ?w = "f64_signed neg bits"
  have "bits + (if neg then 2 ^ 63 else 0) < 2 ^ 64" using assms by simp
  then have u: "unat ?w = bits + (if neg then 2 ^ 63 else 0)"
    by (simp add: f64_signed_def unat_of_nat_u64 del: of_nat_add)
  have s: "(2 :: nat) ^ 63 = 2048 * 2 ^ 52" by simp
  have m: "unat ?w mod 2 ^ 52 = bits mod 2 ^ 52"
    unfolding u s by (cases neg) (simp_all only: if_True if_False mod_mult_self1 add_0_right)
  have d: "unat ?w div 2 ^ 52 mod 2048 = bits div 2 ^ 52 mod 2048"
    unfolding u s by (cases neg) (simp_all only: if_True if_False div_mult_self1 mod_add_self2 mod_add_self1 add_0_right
        power_not_zero zero_neq_numeral not_False_eq_True)
  have "bits = 2047 * 2 ^ 52" if "bits div 2 ^ 52 = 2047"
  proof -
    have "2047 * 2 ^ 52 \<le> bits" using div_times_less_eq_dividend [of bits "2 ^ 52"] unfolding that .
    with assms show ?thesis by simp
  qed
  moreover have "bits div 2 ^ 52 \<le> 2047" using assms by simp
  ultimately show ?thesis unfolding f64_nan_def f64_exponent_def f64_fraction_def m d by auto
qed

lemma f64_div_number:
  assumes "\<not> f64_nan a" "\<not> f64_nan b" "\<not> (f64_infinite a \<and> f64_infinite b)"
    and "\<not> (f64_magnitude a = 0 \<and> f64_magnitude b = 0)"
  shows "\<not> f64_nan (f64_div a b)"
  using assms f64_signed_number [OF round_ratio_bound] f64_signed_number [of "2047 * 2 ^ 52"] f64_signed_number [of 0]
  by (auto simp: f64_div_def Let_def)

section \<open>Equal operands\<close>

lemma round_ratio_cancel:
  assumes "m \<noteq> 0"
  shows "round_ratio (m * n) m = round_ratio n 1"
  using assms by (simp add: round_ratio_def Let_def mult_less_cancel1 flip: mult.assoc) 

lemma sign_flip:
  "f64_exponent (w XOR 0x8000000000000000) = f64_exponent w" "f64_fraction (w XOR 0x8000000000000000) = f64_fraction w"
  "f64_negative (w XOR 0x8000000000000000) \<longleftrightarrow> \<not> f64_negative w"
proof -
  let ?s = "0x8000000000000000 :: u64"
  have s: "bit ?s n \<longleftrightarrow> n = 63" for n
  proof -
    have "?s = push_bit 63 1" by simp
    then show ?thesis by (simp only: bit_push_bit_iff bit_1_iff possible_bit_word) auto
  qed
  have "take_bit 63 (w XOR ?s) = take_bit 63 w"
    by (rule bit_eqI) (auto simp: bit_take_bit_iff bit_xor_iff s)
  then have m: "unat (w XOR ?s) mod 2 ^ 63 = unat w mod 2 ^ 63"
    by (metis (no_types) unsigned_take_bit_eq take_bit_eq_mod)
  have n: "f64_negative v \<longleftrightarrow> bit v 63" for v :: u64
  proof -
    have "bit (unat v) 63 = bit v 63" by (simp add: bit_unsigned_iff)
    then have "bit v 63 \<longleftrightarrow> odd (unat v div 2 ^ 63)" by (simp only: bit_iff_odd [of "unat v"])
    moreover have "unat v div 2 ^ 63 < 2"
    proof (rule less_mult_imp_div_less)
      have "unat v < 2 ^ LENGTH(64)" by (rule unsigned_less)
      then show "unat v < 2 * 2 ^ 63" by simp
    qed
    then have "odd (unat v div 2 ^ 63) \<longleftrightarrow> unat v div 2 ^ 63 \<noteq> 0" by (auto simp: less_2_cases_iff)
    moreover have "unat v div 2 ^ 63 = 0 \<longleftrightarrow> unat v < 2 ^ 63" by (simp only: div_eq_0_iff) simp
    ultimately show ?thesis by (simp only: f64_negative_def not_less [symmetric])
  qed
  show "f64_negative (w XOR ?s) \<longleftrightarrow> \<not> f64_negative w" by (simp only: n bit_xor_iff s) simp
  have d: "(2::nat) ^ 63 = 2 ^ 52 * 2048" by simp
  have e: "f64_exponent v = unat v mod 2 ^ 63 div 2 ^ 52" "f64_fraction v = unat v mod 2 ^ 63 mod 2 ^ 52" for v
    unfolding f64_exponent_def f64_fraction_def d mod_mult2_eq by simp_all
  show "f64_exponent (w XOR ?s) = f64_exponent w" "f64_fraction (w XOR ?s) = f64_fraction w" by (simp_all only: e m)
qed

lemma f64_sub_self:
  assumes "f64_exponent a \<noteq> 2047"
  shows "f64_sub a a = 0"
  using assms by (simp add: f64_sub_def f64_add_def f64_nan_def f64_infinite_def f64_steps_def f64_magnitude_def sign_flip)

lemma f64_mul_zero:
  assumes "f64_exponent b \<noteq> 2047" "\<not> f64_negative b"
  shows "f64_mul 0 b = 0"
proof -
  have z: "\<not> f64_negative 0" "f64_exponent 0 = 0" "f64_magnitude 0 = 0"
    by (simp_all add: f64_negative_def f64_exponent_def f64_magnitude_def f64_fraction_def)
  with assms show ?thesis
    by (simp add: f64_mul_def f64_nan_def f64_infinite_def f64_signed_def round_ratio_def bit_length.simps)
qed

lemma f64_div_self:
  assumes "f64_exponent v \<noteq> 2047" "f64_magnitude v \<noteq> 0"
  shows "f64_div v v = f64_of_int 1"
  using assms round_ratio_cancel [OF assms(2), of one_steps, unfolded round_ratio_one]
  by (simp add: f64_div_def f64_nan_def f64_infinite_def f64_of_int_def f64_of_steps_def f64_signed_def Let_def)

end
