(* ===== verification/Bench_Driver.thy ===== *)
theory Bench_Driver
  imports Rust_Float_Ops Rust_Text Daemon_Main
begin

text \<open>
  The benchmark, \<open>ohmcp-bench/src/main.rs\<close>: its workloads, the plan of its scenarios, the loops that drive a
  client, the metrics of a run, the median of three runs and the summary. What the clock measures, what the
  tasks of a run return and the quantiles of \<open>hdrhistogram\<close> are arguments, as is the text of an \<open>f64\<close>.
\<close>

section \<open>Metrics\<close>

text \<open>The samples of a histogram are microseconds; \<open>quant h q\<close> is \<open>value_at_quantile\<close> for \<open>q\<close> percent.\<close>

record metrics =
  m_scenario :: string
  m_stack :: string
  m_ops :: u64
  elapsed_ms :: u64
  ops_per_sec :: u64
  p50_us :: u64
  p99_us :: u64
  bytes_on_wire :: u64

definition metrics_of ::
  "(u64 list \<Rightarrow> nat \<Rightarrow> u64) \<Rightarrow> string \<Rightarrow> string \<Rightarrow> u64 list \<Rightarrow> u64 \<Rightarrow> u64 \<Rightarrow> metrics" where
  "metrics_of quant scenario stack h elapsed bytes =
     \<lparr>m_scenario = scenario, m_stack = stack, m_ops = word_of_nat (length h), elapsed_ms = elapsed,
      ops_per_sec = f64_div (f64_of_int (int (length h))) (f64_div elapsed (f64_of_int 1000)),
      p50_us = f64_of_int (uint (quant h 50)), p99_us = f64_of_int (uint (quant h 99)), bytes_on_wire = bytes\<rparr>"

section \<open>Runs\<close>

text \<open>
  The loop of a client over its calls: each with the time it takes, recorded when it succeeds; the first that
  fails ends the run.
\<close>

fun bench_loop ::
  "(string \<Rightarrow> json \<Rightarrow> 's \<Rightarrow> (string + call_tool_result) \<times> 's) \<Rightarrow> ((string \<times> json) \<times> u64) list \<Rightarrow> 's \<Rightarrow> u64 list
   \<Rightarrow> (string + u64 list) \<times> 's" where
  "bench_loop do_call [] s h = (Inr h, s)"
| "bench_loop do_call (((tool, args), us) # work) s h =
     (case do_call tool args s of
        (Inl e, s') \<Rightarrow> (Inl e, s')
      | (Inr _, s') \<Rightarrow> bench_loop do_call work s' (h @ [us]))"

text \<open>
  One client: connect, all calls in order, the bytes on the wire at the end. \<open>took\<close> and \<open>elapsed\<close> are what the
  clock measured; there is one time for each of the \<open>n\<close> calls.
\<close>

definition bench_client ::
  "(u64 list \<Rightarrow> nat \<Rightarrow> u64) \<Rightarrow> (string \<Rightarrow> json \<Rightarrow> 's \<Rightarrow> (string + call_tool_result) \<times> 's) \<Rightarrow> ('s \<Rightarrow> u64)
   \<Rightarrow> string \<Rightarrow> string \<Rightarrow> string + 's \<Rightarrow> nat \<Rightarrow> (nat \<Rightarrow> string \<times> json) \<Rightarrow> (nat \<Rightarrow> u64) \<Rightarrow> u64 \<Rightarrow> string + metrics" where
  "bench_client quant do_call wire_bytes scenario stack connected n f took elapsed =
     (case connected of
        Inl e \<Rightarrow> Inl e
      | Inr s \<Rightarrow>
          (case bench_loop do_call (map (\<lambda>i. (f i, took i)) [0..<n]) s [] of
             (Inl e, _) \<Rightarrow> Inl e
           | (Inr h, s') \<Rightarrow> Inr (metrics_of quant scenario stack h elapsed (wire_bytes s'))))"

definition bench_baseline where
  "bench_baseline quant do_call wire_bytes scenario = bench_client quant do_call wire_bytes scenario ''baseline''"

definition bench_ohmcp where
  "bench_ohmcp quant do_call wire_bytes scenario = bench_client quant do_call wire_bytes scenario ''ohmcp''"

definition bench_ohmcp_plain where
  "bench_ohmcp_plain quant do_call wire_bytes scenario = bench_client quant do_call wire_bytes scenario ''ohmcp-plain''"

definition bench_ohmcp_shm where
  "bench_ohmcp_shm quant do_call wire_bytes enabled scenario connected =
     bench_client quant do_call wire_bytes scenario ''ohmcp-shm''
       (case connected of Inl e \<Rightarrow> Inl e | Inr s \<Rightarrow> if enabled s then Inr s else Inl ''shm negotiation failed'')"

text \<open>
  Tasks: \<open>outs\<close> is what each returned, in the order in which they were spawned. A call that fails makes its task panic,
  and joining it fails the run. The histograms are added up; these runs count no bytes.
\<close>

definition worker_out :: "(string + u64 list) \<times> 's \<Rightarrow> string + u64 list" where
  "worker_out r = (case fst r of Inl e \<Rightarrow> Inl ''task panicked'' | Inr h \<Rightarrow> Inr h)"

fun join_all :: "(string + u64 list) list \<Rightarrow> u64 list \<Rightarrow> string + u64 list" where
  "join_all [] acc = Inr acc"
| "join_all (Inl e # outs) acc = Inl e"
| "join_all (Inr h # outs) acc = join_all outs (acc @ h)"

definition bench_tasks ::
  "(u64 list \<Rightarrow> nat \<Rightarrow> u64) \<Rightarrow> string \<Rightarrow> string \<Rightarrow> (string + u64 list) list \<Rightarrow> u64 \<Rightarrow> string + metrics" where
  "bench_tasks quant scenario stack outs elapsed =
     (case join_all outs [] of
        Inl e \<Rightarrow> Inl e
      | Inr acc \<Rightarrow> Inr (metrics_of quant scenario stack acc elapsed 0))"

section \<open>Workloads\<close>

definition echo_call :: "string \<Rightarrow> string \<times> json" where
  "echo_call msg = (''echo'', JObj [(''msg'', JStr msg)])"

definition search_call :: "string \<Rightarrow> u64 \<Rightarrow> string \<times> json" where
  "search_call query top_k = (''kb.search'', JObj [(''query'', JStr query), (''top_k'', JPos top_k)])"

definition latency_work :: "nat \<Rightarrow> string \<times> json" where
  "latency_work i = echo_call (''m'' @ show_dec i)"

definition bulk_work :: "nat \<Rightarrow> string \<times> json" where
  "bulk_work i = search_call (''unique-'' @ show_dec i) 10"

definition repeat_work :: "nat \<Rightarrow> string \<times> json" where
  "repeat_work i = search_call (''hot-'' @ show_dec (i mod 10)) 10"

definition doc_work :: "nat \<Rightarrow> string \<times> json" where
  "doc_work i = (''kb.dump'', JObj [(''doc_id'', JStr (''d'' @ show_dec i))])"

definition upload_work :: "nat \<Rightarrow> string \<times> json" where
  "upload_work i = echo_call (replicate (256 * 1024) CHR ''u'' @ ''#'' @ show_dec i)"

definition scale_work :: "nat \<Rightarrow> nat \<Rightarrow> string \<times> json" where
  "scale_work kb i = (''kb.blob'', JObj [(''seed'', JPos (word_of_nat i)), (''size_kb'', JPos (word_of_nat kb))])"

definition pipeline_work :: "nat \<Rightarrow> nat \<Rightarrow> string \<times> json" where
  "pipeline_work w i = echo_call (''p-'' @ show_dec w @ ''-'' @ show_dec i)"

definition concurrent_work :: "nat \<Rightarrow> nat \<Rightarrow> string \<times> json" where
  "concurrent_work c i = search_call (''q-'' @ show_dec c @ ''-'' @ show_dec i) 3"

section \<open>The plan\<close>

text \<open>One line of the plan: a scenario on a stack, with the calls of each of its tasks.\<close>

record bench_case =
  c_scenario :: string
  c_stack :: string
  c_work :: "(string \<times> json) list list"

definition one_client :: "string \<Rightarrow> string \<Rightarrow> nat \<Rightarrow> (nat \<Rightarrow> string \<times> json) \<Rightarrow> bench_case" where
  "one_client scenario stack n f = \<lparr>c_scenario = scenario, c_stack = stack, c_work = [map f [0..<n]]\<rparr>"

definition many_tasks :: "string \<Rightarrow> string \<Rightarrow> nat \<Rightarrow> nat \<Rightarrow> (nat \<Rightarrow> nat \<Rightarrow> string \<times> json) \<Rightarrow> bench_case" where
  "many_tasks scenario stack m n f =
     \<lparr>c_scenario = scenario, c_stack = stack, c_work = map (\<lambda>w. map (f w) [0..<n]) [0..<m]\<rparr>"

definition scale_cases :: "nat \<Rightarrow> bench_case list" where
  "scale_cases kb =
     (let sc = ''scale-'' @ show_dec kb @ ''k''; reps = max (16384 div kb) 20
      in [one_client sc ''ohmcp'' reps (scale_work kb), one_client sc ''ohmcp-shm'' reps (scale_work kb)])"

definition plan :: "bench_case list" where
  "plan =
     map (\<lambda>st. one_client ''latency-echo'' st 5000 latency_work) [''baseline'', ''ohmcp'', ''ohmcp-plain'']
     @ map (\<lambda>st. one_client ''bulk-kb-search'' st 5000 bulk_work) [''baseline'', ''ohmcp'', ''ohmcp-plain'']
     @ map (\<lambda>st. one_client ''repeat-cached'' st 5000 repeat_work) [''baseline'', ''ohmcp'']
     @ map (\<lambda>st. one_client ''bulk-doc-64k'' st 500 doc_work) [''baseline'', ''ohmcp'', ''ohmcp-shm'']
     @ map (\<lambda>st. one_client ''upload-256k'' st 100 upload_work) [''baseline'', ''ohmcp'', ''ohmcp-shm'']
     @ concat (map scale_cases [16, 64, 256, 1024])
     @ map (\<lambda>st. many_tasks ''pipeline-64'' st 64 80 pipeline_work) [''baseline'', ''ohmcp'']
     @ map (\<lambda>st. many_tasks ''concurrent-16'' st 16 500 concurrent_work) [''baseline'', ''ohmcp'']"

section \<open>Median and summary\<close>

text \<open>\<open>med3!\<close>: the stable sort by throughput compares every run, and a comparison with a NaN panics.\<close>

definition med3 :: "metrics \<Rightarrow> metrics \<Rightarrow> metrics \<Rightarrow> metrics ret" where
  "med3 a b c =
     (if list_ex (\<lambda>m. f64_nan (ops_per_sec m)) [a, b, c] then Panicked
      else Ret (sort_key (\<lambda>m. f64_steps (ops_per_sec m)) [a, b, c] ! 1))"

text \<open>\<open>outcome_of j c\<close> is the outcome of the run number \<open>j\<close> of \<open>main\<close>, which is one of the case \<open>c\<close>.\<close>

fun run_plan ::
  "(nat \<Rightarrow> bench_case \<Rightarrow> string + metrics) \<Rightarrow> nat \<Rightarrow> bench_case list \<Rightarrow> (string + metrics list) ret" where
  "run_plan outcome_of j [] = Ret (Inr [])"
| "run_plan outcome_of j (c # cs) =
     (case outcome_of j c of Inl e \<Rightarrow> Ret (Inl e) | Inr m1 \<Rightarrow>
      case outcome_of (j + 1) c of Inl e \<Rightarrow> Ret (Inl e) | Inr m2 \<Rightarrow>
      case outcome_of (j + 2) c of Inl e \<Rightarrow> Ret (Inl e) | Inr m3 \<Rightarrow>
      case med3 m1 m2 m3 of Panicked \<Rightarrow> Panicked | Ret m \<Rightarrow>
      case run_plan outcome_of (j + 3) cs of
        Panicked \<Rightarrow> Panicked
      | Ret (Inl e) \<Rightarrow> Ret (Inl e)
      | Ret (Inr ms) \<Rightarrow> Ret (Inr (m # ms)))"

definition summary_scenarios :: "string list" where
  "summary_scenarios =
     [''latency-echo'', ''bulk-kb-search'', ''bulk-doc-64k'', ''repeat-cached'', ''pipeline-64'', ''concurrent-16'']"

definition find_row :: "metrics list \<Rightarrow> string \<Rightarrow> string \<Rightarrow> metrics option" where
  "find_row ms scenario stack = find (\<lambda>m. m_scenario m = scenario \<and> m_stack m = stack) ms"

text \<open>The rows that are compared; \<open>unwrap\<close> panics where one is missing.\<close>

fun summary :: "metrics list \<Rightarrow> string list \<Rightarrow> (string \<times> metrics \<times> metrics) list ret" where
  "summary ms [] = Ret []"
| "summary ms (sc # scs) =
     (case (find_row ms sc ''baseline'', find_row ms sc ''ohmcp'') of
        (Some base, Some ours) \<Rightarrow>
          (case summary ms scs of Panicked \<Rightarrow> Panicked | Ret rows \<Rightarrow> Ret ((sc, base, ours) # rows))
      | _ \<Rightarrow> Panicked)"

text \<open>\<open>main\<close>: the table and the rows of the summary.\<close>

definition bench_main ::
  "(nat \<Rightarrow> bench_case \<Rightarrow> string + metrics) \<Rightarrow> (string + metrics list \<times> (string \<times> metrics \<times> metrics) list) ret" where
  "bench_main outcome_of =
     (case run_plan outcome_of 0 plan of
        Panicked \<Rightarrow> Panicked
      | Ret (Inl e) \<Rightarrow> Ret (Inl e)
      | Ret (Inr ms) \<Rightarrow>
          (case summary ms summary_scenarios of
             Panicked \<Rightarrow> Panicked
           | Ret rows \<Rightarrow> Ret (Inr (ms, rows))))"

section \<open>What it prints\<close>

text \<open>\<open>fixed sign d v\<close> is the text of \<open>v\<close> with \<open>d\<close> decimals, with a plus sign when \<open>sign\<close> is set.\<close>

definition table_row :: "(bool \<Rightarrow> nat \<Rightarrow> u64 \<Rightarrow> string) \<Rightarrow> metrics \<Rightarrow> string" where
  "table_row fixed m =
     ''| '' @ m_scenario m @ '' | '' @ m_stack m @ '' | '' @ show_dec (unat (m_ops m)) @ '' | ''
     @ fixed False 1 (elapsed_ms m) @ '' | '' @ fixed False 0 (ops_per_sec m) @ '' | '' @ fixed False 0 (p50_us m)
     @ '' | '' @ fixed False 0 (p99_us m) @ '' | '' @ show_dec (unat (bytes_on_wire m)) @ '' |''"

text \<open>Percentages: how much more \<open>a\<close> is than \<open>b\<close>, and how much less.\<close>

definition percent_more :: "u64 \<Rightarrow> u64 \<Rightarrow> u64" where
  "percent_more a b = f64_mul (f64_sub (f64_div a b) (f64_of_int 1)) (f64_of_int 100)"

definition percent_less :: "u64 \<Rightarrow> u64 \<Rightarrow> u64" where
  "percent_less a b = f64_mul (f64_sub (f64_of_int 1) (f64_div a b)) (f64_of_int 100)"

definition bytes_text :: "(bool \<Rightarrow> nat \<Rightarrow> u64 \<Rightarrow> string) \<Rightarrow> metrics \<Rightarrow> metrics \<Rightarrow> string" where
  "bytes_text fixed base ours =
     (if 0 < bytes_on_wire base \<and> 0 < bytes_on_wire ours
      then ''  wire bytes '' @ fixed False 1 (percent_less (f64_of_int (uint (bytes_on_wire ours)))
             (f64_of_int (uint (bytes_on_wire base)))) @ ''% fewer''
      else '''')"

definition summary_row :: "(bool \<Rightarrow> nat \<Rightarrow> u64 \<Rightarrow> string) \<Rightarrow> string \<times> metrics \<times> metrics \<Rightarrow> string" where
  "summary_row fixed r =
     (case r of (sc, base, ours) \<Rightarrow>
        sc @ '': throughput '' @ fixed True 1 (percent_more (ops_per_sec ours) (ops_per_sec base))
        @ ''%  p50 latency '' @ fixed False 1 (percent_less (p50_us ours) (p50_us base)) @ ''% lower''
        @ bytes_text fixed base ours)"

definition report ::
  "(bool \<Rightarrow> nat \<Rightarrow> u64 \<Rightarrow> string) \<Rightarrow> metrics list \<Rightarrow> (string \<times> metrics \<times> metrics) list \<Rightarrow> string list" where
  "report fixed ms rows =
     [''| scenario | stack | ops | elapsed(ms) | ops/s | p50(us) | p99(us) | bytes |'', ''|---|---|---|---|---|---|---|---|'']
     @ map (table_row fixed) ms @ [''''] @ map (summary_row fixed) rows"

text \<open>Where the table goes as a document, if it goes anywhere.\<close>

definition json_out :: "string list \<Rightarrow> string option" where
  "json_out args = parse_arg args ''--json''"

section \<open>The daemon under a workload\<close>

text \<open>
  The daemon serves one call after the other, on the connection it came in on; the flag says whether
  the cache answered it.
\<close>

definition call_of :: "string \<times> json \<Rightarrow> call_tool_params" where
  "call_of c = \<lparr>ct_name = fst c, ct_arguments = snd c, ct_meta = None\<rparr>"

fun serve_calls ::
  "ext \<Rightarrow> (env \<times> u64 \<times> call_tool_params) list \<Rightarrow> session \<Rightarrow> shared \<Rightarrow> bool list \<times> session \<times> shared" where
  "serve_calls x [] s sh = ([], s, sh)"
| "serve_calls x ((e, i, params) # calls) s sh =
     (let hit = (case call_key x (registry sh) params of
                   None \<Rightarrow> False
                 | Some k \<Rightarrow> fst (cache_get (t_get e) k (s_cache sh)) \<noteq> None)
      in case call_authorized x e i params s sh of (s', sh') \<Rightarrow>
         case serve_calls x calls s' sh' of (hs, r) \<Rightarrow> (hit # hs, r))"

end
