(* ===== verification/Bench_Correct.thy ===== *)
theory Bench_Correct
  imports Bench_Driver
begin

text \<open>
  What the benchmark measures: the stacks it compares get the same calls, the median of three runs is one and the summary
  finds its rows; and which calls of a workload the daemon's cache answers.
\<close>

section \<open>The cache under a workload\<close>

text \<open>Entries that were all inserted since \<open>t0\<close>.\<close>

definition inserted_since :: "nat \<Rightarrow> result_cache \<Rightarrow> bool" where
  "inserted_since t0 c \<longleftrightarrow> distinct (map fst (entries c)) \<and> (\<forall>(k, e) \<in> set (entries c). t0 \<le> inserted e)"

definition cached_keys :: "result_cache \<Rightarrow> cache_key set" where
  "cached_keys c = fst ` set (entries c)"

text \<open>The calls that find their key, when the keys \<open>D\<close> are there at the start and nothing expires.\<close>

fun hits_of :: "'k set \<Rightarrow> 'k list \<Rightarrow> bool list" where
  "hits_of D [] = []"
| "hits_of D (k # ks) = (k \<in> D) # hits_of (insert k D) ks"

lemma update_entries:
  assumes "distinct (map fst es)" "\<forall>(k, e) \<in> set es. P e" "P e'"
  shows "distinct (map fst (AList.update k e' es)) \<and> (\<forall>(k, e) \<in> set (AList.update k e' es). P e)
    \<and> fst ` set (AList.update k e' es) = insert k (fst ` set es)"
proof -
  have "\<forall>(k, e) \<in> set (AList.update k e' es). P e"
    using assms(2,3) by (induction es) (auto split: if_splits)
  moreover have "fst ` set (AList.update k e' es) = insert k (fst ` set es)"
    by (induction es) auto
  ultimately show ?thesis using assms(1) by (simp add: distinct_update)
qed

lemma get_cached:
  assumes "inserted_since t0 c" "k \<in> cached_keys c" "now \<le> t0 + ttl c"
  shows "\<exists>v c'. cache_get now k c = (Some v, c') \<and> inserted_since t0 c' \<and> cached_keys c' = cached_keys c
    \<and> ttl c' = ttl c \<and> capacity c' = capacity c"
proof -
  from assms(2) obtain e where e: "map_of (entries c) k = Some e"
    using map_of_None_key [of "entries c" k] by (auto simp: cached_keys_def)
  then have "(k, e) \<in> set (entries c)" by (rule map_of_SomeD)
  with assms(1) have t: "t0 \<le> inserted e" by (auto simp: inserted_since_def)
  have "now - inserted e \<le> ttl c" using t assms(3) by linarith
  moreover have "k \<in> fst ` set (entries c)" using assms(2) by (simp add: cached_keys_def)
  ultimately show ?thesis
    using assms(1) update_entries [of "entries c" "\<lambda>e. t0 \<le> inserted e" "e\<lparr>last_used := now\<rparr>" k] e t
    by (auto simp: cache_get_def inserted_since_def cached_keys_def insert_absorb)
qed

lemma get_absent: "k \<notin> cached_keys c \<Longrightarrow> cache_get now k c = (None, c\<lparr>misses := misses c + 1\<rparr>)"
  using map_of_None_key [of "entries c" k] by (simp add: cache_get_def cached_keys_def)

lemma put_absent:
  assumes "inserted_since t0 c" "length (entries c) < capacity c" "t0 \<le> now"
  shows "inserted_since t0 (cache_put order now k v c) \<and> cached_keys (cache_put order now k v c) = insert k (cached_keys c)
    \<and> ttl (cache_put order now k v c) = ttl c \<and> capacity (cache_put order now k v c) = capacity c"
  using assms update_entries [of "entries c" "\<lambda>e. t0 \<le> inserted e" "\<lparr>e_value = v, inserted = now, last_used = now\<rparr>" k]
  by (auto simp: cache_put_def inserted_since_def cached_keys_def)

text \<open>A call the daemon can serve at an instant between \<open>t0\<close> and the end of the time to live.\<close>

definition timely :: "ext \<Rightarrow> tool_registry \<Rightarrow> nat \<Rightarrow> nat \<Rightarrow> env \<times> u64 \<times> call_tool_params \<Rightarrow> bool" where
  "timely x reg t0 life c =
     (case c of (e, i, params) \<Rightarrow>
        t_get e \<le> t0 + life \<and> t0 \<le> t_put e \<and> is_cacheable reg (ct_name params)
        \<and> call reg (ct_name params) (ct_arguments params) \<noteq> None)"

definition key_of :: "ext \<Rightarrow> env \<times> u64 \<times> call_tool_params \<Rightarrow> cache_key" where
  "key_of x c = cache_key_compute (sha256 x) (ct_name (snd (snd c))) (to_vec x (ct_arguments (snd (snd c))))"

lemma serve_one:
  assumes "timely x (registry sh) t0 (ttl (s_cache sh)) (e, i, params)" "inserted_since t0 (s_cache sh)"
    and "key_of x (e, i, params) \<notin> cached_keys (s_cache sh) \<Longrightarrow> length (entries (s_cache sh)) < capacity (s_cache sh)"
    and "call_authorized x e i params s sh = (s', sh')"
  shows "(fst (cache_get (t_get e) (key_of x (e, i, params)) (s_cache sh)) \<noteq> None
        \<longleftrightarrow> key_of x (e, i, params) \<in> cached_keys (s_cache sh))
    \<and> registry sh' = registry sh \<and> inserted_since t0 (s_cache sh')
    \<and> cached_keys (s_cache sh') = insert (key_of x (e, i, params)) (cached_keys (s_cache sh))
    \<and> ttl (s_cache sh') = ttl (s_cache sh) \<and> capacity (s_cache sh') = capacity (s_cache sh)"
proof -
  let ?k = "key_of x (e, i, params)"
  have t: "t_get e \<le> t0 + ttl (s_cache sh)" "t0 \<le> t_put e" "is_cacheable (registry sh) (ct_name params)"
    using assms(1) by (simp_all add: timely_def)
  obtain res where res: "call (registry sh) (ct_name params) (ct_arguments params) = Some res"
    using assms(1) by (auto simp: timely_def)
  have key: "call_key x (registry sh) params = Some ?k" by (simp add: call_key_def t(3) key_of_def)
  show ?thesis
  proof (cases "?k \<in> cached_keys (s_cache sh)")
    case True
    obtain v c' where g: "cache_get (t_get e) ?k (s_cache sh) = (Some v, c')" "inserted_since t0 c'"
      "cached_keys c' = cached_keys (s_cache sh)" "ttl c' = ttl (s_cache sh)" "capacity c' = capacity (s_cache sh)"
      using get_cached [OF assms(2) True t(1)] by blast
    have "sh' = sh\<lparr>s_cache := c'\<rparr>"
      using assms(4) by (auto simp: call_authorized_def key call_cached_def g(1))
    with g True show ?thesis by (simp add: insert_absorb)
  next
    case False
    let ?c = "(s_cache sh)\<lparr>misses := misses (s_cache sh) + 1\<rparr>"
    have g: "cache_get (t_get e) ?k (s_cache sh) = (None, ?c)" by (rule get_absent [OF False])
    have "inserted_since t0 ?c" "length (entries ?c) < capacity ?c" "cached_keys ?c = cached_keys (s_cache sh)"
      using assms(2,3) False by (simp_all add: inserted_since_def cached_keys_def)
    note p = put_absent [OF this(1,2) t(2), of "map_order e" ?k "to_vec x (se_call_tool_result res)"] this(3)
    have "sh' = sh\<lparr>s_cache := cache_put (map_order e) (t_put e) ?k (to_vec x (se_call_tool_result res)) ?c\<rparr>"
      using assms(4) by (auto simp: call_authorized_def key call_cached_def g call_execute_def res Let_def)
    with p g False show ?thesis by simp
  qed
qed

lemma room_left:
  assumes "inserted_since t0 c" "cached_keys c \<subseteq> U" "k \<in> U" "finite U" "card U \<le> capacity c" "k \<notin> cached_keys c"
  shows "length (entries c) < capacity c"
proof -
  have "cached_keys c \<subset> U" using assms(2,3,6) by blast
  then have "card (cached_keys c) < card U" using assms(4) by (simp add: psubset_card_mono)
  moreover have "card (cached_keys c) = length (entries c)"
    using assms(1) distinct_card [of "map fst (entries c)"] by (simp add: inserted_since_def cached_keys_def)
  ultimately show ?thesis using assms(5) by simp
qed

text \<open>Which calls hit: exactly those whose key is in the cache or came before.\<close>

lemma serve_calls_hits:
  assumes "serve_calls x calls s sh = (hs, s', sh')" "inserted_since t0 (s_cache sh)"
    and "\<forall>c \<in> set calls. timely x (registry sh) t0 (ttl (s_cache sh)) c"
    and "cached_keys (s_cache sh) \<union> key_of x ` set calls \<subseteq> U" "finite U" "card U \<le> capacity (s_cache sh)"
  shows "hs = hits_of (cached_keys (s_cache sh)) (map (key_of x) calls) \<and> registry sh' = registry sh
    \<and> inserted_since t0 (s_cache sh') \<and> cached_keys (s_cache sh') = cached_keys (s_cache sh) \<union> key_of x ` set calls
    \<and> ttl (s_cache sh') = ttl (s_cache sh) \<and> capacity (s_cache sh') = capacity (s_cache sh)"
  using assms
proof (induction calls arbitrary: s sh hs)
  case Nil
  then show ?case by simp
next
  case (Cons c calls)
  obtain e i params where c: "c = (e, i, params)" by (cases c)
  obtain s1 sh1 where one: "call_authorized x e i params s sh = (s1, sh1)" by fastforce
  obtain hs1 where rest: "serve_calls x calls s1 sh1 = (hs1, s', sh')"
    and hs: "hs = (fst (cache_get (t_get e) (key_of x c) (s_cache sh)) \<noteq> None) # hs1"
    using Cons.prems(1,3) one
    by (auto simp: c call_key_def timely_def key_of_def Let_def split: prod.splits)
  have t: "timely x (registry sh) t0 (ttl (s_cache sh)) (e, i, params)" using Cons.prems(3) c by simp
  have lt: "length (entries (s_cache sh)) < capacity (s_cache sh)" if "key_of x (e, i, params) \<notin> cached_keys (s_cache sh)"
    using Cons.prems(4) c by (intro room_left [OF Cons.prems(2) _ _ Cons.prems(5,6) that]) auto
  from serve_one [OF t Cons.prems(2) lt one] have o1: "fst (cache_get (t_get e) (key_of x c) (s_cache sh)) \<noteq> None
      \<longleftrightarrow> key_of x c \<in> cached_keys (s_cache sh)" "registry sh1 = registry sh" "inserted_since t0 (s_cache sh1)"
    "cached_keys (s_cache sh1) = insert (key_of x c) (cached_keys (s_cache sh))"
    "ttl (s_cache sh1) = ttl (s_cache sh)" "capacity (s_cache sh1) = capacity (s_cache sh)"
    unfolding c by auto
  from Cons.IH [OF rest o1(3)] Cons.prems(3-6) o1
  show ?case by (auto simp: hs)
qed

lemma hits_of_known: "set ks \<subseteq> D \<Longrightarrow> hits_of D ks = replicate (length ks) True"
  by (induction ks arbitrary: D) (auto simp: subset_insertI2)

lemma hits_of_misses: "finite D \<Longrightarrow> length (filter Not (hits_of D ks)) = card (set ks - D)"
proof (induction ks arbitrary: D)
  case (Cons k ks)
  show ?case
  proof (cases "k \<in> D")
    case True
    with Cons show ?thesis by (simp add: insert_absorb insert_Diff_if)
  next
    case False
    then have "set (k # ks) - D = insert k (set ks - insert k D)" by auto
    with False Cons.IH [of "insert k D"] Cons.prems show ?thesis by simp
  qed
qed simp

text \<open>A workload of the benchmark on the daemon's built-in tools.\<close>

definition work_keys :: "ext \<Rightarrow> (nat \<Rightarrow> string \<times> json) \<Rightarrow> nat \<Rightarrow> cache_key set" where
  "work_keys x f n = (\<lambda>i. cache_key_compute (sha256 x) (fst (f i)) (to_vec x (snd (f i)))) ` {0..<n}"

definition in_time :: "nat \<Rightarrow> (env \<times> u64 \<times> call_tool_params) list \<Rightarrow> bool" where
  "in_time t0 calls \<longleftrightarrow> list_all (\<lambda>(e, i, p). t_get e \<le> t0 + SERVER_CACHE_TTL \<and> t0 \<le> t_put e) calls"

definition calls_of :: "(nat \<Rightarrow> string \<times> json) \<Rightarrow> nat \<Rightarrow> (env \<times> u64 \<times> call_tool_params) list \<Rightarrow> bool" where
  "calls_of f n calls \<longleftrightarrow> map (snd \<circ> snd) calls = map (call_of \<circ> f) [0..<n]"

lemma calls_of_keys: "calls_of f n calls \<Longrightarrow> key_of x ` set calls = work_keys x f n"
proof -
  assume c: "calls_of f n calls"
  have "key_of x ` set calls
      = (\<lambda>c. cache_key_compute (sha256 x) (ct_name c) (to_vec x (ct_arguments c))) ` set (map (snd \<circ> snd) calls)"
    by (auto simp: key_of_def image_image)
  also have "\<dots> = work_keys x f n"
    unfolding c [unfolded calls_of_def] by (auto simp: work_keys_def image_image call_of_def)
  finally show ?thesis .
qed

lemma workload_run:
  assumes "f \<in> {bulk_work, doc_work, repeat_work}" "card (work_keys x f n) \<le> 65536" "calls_of f n calls" "in_time t0 calls"
    and "registry sh = builtin_registry x show start" "inserted_since t0 (s_cache sh)" "ttl (s_cache sh) = SERVER_CACHE_TTL"
    and "capacity (s_cache sh) = 65536" "cached_keys (s_cache sh) \<subseteq> work_keys x f n"
    and "serve_calls x calls s sh = (hs, s', sh')"
  shows "hs = hits_of (cached_keys (s_cache sh)) (map (key_of x) calls) \<and> registry sh' = builtin_registry x show start
    \<and> inserted_since t0 (s_cache sh') \<and> ttl (s_cache sh') = SERVER_CACHE_TTL \<and> capacity (s_cache sh') = 65536
    \<and> cached_keys (s_cache sh') = work_keys x f n"
proof -
  let ?reg = "builtin_registry x show start"
  have served: "is_cacheable ?reg (ct_name (call_of (f i)))" "call ?reg (ct_name (call_of (f i))) (ct_arguments (call_of (f i))) \<noteq> None" for i
    using assms(1) by (auto simp: call_of_def bulk_work_def doc_work_def repeat_work_def search_call_def builtin_registry_def
        register_def register_resource_def register_prompt_def is_cacheable_def call_def registry_new_def)
  have timely: "timely x ?reg t0 SERVER_CACHE_TTL c" if c: "c \<in> set calls" for c
  proof -
    obtain e j p where cp: "c = (e, j, p)" by (cases c)
    have "p \<in> set (map (snd \<circ> snd) calls)" using c cp by force
    then obtain i where "p = call_of (f i)" unfolding assms(3) [unfolded calls_of_def] by auto
    with served [of i] assms(4) c cp show ?thesis by (auto simp: timely_def in_time_def list_all_iff)
  qed
  have "cached_keys (s_cache sh) \<union> key_of x ` set calls = work_keys x f n" "finite (work_keys x f n)"
    using assms(9) calls_of_keys [OF assms(3), of x] by (auto simp: work_keys_def)
  with serve_calls_hits [OF assms(10,6), of "work_keys x f n"] timely assms(2,5,7,8) show ?thesis by simp
qed

lemma fresh_cache:
  "inserted_since t0 (s_cache (shared_new token reg)) \<and> cached_keys (s_cache (shared_new token reg)) = {}
    \<and> ttl (s_cache (shared_new token reg)) = SERVER_CACHE_TTL \<and> capacity (s_cache (shared_new token reg)) = 65536
    \<and> registry (shared_new token reg) = reg"
  by (simp add: shared_new_def cache_new_def inserted_since_def cached_keys_def)

lemma card_work_keys: "card (work_keys x f n) \<le> n"
  unfolding work_keys_def using card_image_le [of "{0..<n}"] by simp

section \<open>The plan\<close>

lemma med3_Ret:
  assumes "med3 a b c = Ret m"
  shows "m \<in> {a, b, c}" "length (filter (\<lambda>r. f64_steps (ops_per_sec r) \<le> f64_steps (ops_per_sec m)) [a, b, c]) \<ge> 2"
    "length (filter (\<lambda>r. f64_steps (ops_per_sec m) \<le> f64_steps (ops_per_sec r)) [a, b, c]) \<ge> 2"
  using assms by (auto simp: med3_def split: if_splits)

lemma med3_number:
  "\<forall>m \<in> {a, b, c}. \<not> f64_nan (ops_per_sec m) \<Longrightarrow> \<exists>m \<in> {a, b, c}. med3 a b c = Ret m"
  by (auto simp: med3_def)

text \<open>The throughput of a run with samples and a measured time is a number, never a NaN.\<close>

lemma small_integer_number:
  assumes "0 < n" "n < 2 ^ 53"
  shows "\<not> f64_nan (f64_of_int (int n))" "\<not> f64_infinite (f64_of_int (int n))" "f64_magnitude (f64_of_int (int n)) \<noteq> 0"
proof -
  note s = f64_of_small [OF assms(2)]
  show "\<not> f64_nan (f64_of_int (int n))" "\<not> f64_infinite (f64_of_int (int n))"
    using s(3) by (simp_all add: f64_nan_def f64_infinite_def)
  have "f64_steps (f64_of_int (int n)) \<noteq> 0" using s(1) assms(1) by simp
  then show "f64_magnitude (f64_of_int (int n)) \<noteq> 0" by (auto simp: f64_steps_def split: if_splits)
qed

lemma metrics_number:
  assumes "h \<noteq> []" "length h < 2 ^ 53" "\<not> f64_nan elapsed"
  shows "\<not> f64_nan (ops_per_sec (metrics_of quant scenario stack h elapsed bytes))"
proof -
  have h: "0 < length h" using assms(1) by simp
  note ops = small_integer_number [OF h assms(2)]
  have "\<not> f64_nan (f64_of_int (int 1000))" "\<not> f64_infinite (f64_of_int (int 1000))" "f64_magnitude (f64_of_int (int 1000)) \<noteq> 0"
    by (rule small_integer_number; simp)+
  then have "\<not> f64_nan (f64_div elapsed (f64_of_int 1000))"
    using assms(3) f64_div_number [of elapsed "f64_of_int (int 1000)"] by simp
  then show ?thesis using f64_div_number [OF ops(1)] ops(2,3) by (simp add: metrics_of_def)
qed

lemma bench_loop_samples:
  "bench_loop do_call work s h = (Inr h', s') \<Longrightarrow> h' = h @ map snd work"
  by (induction do_call work s h rule: bench_loop.induct) (auto split: prod.splits sum.splits)

text \<open>What a run of one client reports, when it reports anything.\<close>

lemma bench_client_reports:
  assumes "bench_client quant do_call wire_bytes scenario stack connected n f took elapsed = Inr m"
    and "0 < n" "n < 2 ^ 53" "\<not> f64_nan elapsed"
  shows "m_scenario m = scenario \<and> m_stack m = stack \<and> m_ops m = word_of_nat n \<and> \<not> f64_nan (ops_per_sec m)"
proof -
  obtain s h s' where l: "bench_loop do_call (map (\<lambda>i. (f i, took i)) [0..<n]) s [] = (Inr h, s')"
    and m: "m = metrics_of quant scenario stack h elapsed (wire_bytes s')"
    using assms(1) by (auto simp: bench_client_def split: sum.splits prod.splits)
  have "length h = n" using bench_loop_samples [OF l] by simp
  with assms(2-4) metrics_number [of h elapsed] show ?thesis by (auto simp: m metrics_of_def)
qed

lemma plan_work:
  obtains W where "\<forall>c \<in> set plan. c_work c = W (c_scenario c)"
proof -
  have d: "show_dec 16 = ''16''" "show_dec 64 = ''64''" "show_dec 256 = ''256''" "show_dec 1024 = ''1024''"
    by (simp_all add: show_dec.simps digit_def char_of_eq_iff)
  define cw :: "nat \<Rightarrow> (nat \<Rightarrow> string \<times> json) \<Rightarrow> (string \<times> json) list list" where "cw n f = [map f [0..<n]]" for n f
  define mw :: "nat \<Rightarrow> nat \<Rightarrow> (nat \<Rightarrow> nat \<Rightarrow> string \<times> json) \<Rightarrow> (string \<times> json) list list"
    where "mw m n f = map (\<lambda>w. map (f w) [0..<n]) [0..<m]" for m n f
  have sc: "c_scenario (one_client sc st n f) = sc" "c_scenario (many_tasks sc st m n g) = sc"
    and wk: "c_work (one_client sc st n f) = cw n f" "c_work (many_tasks sc st m n g) = mw m n g" for sc st m n f g
    by (simp_all add: one_client_def many_tasks_def cw_def mw_def)
  define W where "W = map_of [
     (''latency-echo'', cw 5000 latency_work),
     (''bulk-kb-search'', cw 5000 bulk_work),
     (''repeat-cached'', cw 5000 repeat_work),
     (''bulk-doc-64k'', cw 500 doc_work),
     (''upload-256k'', cw 100 upload_work),
     (''scale-16k'', cw (max (16384 div 16) 20) (scale_work 16)),
     (''scale-64k'', cw (max (16384 div 64) 20) (scale_work 64)),
     (''scale-256k'', cw (max (16384 div 256) 20) (scale_work 256)),
     (''scale-1024k'', cw (max (16384 div 1024) 20) (scale_work 1024)),
     (''pipeline-64'', mw 64 80 pipeline_work),
     (''concurrent-16'', mw 16 500 concurrent_work)]"
  have W: "W ''latency-echo'' = Some (cw 5000 latency_work)"
    "W ''bulk-kb-search'' = Some (cw 5000 bulk_work)"
    "W ''repeat-cached'' = Some (cw 5000 repeat_work)"
    "W ''bulk-doc-64k'' = Some (cw 500 doc_work)"
    "W ''upload-256k'' = Some (cw 100 upload_work)"
    "W ''scale-16k'' = Some (cw (max (16384 div 16) 20) (scale_work 16))"
    "W ''scale-64k'' = Some (cw (max (16384 div 64) 20) (scale_work 64))"
    "W ''scale-256k'' = Some (cw (max (16384 div 256) 20) (scale_work 256))"
    "W ''scale-1024k'' = Some (cw (max (16384 div 1024) 20) (scale_work 1024))"
    "W ''pipeline-64'' = Some (mw 64 80 pipeline_work)"
    "W ''concurrent-16'' = Some (mw 16 500 concurrent_work)"
    unfolding W_def by simp_all
  have "list_all (\<lambda>c. W (c_scenario c) = Some (c_work c)) plan"
    unfolding plan_def scale_cases_def Let_def
    by (simp only: list.map concat.simps append.simps append_Nil2 list_all_append list.pred_inject sc wk d W simp_thms)
  then show thesis by (intro that [of "\<lambda>sc. the (W sc)"]) (auto simp: list_all_iff)
qed

lemma list_all2_members:
  "list_all2 P xs ys \<Longrightarrow> (\<forall>x \<in> set xs. \<exists>y \<in> set ys. P x y) \<and> (\<forall>y \<in> set ys. \<exists>x \<in> set xs. P x y)"
  by (induction rule: list_all2_induct) auto

lemma plan_rows:
  assumes "sc \<in> set summary_scenarios" "st \<in> {''baseline'', ''ohmcp''}"
  shows "\<exists>c \<in> set plan. c_scenario c = sc \<and> c_stack c = st"
proof -
  have f: "c_scenario (one_client sc st n f) = sc" "c_stack (one_client sc st n f) = st" for sc st n f
    by (simp_all add: one_client_def)
  have g: "c_scenario (many_tasks sc st m n f) = sc" "c_stack (many_tasks sc st m n f) = st" for sc st m n f
    by (simp_all add: many_tasks_def)
  have s: "st \<in> set [''baseline'', ''ohmcp'', ''ohmcp-plain'']" "st \<in> set [''baseline'', ''ohmcp'']"
    "st \<in> set [''baseline'', ''ohmcp'', ''ohmcp-shm'']"
    using assms(2) by auto
  have "one_client ''latency-echo'' st 5000 latency_work \<in> set plan" "one_client ''bulk-kb-search'' st 5000 bulk_work \<in> set plan"
    "one_client ''bulk-doc-64k'' st 500 doc_work \<in> set plan" "one_client ''repeat-cached'' st 5000 repeat_work \<in> set plan"
    "many_tasks ''pipeline-64'' st 64 80 pipeline_work \<in> set plan" "many_tasks ''concurrent-16'' st 16 500 concurrent_work \<in> set plan"
    using s unfolding plan_def set_append set_map by - (blast intro: imageI)+
  then have "list_all (\<lambda>sc. \<exists>c \<in> set plan. c_scenario c = sc \<and> c_stack c = st) summary_scenarios"
    unfolding summary_scenarios_def list.pred_inject using f g by (intro conjI) (metis, metis, metis, metis, metis, metis, simp)
  with assms(1) show ?thesis by (simp add: list_all_iff)
qed

lemma run_plan_rows:
  assumes "\<forall>j c m. outcome_of j c = Inr m \<longrightarrow> \<not> f64_nan (ops_per_sec m)"
  shows "(\<exists>j c e. run_plan outcome_of i cs = Ret (Inl e) \<and> c \<in> set cs \<and> outcome_of j c = Inl e)
    \<or> (\<exists>ms. run_plan outcome_of i cs = Ret (Inr ms) \<and> list_all2 (\<lambda>c m. \<exists>j. outcome_of j c = Inr m) cs ms)"
proof (induction cs arbitrary: i)
  case (Cons c cs)
  show ?case
  proof (cases "\<exists>j \<in> {i, i + 1, i + 2}. \<exists>e. outcome_of j c = Inl e")
    case True
    then show ?thesis by (fastforce split: sum.split)
  next
    case False
    then obtain m1 m2 m3 where m: "outcome_of i c = Inr m1" "outcome_of (i + 1) c = Inr m2" "outcome_of (i + 2) c = Inr m3"
      by (metis insertCI obj_sumE)
    with assms have "\<forall>m \<in> {m1, m2, m3}. \<not> f64_nan (ops_per_sec m)" by blast
    from med3_number [OF this] obtain m where med: "med3 m1 m2 m3 = Ret m" "m \<in> {m1, m2, m3}" by blast
    with m have "\<exists>j. outcome_of j c = Inr m" by blast
    note step = m [simplified] med
    from Cons.IH [of "i + 3"] show ?thesis
    proof (elim disjE exE conjE)
      fix j c' e assume e: "run_plan outcome_of (i + 3) cs = Ret (Inl e)" "c' \<in> set cs" "outcome_of j c' = Inl e"
      then have "run_plan outcome_of i (c # cs) = Ret (Inl e)" by (simp add: step)
      with e(2,3) show ?thesis by (intro disjI1 exI [of _ j] exI [of _ c'] exI [of _ e]) simp
    next
      fix ms assume ms: "run_plan outcome_of (i + 3) cs = Ret (Inr ms)" "list_all2 (\<lambda>c m. \<exists>j. outcome_of j c = Inr m) cs ms"
      then have "run_plan outcome_of i (c # cs) = Ret (Inr (m # ms))" by (simp add: step)
      with ms(2) \<open>\<exists>j. outcome_of j c = Inr m\<close> show ?thesis by (intro disjI2 exI [of _ "m # ms"]) simp
    qed
  qed
qed simp

lemma find_row_Some: "find_row ms sc st = Some m \<Longrightarrow> m \<in> set ms \<and> m_scenario m = sc \<and> m_stack m = st"
  by (auto simp: find_row_def find_Some_iff)

lemma find_row_None: "find_row ms sc st = None \<longleftrightarrow> (\<forall>m \<in> set ms. \<not> (m_scenario m = sc \<and> m_stack m = st))"
  by (auto simp: find_row_def find_None_iff)

definition rows_ok :: "metrics list \<Rightarrow> (string \<times> metrics \<times> metrics) list \<Rightarrow> bool" where
  "rows_ok ms rows \<longleftrightarrow> (\<forall>(sc, base, ours) \<in> set rows. base \<in> set ms \<and> ours \<in> set ms \<and> m_scenario base = sc
     \<and> m_scenario ours = sc \<and> m_stack base = ''baseline'' \<and> m_stack ours = ''ohmcp'')"

lemma summary_rows:
  assumes "\<forall>sc \<in> set scs. \<forall>st \<in> {''baseline'', ''ohmcp''}. \<exists>m \<in> set ms. m_scenario m = sc \<and> m_stack m = st"
  shows "\<exists>rows. summary ms scs = Ret rows \<and> map fst rows = scs \<and> rows_ok ms rows"
  using assms
proof (induction scs)
  case Nil
  show ?case by (simp add: rows_ok_def)
next
  case (Cons sc scs)
  have "find_row ms sc ''baseline'' \<noteq> None" "find_row ms sc ''ohmcp'' \<noteq> None"
    using Cons.prems find_row_None by auto
  then obtain base ours where f: "find_row ms sc ''baseline'' = Some base" "find_row ms sc ''ohmcp'' = Some ours" by blast
  from Cons obtain rows where "summary ms scs = Ret rows" "map fst rows = scs" "rows_ok ms rows" by auto
  with f find_row_Some [OF f(1)] find_row_Some [OF f(2)] show ?case by (simp add: rows_ok_def)
qed

section \<open>Percentages\<close>

text \<open>A stack that is as fast as the baseline is reported as neither faster nor slower.\<close>

lemma equal_throughput_no_gain:
  assumes "f64_exponent v \<noteq> 2047" "f64_magnitude v \<noteq> 0"
  shows "percent_more v v = 0" "percent_less v v = 0"
proof -
  have "f64_exponent (f64_of_int 1) \<noteq> 2047" "f64_exponent (f64_of_int 100) \<noteq> 2047" "\<not> f64_negative (f64_of_int 100)"
    using f64_of_small [of 1] f64_of_small [of 100] by simp_all
  then show "percent_more v v = 0" "percent_less v v = 0"
    by (simp_all add: percent_more_def percent_less_def f64_div_self assms f64_sub_self f64_mul_zero)
qed

section \<open>Properties\<close>

text \<open>C40. The benchmark compares like with like: when its runs report their own scenario and stack and a throughput that
  is a number, \<open>main\<close> does not panic; it stops with the error of a run, or the summary has its six scenarios, each with a run of the
  baseline and a run of the stack, and these two made the same calls in the same order.\<close>

theorem benchmark_compares_equal_work:
  assumes "\<forall>j c m. outcome_of j c = Inr m \<longrightarrow>
    m_scenario m = c_scenario c \<and> m_stack m = c_stack c \<and> \<not> f64_nan (ops_per_sec m)"
  shows "case bench_main outcome_of of
      Panicked \<Rightarrow> False
    | Ret (Inl e) \<Rightarrow> \<exists>j c. c \<in> set plan \<and> outcome_of j c = Inl e
    | Ret (Inr (ms, rows)) \<Rightarrow> map fst rows = summary_scenarios
        \<and> (\<forall>(sc, base, ours) \<in> set rows. \<exists>j k c d. c \<in> set plan \<and> d \<in> set plan \<and> outcome_of j c = Inr base
            \<and> outcome_of k d = Inr ours \<and> c_scenario c = sc \<and> c_scenario d = sc
            \<and> c_stack c = ''baseline'' \<and> c_stack d = ''ohmcp'' \<and> c_work c = c_work d)"
proof (cases "\<exists>j c e. run_plan outcome_of 0 plan = Ret (Inl e) \<and> c \<in> set plan \<and> outcome_of j c = Inl e")
  case True
  then obtain j c e where "run_plan outcome_of 0 plan = Ret (Inl e)" "c \<in> set plan" "outcome_of j c = Inl e" by blast
  then show ?thesis unfolding bench_main_def by (simp del: split_paired_Ex) blast
next
  case False
  with run_plan_rows [of outcome_of 0 plan] assms obtain ms where ms: "run_plan outcome_of 0 plan = Ret (Inr ms)"
    "list_all2 (\<lambda>c m. \<exists>j. outcome_of j c = Inr m) plan ms" by blast
  from list_all2_members [OF ms(2)] have fwd: "\<forall>c \<in> set plan. \<exists>m \<in> set ms. \<exists>j. outcome_of j c = Inr m"
    and bwd: "\<forall>m \<in> set ms. \<exists>c \<in> set plan. \<exists>j. outcome_of j c = Inr m" by simp_all
  have "\<exists>m \<in> set ms. m_scenario m = sc \<and> m_stack m = st"
    if st: "sc \<in> set summary_scenarios" "st \<in> {''baseline'', ''ohmcp''}" for sc st
  proof -
    from plan_rows [OF st] obtain c where "c \<in> set plan" "c_scenario c = sc" "c_stack c = st" by blast
    moreover from this(1) fwd obtain m j where "m \<in> set ms" "outcome_of j c = Inr m" by blast
    ultimately show ?thesis using assms by metis
  qed
  then obtain rows where rows: "summary ms summary_scenarios = Ret rows" "map fst rows = summary_scenarios"
    and r: "rows_ok ms rows"
    using summary_rows [of summary_scenarios ms] by blast
  obtain W where W: "\<forall>c \<in> set plan. c_work c = W (c_scenario c)" by (rule plan_work)
  have "\<exists>j k c d. c \<in> set plan \<and> d \<in> set plan \<and> outcome_of j c = Inr base
            \<and> outcome_of k d = Inr ours \<and> c_scenario c = sc \<and> c_scenario d = sc
            \<and> c_stack c = ''baseline'' \<and> c_stack d = ''ohmcp'' \<and> c_work c = c_work d"
    if "(sc, base, ours) \<in> set rows" for sc base ours
  proof -
    from r that have b: "base \<in> set ms" "ours \<in> set ms" "m_scenario base = sc" "m_scenario ours = sc"
      "m_stack base = ''baseline''" "m_stack ours = ''ohmcp''" by (auto simp: rows_ok_def)
    from bspec [OF bwd b(1)] bspec [OF bwd b(2)] obtain c d j k where cd: "c \<in> set plan" "d \<in> set plan"
      "outcome_of j c = Inr base" "outcome_of k d = Inr ours" by blast
    have "c_scenario c = sc" "c_scenario d = sc" "c_stack c = ''baseline''" "c_stack d = ''ohmcp''"
      using assms cd(3,4) b by metis+
    moreover have "c_work c = c_work d" using W cd(1,2) calculation(1,2) by simp
    ultimately show ?thesis using cd by blast
  qed
  with rows show ?thesis by (auto simp: bench_main_def ms(1))
qed

theorem benchmark_compares_equal_work_witness:
  "let m = (\<lambda>c. metrics_of (\<lambda>h q. 0) (c_scenario c) (c_stack c) [7] 0 0)
   in case bench_main (\<lambda>j c. Inr (m c)) of
        Ret (Inr (ms, rows)) \<Rightarrow> map fst rows = summary_scenarios
      | _ \<Rightarrow> False"
proof -
  let ?o = "\<lambda>(j :: nat) c. Inr (metrics_of (\<lambda>h q. 0) (c_scenario c) (c_stack c) [7] 0 0) :: string + metrics"
  have "\<not> f64_nan 0" by (simp add: f64_nan_def f64_exponent_def)
  then have "\<not> f64_nan (ops_per_sec (metrics_of (\<lambda>h q. 0) sc st [7] 0 0))" for sc st
    by (intro metrics_number) simp_all
  then have "\<forall>j c m. ?o j c = Inr m \<longrightarrow> m_scenario m = c_scenario c \<and> m_stack m = c_stack c \<and> \<not> f64_nan (ops_per_sec m)"
    by (simp add: metrics_of_def)
  from benchmark_compares_equal_work [OF this] show ?thesis
    by (auto simp: Let_def split: ret.splits sum.splits prod.splits)
qed



text \<open>The scenario of the ten hot queries has the hit rate its comment gives: of any number of calls to a daemon that
  has just started at most ten miss its cache, of the 5000 of a run 0.2 percent.\<close>

lemma hot_queries_miss_at_most_once:
  assumes "calls_of repeat_work n calls" "in_time t0 calls"
    and "serve_calls x calls s (shared_new token (builtin_registry x show start)) = (hs, s', sh')"
  shows "length (filter Not hs) \<le> 10"
proof -
  have "work_keys x repeat_work n \<subseteq> work_keys x repeat_work 10"
    by (auto simp: work_keys_def repeat_work_def)
  then have "card (work_keys x repeat_work n) \<le> card (work_keys x repeat_work 10)"
    by (rule card_mono [rotated]) (simp add: work_keys_def)
  also have "\<dots> \<le> 10" by (rule card_work_keys)
  finally have c: "card (work_keys x repeat_work n) \<le> 10" .
  from workload_run [OF _ _ assms(1,2) _ _ _ _ _ assms(3)] fresh_cache c
  have "hs = hits_of {} (map (key_of x) calls)" by simp
  then have "length (filter Not hs) = card (set (map (key_of x) calls))" using hits_of_misses [of "{} :: cache_key set" "map (key_of x) calls"] by simp
  with c calls_of_keys [OF assms(1), of x] show ?thesis by simp
qed

end
