(* ===== verification/Core_Rpc.thy ===== *)
theory Core_Rpc
  imports Core_Frame Core_Message External
begin

text \<open>
  The JSON-RPC bridge, \<open>ohmcp-core/src/rpc.rs\<close>. Its inputs and results are \<open>serde_json::Value\<close>s,
  so the object literals of the code are in normal form.
\<close>

definition jsonrpc_to_frame :: "ext \<Rightarrow> json \<Rightarrow> core_error + frame" where
  "jsonrpc_to_frame x v =
     (case Option.bind (json_get ''method'' v) as_str of
        None \<Rightarrow> Inl (Codec ''missing method'')
      | Some method \<Rightarrow>
          let i = (case Option.bind (json_get ''id'' v) as_u64 of Some n \<Rightarrow> n | None \<Rightarrow> 0);
              params = (case json_get ''params'' v of Some p \<Rightarrow> p | None \<Rightarrow> JNull);
              mapped =
                (if method = ''initialize'' then Inr (Initialize, params)
                 else if method = ''tools/list'' then Inr (ListTools, params)
                 else if method = ''tools/call'' then Inr (CallTool, params)
                 else if method = ''resources/list'' then Inr (ListResources, params)
                 else if method = ''resources/read'' then Inr (ReadResource, params)
                 else if method = ''prompts/list'' then Inr (ListPrompts, params)
                 else if method = ''prompts/get'' then Inr (GetPrompt, params)
                 else if method = ''notifications/cancelled'' then Inr (Cancel, params)
                 else if method = ''ping'' then Inr (Ping, JNull)
                 else Inl (Codec (''unsupported method '' @ method)))
          in (case mapped of
                Inl e \<Rightarrow> Inl e
              | Inr (t, p) \<Rightarrow> Inr (frame_new t i (if is_null p then [] else to_vec x p))))"

definition frame_to_jsonrpc :: "ext \<Rightarrow> frame \<Rightarrow> core_error + json" where
  "frame_to_jsonrpc x f =
     (let i = JPos (request_id (header f));
          body = (if payload f = [] then Inr JNull
                  else case from_slice x (payload f) of
                      Inl e \<Rightarrow> Inl (Json e)
                    | Inr v \<Rightarrow> Inr (to_value v))
      in (case body of
            Inl e \<Rightarrow> Inl e
          | Inr b \<Rightarrow> Inr (to_value (
              case msg_type (header f) of
                Error \<Rightarrow> JObj [(''jsonrpc'', JStr ''2.0''), (''id'', i), (''error'', b)]
              | Progress \<Rightarrow> JObj [(''jsonrpc'', JStr ''2.0''), (''method'', JStr ''notifications/progress''),
                                  (''params'', b)]
              | Pong \<Rightarrow> JObj [(''jsonrpc'', JStr ''2.0''), (''id'', i), (''result'', JObj [])]
              | _ \<Rightarrow> JObj [(''jsonrpc'', JStr ''2.0''), (''id'', i), (''result'', b)]))))"

text \<open>The methods the bridge knows, and the message type of each.\<close>

definition rpc_methods :: "(string \<times> msg_type) list" where
  "rpc_methods =
     [(''initialize'', Initialize), (''tools/list'', ListTools), (''tools/call'', CallTool),
      (''resources/list'', ListResources), (''resources/read'', ReadResource),
      (''prompts/list'', ListPrompts), (''prompts/get'', GetPrompt),
      (''notifications/cancelled'', Cancel), (''ping'', Ping)]"

lemma jsonrpc_method:
  assumes "json_get ''method'' v = Some (JStr m)"
  shows "jsonrpc_to_frame x v =
    (case map_of rpc_methods m of
       None \<Rightarrow> Inl (Codec (''unsupported method '' @ m))
     | Some t \<Rightarrow>
         let i = (case Option.bind (json_get ''id'' v) as_u64 of Some n \<Rightarrow> n | None \<Rightarrow> 0);
             p = (if t = Ping then JNull
                  else case json_get ''params'' v of Some p \<Rightarrow> p | None \<Rightarrow> JNull)
         in Inr (frame_new t i (if is_null p then [] else to_vec x p)))"
  using assms by (simp add: jsonrpc_to_frame_def rpc_methods_def Let_def)

lemma jsonrpc_no_method:
  "Option.bind (json_get ''method'' v) as_str = None \<Longrightarrow> jsonrpc_to_frame x v = Inl (Codec ''missing method'')"
  by (simp add: jsonrpc_to_frame_def)

lemma jsonrpc_to_frame_Inr:
  assumes "jsonrpc_to_frame x v = Inr f"
  obtains m t where "json_get ''method'' v = Some (JStr m)" "map_of rpc_methods m = Some t"
    "msg_type (header f) = t"
    "request_id (header f) = (case Option.bind (json_get ''id'' v) as_u64 of Some n \<Rightarrow> n | None \<Rightarrow> 0)"
    "flags (header f) = FLAG_NONE"
proof -
  from assms obtain mv where g: "json_get ''method'' v = Some mv"
    by (cases "json_get ''method'' v") (auto simp: jsonrpc_to_frame_def)
  from assms g obtain m where "mv = JStr m"
    by (cases mv) (auto simp: jsonrpc_to_frame_def)
  with g have m: "json_get ''method'' v = Some (JStr m)" by simp
  from assms obtain t where t: "map_of rpc_methods m = Some t"
    by (cases "map_of rpc_methods m") (auto simp: jsonrpc_method [OF m])
  with assms that [OF m t] show ?thesis
    by (auto simp: jsonrpc_method [OF m] Let_def frame_new_def)
qed

text \<open>The response side: what each kind of frame turns into.\<close>

lemma to_value_frame_fields:
  "json_get k (to_value (JObj ms)) = map_option to_value (map_of (rev ms) k)"
proof -
  have "map_of (rev (map (map_prod id to_value) ms)) k = map_option to_value (map_of (rev ms) k)"
    by (simp add: rev_map map_prod_def id_def split_def map_of_map [of "to_value" "rev ms", unfolded split_def])
  then show ?thesis by (simp add: map_of_members_norm)
qed

lemma rpc_response_shape:
  assumes "frame_to_jsonrpc x f = Inr r"
  shows "\<exists>b. r = to_value (JObj
      (if msg_type (header f) = Progress
       then [(''jsonrpc'', JStr ''2.0''), (''method'', JStr ''notifications/progress''), (''params'', b)]
       else [(''jsonrpc'', JStr ''2.0''), (''id'', JPos (request_id (header f))),
             (if msg_type (header f) = Error then ''error'' else ''result'', b)]))"
proof -
  from assms obtain b where "r = to_value (
      case msg_type (header f) of
        Error \<Rightarrow> JObj [(''jsonrpc'', JStr ''2.0''), (''id'', JPos (request_id (header f))), (''error'', b)]
      | Progress \<Rightarrow> JObj [(''jsonrpc'', JStr ''2.0''), (''method'', JStr ''notifications/progress''), (''params'', b)]
      | Pong \<Rightarrow> JObj [(''jsonrpc'', JStr ''2.0''), (''id'', JPos (request_id (header f))), (''result'', JObj [])]
      | _ \<Rightarrow> JObj [(''jsonrpc'', JStr ''2.0''), (''id'', JPos (request_id (header f))), (''result'', b)])"
    by (cases "payload f = []"; cases "from_slice x (payload f)")
      (simp_all only: frame_to_jsonrpc_def Let_def if_True if_False sum.case sum.inject refl, blast+)
  then show ?thesis
    by (cases "msg_type (header f)") (auto simp del: to_value.simps)
qed

section \<open>Properties\<close>

text \<open>C37. A JSON-RPC request becomes a frame exactly for the nine methods the bridge knows: the frame has the
  type of the method, no flags, and the request's id when that is an unsigned 64-bit number and zero
  otherwise; any other method, and a request without one, is refused.\<close>

theorem rpc_request_mapping:
  "(case jsonrpc_to_frame x v of
      Inr f \<Rightarrow> \<exists>m. json_get ''method'' v = Some (JStr m) \<and> map_of rpc_methods m = Some (msg_type (header f))
        \<and> request_id (header f) = (case Option.bind (json_get ''id'' v) as_u64 of Some n \<Rightarrow> n | None \<Rightarrow> 0)
        \<and> flags (header f) = FLAG_NONE
    | Inl e \<Rightarrow> (e = Codec ''missing method'' \<and> (\<forall>m. json_get ''method'' v \<noteq> Some (JStr m)))
        \<or> (\<exists>m. json_get ''method'' v = Some (JStr m) \<and> map_of rpc_methods m = None
             \<and> e = Codec (''unsupported method '' @ m)))"
proof (cases "\<exists>m. json_get ''method'' v = Some (JStr m)")
  case True
  then obtain m where m: "json_get ''method'' v = Some (JStr m)" by blast
  show ?thesis
    by (cases "map_of rpc_methods m")
      (simp_all add: jsonrpc_method [OF m] m frame_new_def Let_def del: rpc_methods_def)
next
  case False
  then have "Option.bind (json_get ''method'' v) as_str = None"
    by (cases "json_get ''method'' v") (auto simp: as_str_None)
  with False show ?thesis by (simp add: jsonrpc_no_method)
qed

text \<open>In the other direction every frame with a readable body becomes a JSON-RPC message that carries the
  id and one of \<open>result\<close> and \<open>error\<close>, except a progress notice, which has a method and no id. So the
  two notifications about resources turn into responses to request 0.\<close>

lemma rpc_response_mapping:
  assumes "frame_to_jsonrpc x f = Inr r"
  shows "json_get ''jsonrpc'' r = Some (JStr ''2.0'')
    \<and> json_get ''id'' r = (if msg_type (header f) = Progress then None else Some (JPos (request_id (header f))))
    \<and> (json_get ''error'' r \<noteq> None \<longleftrightarrow> msg_type (header f) = Error)
    \<and> (json_get ''method'' r \<noteq> None \<longleftrightarrow> msg_type (header f) = Progress)
    \<and> (json_get ''result'' r \<noteq> None \<longleftrightarrow> msg_type (header f) \<notin> {Error, Progress})"
proof -
  let ?t = "msg_type (header f)"
  from rpc_response_shape [OF assms] obtain b where r: "r = to_value (JObj
      (if ?t = Progress then [(''jsonrpc'', JStr ''2.0''), (''method'', JStr ''notifications/progress''), (''params'', b)]
       else [(''jsonrpc'', JStr ''2.0''), (''id'', JPos (request_id (header f))),
             (if ?t = Error then ''error'' else ''result'', b)]))" by blast
  consider "?t = Progress" | "?t = Error" | "?t \<notin> {Error, Progress}" by blast
  then show ?thesis
    by cases (simp_all add: r to_value_frame_fields del: to_value.simps(8))
qed

end
