(* ===== verification/Transport_Softbus.thy ===== *)
theory Transport_Softbus
  imports Transport_Io
begin

text \<open>
  The DSoftBus adapter, \<open>ohmcp-transport/src/softbus.rs\<close>: a message-oriented session (here the
  in-process \<open>SimSession\<close>) presented as the byte stream the framed reader and writer run on.
\<close>

section \<open>SimSession\<close>

text \<open>One direction: the blocks in flight and whether each end still exists.\<close>

record chan =
  blocks :: "bytes list"
  tx_open :: bool
  rx_open :: bool

text \<open>\<open>SimSession::pair\<close>: two channels, \<open>ta/ra\<close> from the first session to the second, \<open>tb/rb\<close> back.\<close>

record link =
  fwd :: chan
  bwd :: chan

definition sim_pair :: link where
  "sim_pair = \<lparr>fwd = \<lparr>blocks = [], tx_open = True, rx_open = True\<rparr>,
               bwd = \<lparr>blocks = [], tx_open = True, rx_open = True\<rparr>\<rparr>"

definition sim_send_bytes :: "chan \<Rightarrow> bytes \<Rightarrow> (string + unit) \<times> chan" where
  "sim_send_bytes ch data =
     (if rx_open ch then (Inr (), ch\<lparr>blocks := blocks ch @ [data]\<rparr>)
      else (Inl ''peer session closed'', ch))"

definition sim_poll_recv_bytes :: "chan \<Rightarrow> bytes option poll \<times> chan" where
  "sim_poll_recv_bytes ch =
     (case blocks ch of
        b # bs \<Rightarrow> (Ready (Some b), ch\<lparr>blocks := bs\<rparr>)
      | [] \<Rightarrow> (if tx_open ch then (Pending, ch) else (Ready None, ch)))"

section \<open>SessionStream\<close>

record session_stream =
  pending :: bytes
  pos :: nat

definition stream_new :: session_stream where
  "stream_new = \<lparr>pending = [], pos = 0\<rparr>"

text \<open>
  The tail of \<open>poll_read\<close>: copy what fits into the caller's buffer, which has room for \<open>n\<close>
  bytes. A \<open>Ready\<close> answer carries the bytes put into it.
\<close>

definition take_pending :: "nat \<Rightarrow> session_stream \<Rightarrow> bytes \<times> session_stream" where
  "take_pending n st =
     (let k = min (length (pending st) - pos st) n
      in (take k (drop (pos st) (pending st)), st\<lparr>pos := pos st + k\<rparr>))"

definition poll_read :: "nat \<Rightarrow> session_stream \<Rightarrow> chan \<Rightarrow> bytes poll \<times> session_stream \<times> chan" where
  "poll_read n st ch =
     (if length (pending st) \<le> pos st then
        (case sim_poll_recv_bytes ch of
           (Ready (Some chunk), ch') \<Rightarrow>
             (case take_pending n (st\<lparr>pending := chunk, pos := 0\<rparr>) of (out, st') \<Rightarrow> (Ready out, st', ch'))
         | (Ready None, ch') \<Rightarrow> (Ready [], st, ch')
         | (Pending, ch') \<Rightarrow> (Pending, st, ch'))
      else (case take_pending n st of (out, st') \<Rightarrow> (Ready out, st', ch)))"

definition poll_write :: "bytes \<Rightarrow> chan \<Rightarrow> (string + nat) poll \<times> chan" where
  "poll_write buf ch =
     (case sim_send_bytes ch buf of
        (Inl e, ch') \<Rightarrow> (Ready (Inl e), ch')
      | (Inr _, ch') \<Rightarrow> (Ready (Inr (length buf)), ch'))"

text \<open>The reads of a \<open>FrameReader\<close> on the stream, each with room for one of the given sizes.\<close>

fun stream_events :: "nat list \<Rightarrow> session_stream \<Rightarrow> chan \<Rightarrow> io_event list \<times> session_stream \<times> chan" where
  "stream_events [] st ch = ([], st, ch)"
| "stream_events (n # ns) st ch =
     (case poll_read n st ch of
        (Pending, st', ch') \<Rightarrow> ([], st', ch')
      | (Ready out, st', ch') \<Rightarrow>
          (case stream_events ns st' ch' of (evs, st'', ch'') \<Rightarrow> (Bytes out # evs, st'', ch'')))"

section \<open>The stream carries exactly the bytes of the blocks\<close>

definition bytes_left :: "session_stream \<Rightarrow> chan \<Rightarrow> bytes" where
  "bytes_left st ch = drop (pos st) (pending st) @ concat (blocks ch)"

lemma take_pending_left:
  "take_pending n st = (out, st') \<Longrightarrow>
     drop (pos st) (pending st) = out @ drop (pos st') (pending st')"
  by (auto simp: take_pending_def Let_def) (metis add.commute append_take_drop_id drop_drop)

lemma poll_read_left:
  assumes "poll_read n st ch = (Ready out, st', ch')"
  shows "bytes_left st ch = out @ bytes_left st' ch'"
  using assms take_pending_left [of n st out st']
    take_pending_left [of n "st\<lparr>pending := c, pos := 0\<rparr>" out st' for c]
  by (fastforce simp: poll_read_def bytes_left_def sim_poll_recv_bytes_def
      split: if_splits list.splits prod.splits)

text \<open>With no empty block in flight, a read that returns nothing is the end of the stream.\<close>

lemma poll_read_empty:
  assumes "poll_read n st ch = (Ready [], st', ch')" "0 < n" "[] \<notin> set (blocks ch)"
  shows "st' = st" "ch' = ch" "bytes_left st ch = []" "\<not> tx_open ch"
  using assms
  by (auto simp: poll_read_def bytes_left_def sim_poll_recv_bytes_def take_pending_def Let_def min_def
      split: if_splits list.splits prod.splits)

lemma poll_read_blocks:
  "poll_read n st ch = (res, st', ch') \<Longrightarrow> set (blocks ch') \<subseteq> set (blocks ch) \<and> tx_open ch' = tx_open ch"
  by (auto simp: poll_read_def sim_poll_recv_bytes_def split: if_splits list.splits prod.splits)

lemma stream_events_split:
  assumes "stream_events ns st ch = (evs, st', ch')" "\<forall>n \<in> set ns. 0 < n" "[] \<notin> set (blocks ch)"
  shows "\<exists>cs k. evs = map Bytes cs @ replicate k (Bytes []) \<and> (\<forall>c \<in> set cs. c \<noteq> [])
    \<and> bytes_left st ch = concat cs @ bytes_left st' ch' \<and> (0 < k \<longrightarrow> bytes_left st' ch' = [] \<and> \<not> tx_open ch)"
  using assms
proof (induction ns arbitrary: st ch evs)
  case Nil
  then show ?case by (intro exI [of _ "[]"] exI [of _ 0]) simp
next
  case (Cons n ns)
  obtain res st1 ch1 where one: "poll_read n st ch = (res, st1, ch1)"
    using prod_cases3 by blast
  show ?case
  proof (cases res)
    case Pending
    with one Cons.prems(1) have "evs = []" "st' = st1" "ch' = ch1" by auto
    moreover from one Pending have "bytes_left st ch = bytes_left st1 ch1"
      by (auto simp: poll_read_def sim_poll_recv_bytes_def bytes_left_def
          split: if_splits list.splits prod.splits)
    ultimately show ?thesis by (intro exI [of _ "[]"] exI [of _ 0]) simp
  next
    case (Ready out)
    obtain evs' where tl: "stream_events ns st1 ch1 = (evs', st', ch')" and evs: "evs = Bytes out # evs'"
      using Cons.prems(1) one Ready by (auto split: prod.splits)
    have blocks: "[] \<notin> set (blocks ch1)" "tx_open ch1 = tx_open ch"
      using poll_read_blocks [OF one] Cons.prems(3) by auto
    have left: "bytes_left st ch = out @ bytes_left st1 ch1"
      using one Ready by (auto intro: poll_read_left)
    have "\<forall>n \<in> set ns. 0 < n" using Cons.prems(2) by simp
    from Cons.IH [OF tl this blocks(1), unfolded blocks(2)] obtain cs k where IH:
      "evs' = map Bytes cs @ replicate k (Bytes [])" "\<forall>c \<in> set cs. c \<noteq> []"
      "bytes_left st1 ch1 = concat cs @ bytes_left st' ch'"
      "0 < k \<longrightarrow> bytes_left st' ch' = [] \<and> \<not> tx_open ch"
      by (elim exE conjE) (rule that)
    show ?thesis
    proof (cases "out = []")
      case True
      with one Ready have "poll_read n st ch = (Ready [], st1, ch1)" by simp
      note eof = poll_read_empty [OF this _ Cons.prems(3)]
      have "0 < n" using Cons.prems(2) by simp
      then have e: "bytes_left st ch = []" "\<not> tx_open ch" "bytes_left st1 ch1 = []"
        using eof by simp_all
      with IH(2,3) have "cs = []" "bytes_left st' ch' = []" by (cases cs, auto)
      with e IH(1) evs True show ?thesis
        by (intro exI [of _ "[]"] exI [of _ "Suc k"]) simp
    next
      case False
      with IH evs left show ?thesis
        by (intro exI [of _ "out # cs"] exI [of _ k]) auto
    qed
  qed
qed

section \<open>Properties\<close>

text \<open>C28. Frames written to a message-oriented session as non-empty blocks, cut anywhere, and read back
  through the byte-stream adapter with buffers of any sizes are the same frames in the same order.\<close>

theorem softbus_frames_in_order:
  assumes "\<forall>f \<in> set fs. frame_ok f" "\<forall>n \<in> set ns. 0 < n" "[] \<notin> set (blocks ch)"
    and "concat (blocks ch) = concat (map wire fs)"
    and "stream_events ns stream_new ch = (evs, st', ch')" "bytes_left st' ch' = []"
  shows "\<exists>r k. read_frames decode (length fs) reader_new evs
    = (map (\<lambda>f. Ready (Inr (Some f))) fs, r, replicate k (Bytes [])) \<and> rbuf r = []"
proof -
  from stream_events_split [OF assms(5,2,3)] obtain cs k where
    evs: "evs = map Bytes cs @ replicate k (Bytes [])" and ne: "\<forall>c \<in> set cs. c \<noteq> []"
    and left: "bytes_left stream_new ch = concat cs @ bytes_left st' ch'"
    by (elim exE conjE) (rule that)
  have "rbuf reader_new @ concat cs = concat (map wire fs)"
    using left assms(4,6) by (simp add: bytes_left_def stream_new_def reader_new_def)
  from ohmf.read_frames_stream [OF assms(1) ne this, of "replicate k (Bytes [])"] show ?thesis
    unfolding evs by blast
qed

theorem softbus_frames_in_order_witness:
  "\<exists>r k. read_frames decode 1 reader_new
      (fst (stream_events [9, 9, 9] stream_new
        \<lparr>blocks = [take 10 (wire (frame_new Ping 1 [])), drop 10 (wire (frame_new Ping 1 []))], tx_open = True, rx_open = True\<rparr>))
    = ([Ready (Inr (Some (frame_new Ping 1 [])))], r, replicate k (Bytes []))"
proof -
  let ?w = "wire (frame_new Ping 1 [])"
  let ?ch = "\<lparr>blocks = [take 10 ?w, drop 10 ?w], tx_open = True, rx_open = True\<rparr>"
  have len: "length ?w = 17" by (simp add: length_wire HEADER_LEN_def frame_new_def)
  obtain evs st' ch' where e: "stream_events [9, 9, 9] stream_new ?ch = (evs, st', ch')"
    by (metis prod_cases3)
  have left: "bytes_left st' ch' = []"
    using e len by (auto simp: stream_new_def poll_read_def sim_poll_recv_bytes_def take_pending_def Let_def
        bytes_left_def split: if_splits)
  have ne: "[] \<notin> set (blocks ?ch)" using len by auto
  have "\<forall>f \<in> set [frame_new Ping 1 []]. frame_ok f"
    by (simp add: frame_ok_def frame_new_def MAX_FRAME_LEN_unat)
  from softbus_frames_in_order [OF this _ ne _ e left] e show ?thesis by auto
qed

text \<open>An empty block ends the stream for the reader although the peer is still there and more data
  follows: \<open>poll_read\<close> hands over nothing, which is the end of file to \<open>next_frame\<close>.\<close>

lemma softbus_empty_block_ends_stream:
  "let ch = \<lparr>blocks = [[], wire f], tx_open = True, rx_open = True\<rparr> in
   \<exists>st ch'. stream_events [n] stream_new ch = ([Bytes []], st, ch') \<and> blocks ch' = [wire f] \<and> tx_open ch'
     \<and> (\<exists>r. next_frame reader_new [Bytes []] = (Ready (Inr None), r, []))"
  using ohmf.read_loop_eof [of reader_new "[]"]
  by (simp add: poll_read_def stream_new_def sim_poll_recv_bytes_def take_pending_def Let_def
      next_frame_def reader_new_def)

end
