(* ===== verification/Tests_Wire.thy ===== *)
theory Tests_Wire
  imports Core_Rpc Transport_Softbus Transport_Shm
begin

text \<open>
  The unit tests of the crates \<open>ohmcp-core\<close> and \<open>ohmcp-transport\<close>, run on the model: the body of a \<open>#[test]\<close> function
  is a condition (an assertion that fails, or an \<open>unwrap\<close> of an error, makes it false), and a lemma says that the model
  passes it.
\<close>

section \<open>Frames\<close>

definition test_frame_roundtrip :: bool where
  "test_frame_roundtrip \<longleftrightarrow>
     (case decode (encode (frame_new CallTool 42 (as_bytes ''hello'')) []) of
        (Inr (Some g), buf) \<Rightarrow> request_id (header g) = 42 \<and> msg_type (header g) = CallTool
          \<and> payload g = as_bytes ''hello'' \<and> buf = []
      | _ \<Rightarrow> False)"

definition test_incomplete_returns_none :: bool where
  "test_incomplete_returns_none \<longleftrightarrow>
     (let buf = encode (frame_new Ping 1 (as_bytes ''abcdef'')) []
      in fst (decode (take (length buf - 3) buf)) = Inr None)"

definition test_bad_magic_rejected :: bool where
  "test_bad_magic_rejected \<longleftrightarrow> fst (decode (replicate HEADER_LEN 0)) = Inl BadMagic"

definition test_version_mismatch_rejected :: bool where
  "test_version_mismatch_rejected \<longleftrightarrow>
     (case fst (decode ((encode (frame_new Ping 1 []) [])[2 := PROTOCOL_VERSION + 1])) of
        Inl (BadVersion _) \<Rightarrow> True
      | _ \<Rightarrow> False)"

definition test_oversized_frame_rejected :: bool where
  "test_oversized_frame_rejected \<longleftrightarrow>
     (case fst (decode (blit (encode (frame_new Ping 1 []) []) 13 (u32_to_le (MAX_FRAME_LEN + 1)))) of
        Inl (FrameTooLarge _) \<Rightarrow> True
      | _ \<Rightarrow> False)"

definition test_unknown_msg_type_rejected :: bool where
  "test_unknown_msg_type_rejected \<longleftrightarrow>
     (case fst (decode ((encode (frame_new Ping 1 []) [])[4 := 0x66])) of
        Inl (Codec _) \<Rightarrow> True
      | _ \<Rightarrow> False)"

lemma small_frame_ok: "length p < 100000000 div 2 \<Longrightarrow> frame_ok (frame_new t i p)"
  by (simp add: frame_ok_def frame_new_def MAX_FRAME_LEN_unat)

lemma frame_roundtrip_passes: "test_frame_roundtrip"
proof -
  have ok: "frame_ok (frame_new CallTool 42 (as_bytes ''hello''))" by (simp add: small_frame_ok as_bytes_def)
  show ?thesis
    using decode_wire_ok [OF ok, of "[]"] unfolding test_frame_roundtrip_def
    by (simp add: encode_wire frame_new_def)
qed

lemma incomplete_passes: "test_incomplete_returns_none"
proof -
  let ?f = "frame_new Ping 1 (as_bytes ''abcdef'')"
  have ok: "frame_ok ?f" by (simp add: small_frame_ok as_bytes_def)
  have "length (wire ?f) - 3 < length (wire ?f)" by (simp add: length_wire HEADER_LEN_def)
  from decode_prefix_None [OF ok this] show ?thesis
    by (simp only: test_incomplete_returns_none_def Let_def wire_def [symmetric] fst_conv)
qed

lemma le_encode_numeral: "le_encode (numeral k) n = word_of_nat (n mod 256) # le_encode (pred_numeral k) (n div 256)"
  by (simp only: numeral_eq_Suc [of k] le_encode.simps)

lemma ping_bytes: "encode (frame_new Ping 1 []) [] = [0x4D, 0x4F, 1, 0, 7, 1, 0, 0, 0, 0, 0, 0, 0, 0, 0, 0, 0]"
  by (simp add: encode_def encode_header_def frame_new_def u16_to_le_def u32_to_le_def u64_to_le_def len_u32_def
    FRAME_MAGIC_def PROTOCOL_VERSION_def FLAG_NONE_def le_encode_numeral)

lemma bad_magic_passes: "test_bad_magic_rejected"
proof -
  have "(replicate 17 0 :: bytes) = [0, 0, 0, 0, 0, 0, 0, 0, 0, 0, 0, 0, 0, 0, 0, 0, 0]" by (simp add: numeral_eq_Suc)
  then show ?thesis
    by (simp add: test_bad_magic_rejected_def decode_def HEADER_LEN_def u16_from_le_def FRAME_MAGIC_def)
qed

lemma version_mismatch_passes: "test_version_mismatch_rejected"
  by (simp add: test_version_mismatch_rejected_def ping_bytes decode_def HEADER_LEN_def u16_from_le_def FRAME_MAGIC_def
      PROTOCOL_VERSION_def)

lemma oversized_passes: "test_oversized_frame_rejected"
  by (simp add: test_oversized_frame_rejected_def ping_bytes decode_def HEADER_LEN_def u16_from_le_def FRAME_MAGIC_def
      PROTOCOL_VERSION_def blit_def u32_to_le_def u32_from_le_def MAX_FRAME_LEN_def le_encode_numeral)

lemma unknown_msg_type_passes: "test_unknown_msg_type_rejected"
  by (simp add: test_unknown_msg_type_rejected_def ping_bytes decode_def HEADER_LEN_def u16_from_le_def FRAME_MAGIC_def
      PROTOCOL_VERSION_def u32_from_le_def msg_type_from_u8_def)

section \<open>The bridge\<close>

definition test_call_tool_roundtrip :: "ext \<Rightarrow> bool" where
  "test_call_tool_roundtrip x \<longleftrightarrow>
     (case jsonrpc_to_frame x (to_value (JObj [(''jsonrpc'', JStr ''2.0''), (''id'', JPos 7), (''method'', JStr ''tools/call''),
             (''params'', JObj [(''name'', JStr ''echo''), (''arguments'', JObj [(''msg'', JStr ''hi'')])])])) of
        Inl _ \<Rightarrow> False
      | Inr f \<Rightarrow> msg_type (header f) = CallTool \<and> request_id (header f) = 7
          \<and> (case from_slice x (payload f) of
               Inl _ \<Rightarrow> False
             | Inr p \<Rightarrow> json_get ''name'' (to_value p) = Some (JStr ''echo'')))"

definition test_resources_and_prompts_methods_map :: "ext \<Rightarrow> bool" where
  "test_resources_and_prompts_methods_map x \<longleftrightarrow>
     list_all (\<lambda>(method, expected).
       case jsonrpc_to_frame x (to_value (JObj [(''jsonrpc'', JStr ''2.0''), (''id'', JPos 1), (''method'', JStr method),
               (''params'', JObj [])])) of
         Inl _ \<Rightarrow> False
       | Inr f \<Rightarrow> msg_type (header f) = expected)
     [(''resources/list'', ListResources), (''resources/read'', ReadResource), (''prompts/list'', ListPrompts),
      (''prompts/get'', GetPrompt)]"

definition test_response_mapping :: "ext \<Rightarrow> bool" where
  "test_response_mapping x \<longleftrightarrow>
     (case frame_to_jsonrpc x (frame_new CallToolResult 7 (to_vec x (JObj [(''content'', JArr [])]))) of
        Inl _ \<Rightarrow> False
      | Inr v \<Rightarrow> json_get ''id'' v = Some (JPos 7)
          \<and> (case Option.bind (json_get ''result'' v) (json_get ''content'') of Some (JArr _) \<Rightarrow> True | _ \<Rightarrow> False))"

lemma to_value_twice: "to_value (to_value v) = to_value v"
  using to_value_is_value [of v] by (simp only: is_value_def)

text \<open>Of the text of documents: that the two documents of the tests are read back as they were written.\<close>

lemma call_tool_roundtrip_passes:
  assumes "\<And>v. from_slice x (to_vec x v) = Inr v"
  shows "test_call_tool_roundtrip x"
  unfolding test_call_tool_roundtrip_def jsonrpc_to_frame_def
  by (simp add: to_value_frame_fields to_value_twice assms is_null_def frame_new_def Let_def del: to_value.simps(8))
     (simp add: is_null_def)

lemma methods_map_passes: "test_resources_and_prompts_methods_map x"
  unfolding test_resources_and_prompts_methods_map_def jsonrpc_to_frame_def
  by (simp add: to_value_frame_fields frame_new_def Let_def del: to_value.simps(8))

lemma response_mapping_passes:
  assumes "from_slice x (to_vec x (JObj [(''content'', JArr [])])) = Inr (JObj [(''content'', JArr [])])"
    and "to_vec x (JObj [(''content'', JArr [])]) \<noteq> []"
  shows "test_response_mapping x"
  unfolding test_response_mapping_def frame_to_jsonrpc_def
  by (simp add: to_value_frame_fields to_value_twice assms frame_new_def del: to_value.simps(8))
section \<open>The framed reader and writer\<close>

text \<open>\<open>pieces\<close> is how the duplex stream hands the bytes to the reads.\<close>

definition test_duplex_roundtrip :: "(bytes \<Rightarrow> bytes list) \<Rightarrow> bool" where
  "test_duplex_roundtrip pieces \<longleftrightarrow>
     (case flush (fold queue (map (\<lambda>i. frame_new Ping (word_of_nat i) []) [0..<100]) writer_new) Wrote_all of
        (Inl _, _, _) \<Rightarrow> False
      | (Inr _, _, out) \<Rightarrow>
          (case read_frames decode 100 reader_new (map Bytes (pieces out)) of (rs, _, _) \<Rightarrow>
             list_all2 (\<lambda>i r. case r of Ready (Inr (Some f)) \<Rightarrow> request_id (header f) = word_of_nat i | _ \<Rightarrow> False)
               [0..<100] rs))"

lemma duplex_roundtrip_passes:
  assumes "\<And>b. concat (pieces b) = b" "\<And>b c. c \<in> set (pieces b) \<Longrightarrow> c \<noteq> []"
  shows "test_duplex_roundtrip pieces"
proof -
  let ?fs = "map (\<lambda>i. frame_new Ping (word_of_nat i) []) [0..<100]"
  let ?out = "concat (map wire ?fs)"
  have ok: "\<forall>f \<in> set ?fs. frame_ok f" by (auto simp: small_frame_ok)
  have f: "flush (fold queue ?fs writer_new) Wrote_all = (Inr (), w, out) \<Longrightarrow> out = ?out" for w out
    by (simp only: flush_ok queue_all prod.inject) (simp add: writer_new_def)
  have ne: "\<forall>c \<in> set (pieces ?out). c \<noteq> []" and c: "rbuf reader_new @ concat (pieces ?out) = ?out"
    using assms by (auto simp: reader_new_def)
  from ohmf.read_frames_stream [OF ok ne c, of "[]"] obtain r where
    r: "read_frames decode (length ?fs) reader_new (map Bytes (pieces ?out) @ []) = (map (\<lambda>f. Ready (Inr (Some f))) ?fs, r, [])"
    by (elim exE conjE) (rule that)
  have n: "length ?fs = 100" by (simp only: length_map length_upt)
  obtain w out where w: "flush (fold queue ?fs writer_new) Wrote_all = (Inr (), w, out)" using flush_ok by blast
  have l: "list_all2 (\<lambda>i r. case r of Ready (Inr (Some f)) \<Rightarrow> request_id (header f) = word_of_nat i | _ \<Rightarrow> False)
      [0..<100] (map (\<lambda>f. Ready (Inr (Some f))) ?fs)"
    by (simp only: list.map_comp list.rel_map list.rel_refl comp_def)
      (rule list.rel_refl, simp add: frame_new_def)
  show ?thesis
    using l unfolding test_duplex_roundtrip_def w f [OF w] prod.case sum.case
    by (simp only: r [unfolded n append_Nil2] prod.case)
qed

section \<open>The session adapter\<close>

text \<open>\<open>ns\<close> are the sizes of the reads.\<close>

definition test_frames_over_simulated_softbus_session :: "nat list \<Rightarrow> bool" where
  "test_frames_over_simulated_softbus_session ns \<longleftrightarrow>
     (case flush (fold queue (map (\<lambda>i. frame_new Ping (word_of_nat i) (replicate 100 7)) [0..<64]) writer_new) Wrote_all of
        (Inl _, _, _) \<Rightarrow> False
      | (Inr _, _, out) \<Rightarrow>
          (case poll_write out (fwd sim_pair) of
             (Ready (Inr _), ch) \<Rightarrow>
               (case read_frames decode 64 reader_new (fst (stream_events ns stream_new ch)) of (rs, _, _) \<Rightarrow>
                  list_all2 (\<lambda>i r. case r of
                      Ready (Inr (Some f)) \<Rightarrow> request_id (header f) = word_of_nat i \<and> length (payload f) = 100
                    | _ \<Rightarrow> False) [0..<64] rs)
           | _ \<Rightarrow> False))"

function chunks :: "nat \<Rightarrow> bytes \<Rightarrow> bytes list" where
  "chunks n bs = (if n = 0 \<or> bs = [] then [] else take n bs # chunks n (drop n bs))"
  by auto
termination by (relation "measure (length \<circ> snd)") auto

declare chunks.simps [simp del]

lemma chunks_split: "n \<noteq> 0 \<Longrightarrow> concat (chunks n bs) = bs \<and> [] \<notin> set (chunks n bs)"
  by (induction n bs rule: chunks.induct) (subst (1 2) chunks.simps, auto)

fun sim_send_all :: "bytes list \<Rightarrow> chan \<Rightarrow> chan option" where
  "sim_send_all [] ch = Some ch"
| "sim_send_all (b # bs) ch =
     (case sim_send_bytes ch b of (Inl _, _) \<Rightarrow> None | (Inr _, ch') \<Rightarrow> sim_send_all bs ch')"

definition test_large_frame_spans_message_boundaries :: "nat list \<Rightarrow> bool" where
  "test_large_frame_spans_message_boundaries ns \<longleftrightarrow>
     (case sim_send_all (chunks 4096 (encode (frame_new CallToolResult 42 (replicate 300000 9)) [])) (fwd sim_pair) of
        None \<Rightarrow> False
      | Some ch \<Rightarrow>
          (case next_frame reader_new (fst (stream_events ns stream_new (ch\<lparr>tx_open := False\<rparr>))) of
             (Ready (Inr (Some f)), r, evs) \<Rightarrow> request_id (header f) = 42 \<and> length (payload f) = 300000
               \<and> fst (next_frame r evs) = Ready (Inr None)
           | _ \<Rightarrow> False))"

definition test_closed_session_is_clean_eof :: "nat \<Rightarrow> bool" where
  "test_closed_session_is_clean_eof n \<longleftrightarrow>
     fst (next_frame reader_new (fst (stream_events [n] stream_new ((fwd sim_pair)\<lparr>tx_open := False\<rparr>)))) = Ready (Inr None)"

text \<open>As many reads as there are bytes drain the stream.\<close>

lemma stream_drained:
  assumes "stream_events ns st ch = (evs, st', ch')" "\<forall>n \<in> set ns. 0 < n" "[] \<notin> set (blocks ch)"
    and "length (bytes_left st ch) \<le> length ns"
  shows "bytes_left st' ch' = []"
  using assms
proof (induction ns arbitrary: st ch evs)
  case (Cons n ns)
  obtain res st1 ch1 where one: "poll_read n st ch = (res, st1, ch1)" using prod_cases3 by blast
  show ?case
  proof (cases res)
    case Pending
    with one Cons.prems(1) have "st' = st1" "ch' = ch1" by auto
    with one Pending show ?thesis
      by (auto simp: poll_read_def sim_poll_recv_bytes_def bytes_left_def split: if_splits list.splits prod.splits)
  next
    case (Ready out)
    obtain evs' where tl: "stream_events ns st1 ch1 = (evs', st', ch')"
      using Cons.prems(1) one Ready by (auto split: prod.splits)
    have blocks: "[] \<notin> set (blocks ch1)" using poll_read_blocks [OF one] Cons.prems(3) by auto
    have left: "bytes_left st ch = out @ bytes_left st1 ch1" using one Ready by (auto intro: poll_read_left)
    have "length (bytes_left st1 ch1) \<le> length ns"
    proof (cases "out = []")
      case True
      with one Ready have "poll_read n st ch = (Ready [], st1, ch1)" by simp
      note eof = poll_read_empty(3) [OF this _ Cons.prems(3)]
      have "0 < n" using Cons.prems(2) by simp
      from eof [OF this] left show ?thesis by simp
    next
      case False
      then have "0 < length out" by simp
      moreover have "length out + length (bytes_left st1 ch1) \<le> Suc (length ns)" using Cons.prems(4) left by simp
      ultimately show ?thesis by linarith
    qed
    with Cons.IH [OF tl] Cons.prems(2) blocks show ?thesis by simp
  qed
qed simp

lemma closed_stream_answers:
  assumes "stream_events ns st ch = (evs, st', ch')" "\<not> tx_open ch"
  shows "length evs = length ns"
  using assms
proof (induction ns arbitrary: st ch evs)
  case (Cons n ns)
  obtain res st1 ch1 where one: "poll_read n st ch = (res, st1, ch1)" using prod_cases3 by blast
  have "\<not> tx_open ch1" using poll_read_blocks [OF one] Cons.prems(2) by simp
  moreover have "res \<noteq> Pending"
    using one Cons.prems(2) by (auto simp: poll_read_def sim_poll_recv_bytes_def split: if_splits list.splits prod.splits)
  then obtain out where "res = Ready out" by (cases res) simp_all
  with one Cons.prems(1) obtain evs' where "stream_events ns st1 ch1 = (evs', st', ch')" "evs = Bytes out # evs'"
    by (auto split: prod.splits)
  ultimately show ?case using Cons.IH by simp
qed simp

lemma session_delivers:
  assumes "\<forall>f \<in> set fs. frame_ok f" "[] \<notin> set (blocks ch)" "concat (blocks ch) = concat (map wire fs)"
    and "\<forall>n \<in> set ns. 0 < n" "length (concat (map wire fs)) < length ns"
  shows "\<exists>r k. read_frames decode (length fs) reader_new (fst (stream_events ns stream_new ch))
    = (map (\<lambda>f. Ready (Inr (Some f))) fs, r, replicate k (Bytes [])) \<and> rbuf r = [] \<and> (\<not> tx_open ch \<longrightarrow> 0 < k)"
proof -
  obtain evs st' ch' where e: "stream_events ns stream_new ch = (evs, st', ch')" using prod_cases3 by blast
  have b: "bytes_left stream_new ch = concat (map wire fs)" by (simp add: bytes_left_def stream_new_def assms(3))
  have left: "bytes_left st' ch' = []" using stream_drained [OF e assms(4,2)] assms(5) b by simp
  from stream_events_split [OF e assms(4,2)] obtain cs k where
    evs: "evs = map Bytes cs @ replicate k (Bytes [])" and ne: "\<forall>c \<in> set cs. c \<noteq> []"
    and c: "bytes_left stream_new ch = concat cs @ bytes_left st' ch'"
    by (elim exE conjE) (rule that)
  have cs: "concat cs = concat (map wire fs)" using b c left by simp
  have "length cs \<le> length (concat cs)" using ne by (induction cs) (auto simp: Suc_le_eq add_strict_increasing)
  then have "0 < k" if "\<not> tx_open ch"
    using closed_stream_answers [OF e that] assms(5) by (simp add: evs cs)
  moreover have "rbuf reader_new @ concat cs = concat (map wire fs)" by (simp add: cs reader_new_def)
  from ohmf.read_frames_stream [OF assms(1) ne this, of "replicate k (Bytes [])", folded evs]
  obtain r where "read_frames decode (length fs) reader_new evs
      = (map (\<lambda>f. Ready (Inr (Some f))) fs, r, replicate k (Bytes []))" "rbuf r = []"
    by (elim exE conjE) (rule that)
  ultimately show ?thesis unfolding e fst_conv by (intro exI [of _ r] exI [of _ k]) simp
qed

lemma pair_blocks: "blocks ((fwd sim_pair)\<lparr>blocks := bs\<rparr>) = bs"
  by (simp add: sim_pair_def)

lemma session_frames_pass:
  assumes "\<forall>n \<in> set ns. 0 < n" "64 * 117 < length ns"
  shows "test_frames_over_simulated_softbus_session ns"
proof -
  let ?f = "\<lambda>i. frame_new Ping (word_of_nat i) (replicate 100 7)"
  let ?fs = "map ?f [0..<64]" and ?out = "concat (map wire (map (\<lambda>i. frame_new Ping (word_of_nat i) (replicate 100 7)) [0..<64]))"
  let ?ch = "(fwd sim_pair)\<lparr>blocks := [?out]\<rparr>"
  have ok: "\<forall>f \<in> set ?fs. frame_ok f" by (auto simp: small_frame_ok)
  have "length (wire (?f i)) = 117" for i by (simp add: length_wire HEADER_LEN_def frame_new_def)
  then have len: "length ?out = 64 * 117" by (simp add: length_concat comp_def sum_list_triv)
  then have "?out \<noteq> []" by (metis length_0_conv mult_is_0 zero_neq_numeral)
  then have ne: "[] \<notin> set (blocks ?ch)" by (simp only: pair_blocks list.set empty_iff insert_iff simp_thms eq_commute [of "[]"])
  have c: "concat (blocks ?ch) = concat (map wire ?fs)" by (simp only: pair_blocks concat.simps append_Nil2)
  have "length (concat (map wire ?fs)) < length ns" using assms(2) by (simp only: len)
  from session_delivers [OF ok ne c assms(1) this] obtain r k where
    r: "read_frames decode (length ?fs) reader_new (fst (stream_events ns stream_new ?ch))
      = (map (\<lambda>f. Ready (Inr (Some f))) ?fs, r, replicate k (Bytes []))" by (elim exE conjE) (rule that)
  have n: "length ?fs = 64" by (simp only: length_map length_upt)
  have f: "out = ?out" if "flush (fold queue ?fs writer_new) Wrote_all = (Inr (), w, out)" for w out
    using that by (simp only: flush_ok queue_all prod.inject) (simp add: writer_new_def)
  obtain w out where w: "flush (fold queue ?fs writer_new) Wrote_all = (Inr (), w, out)" using flush_ok by blast
  have p: "poll_write ?out (fwd sim_pair) = (Ready (Inr (length ?out)), ?ch)"
    unfolding poll_write_def sim_send_bytes_def sim_pair_def by simp
  have l: "list_all2 (\<lambda>i r. case r of
        Ready (Inr (Some f)) \<Rightarrow> request_id (header f) = word_of_nat i \<and> length (payload f) = 100 | _ \<Rightarrow> False)
      [0..<64] (map (\<lambda>f. Ready (Inr (Some f))) ?fs)"
    by (simp only: list.map_comp list.rel_map comp_def) (rule list.rel_refl, simp add: frame_new_def)
  show ?thesis
    using l unfolding test_frames_over_simulated_softbus_session_def w f [OF w] prod.case sum.case
    by (simp only: p r [unfolded n] prod.case poll.case sum.case)
qed

lemma send_all_blocks: "rx_open ch \<Longrightarrow> sim_send_all bs ch = Some (ch\<lparr>blocks := blocks ch @ bs\<rparr>)"
  by (induction bs arbitrary: ch) (simp_all add: sim_send_bytes_def)

lemma large_frame_passes:
  assumes "\<forall>n \<in> set ns. 0 < n" "300017 < length ns"
  shows "test_large_frame_spans_message_boundaries ns"
proof -
  define p :: bytes where "p = replicate 300000 9"
  have p: "length p = 300000" by (simp only: p_def length_replicate)
  let ?f = "frame_new CallToolResult 42 p"
  define ch where "ch = (fwd sim_pair)\<lparr>blocks := chunks 4096 (wire ?f), tx_open := False\<rparr>"
  have ok: "\<forall>f \<in> set [?f]. frame_ok f" by (simp add: small_frame_ok p)
  have "(4096 :: nat) \<noteq> 0" by simp
  note split = chunks_split [OF this, of "wire ?f"]
  have ne: "[] \<notin> set (blocks ch)" and c: "concat (blocks ch) = concat (map wire [?f])" and tx: "\<not> tx_open ch"
    using split by (simp_all add: ch_def)
  have len: "length (concat (map wire [?f])) < length ns"
    using assms(2) by (simp add: length_wire HEADER_LEN_def frame_new_def p)
  from session_delivers [OF ok ne c assms(1) len] tx obtain r k where
    r: "read_frames decode 1 reader_new (fst (stream_events ns stream_new ch)) = ([Ready (Inr (Some ?f))], r, replicate k (Bytes []))"
    and e: "rbuf r = []" "0 < k" by auto
  have one: "next_frame reader_new (fst (stream_events ns stream_new ch)) = (Ready (Inr (Some ?f)), r, replicate k (Bytes []))"
    using r by (auto simp: next_frame_def split: prod.splits)
  obtain j where "k = Suc j" using e(2) gr0_implies_Suc by blast
  then have eof: "fst (next_frame r (replicate k (Bytes []))) = Ready (Inr None)"
    using ohmf.read_loop_eof [OF e(1), of "replicate j (Bytes [])"] by (auto simp: next_frame_def)
  have s: "sim_send_all (chunks 4096 (encode ?f [])) (fwd sim_pair) = Some ((fwd sim_pair)\<lparr>blocks := chunks 4096 (wire ?f)\<rparr>)"
    by (subst send_all_blocks) (simp_all add: sim_pair_def wire_def)
  have h: "request_id (header ?f) = 42" "length (payload ?f) = 300000" by (simp_all add: frame_new_def p)
  show ?thesis
    unfolding test_large_frame_spans_message_boundaries_def p_def [symmetric] s option.case ch_def [symmetric] one
    using h eof by simp
qed

lemma closed_session_passes: "0 < n \<Longrightarrow> test_closed_session_is_clean_eof n"
  unfolding test_closed_session_is_clean_eof_def
  using ohmf.read_loop_eof [of reader_new "[]"]
  by (auto simp: poll_read_def sim_poll_recv_bytes_def sim_pair_def stream_new_def next_frame_def reader_new_def)

section \<open>The ring\<close>

definition test_ring_roundtrip :: bool where
  "test_ring_roundtrip \<longleftrightarrow>
     (case ring_create 4096 None of
        Returns r \<Rightarrow>
          (case try_write r (replicate 1000 7) of
             (Some off, r') \<Rightarrow> fst (read_release r' off 1000) = Some (replicate 1000 7)
           | _ \<Rightarrow> False)
      | _ \<Rightarrow> False)"

definition test_ring_wraparound_and_backpressure :: bool where
  "test_ring_wraparound_and_backpressure \<longleftrightarrow>
     (case ring_create 4096 None of
        Returns r \<Rightarrow>
          (case try_write r (replicate 3000 1) of
             (Some a, r1) \<Rightarrow> fst (try_write r1 (replicate 3000 2)) = None
               \<and> (case read_release r1 a 3000 of (d, r2) \<Rightarrow> d = Some (replicate 3000 1)
                    \<and> (case try_write r2 (replicate 3000 2) of
                         (Some b, r3) \<Rightarrow> unat b mod 4096 = 0 \<and> fst (read_release r3 b 3000) = Some (replicate 3000 2)
                       | _ \<Rightarrow> False))
           | _ \<Rightarrow> False)
      | _ \<Rightarrow> False)"

definition test_ring_rejects_bad_ref :: bool where
  "test_ring_rejects_bad_ref \<longleftrightarrow>
     (case ring_create 4096 None of
        Returns r \<Rightarrow> fst (read_release r 0 100) = None
          \<and> (case try_write r (replicate 64 3) of
               (Some off, r') \<Rightarrow> fst (read_release r' off 65) = None \<and> fst (read_release r' off 8192) = None
             | _ \<Rightarrow> False)
      | _ \<Rightarrow> False)"

definition test_shm_ref_codec :: bool where
  "test_shm_ref_codec \<longleftrightarrow>
     decode_shm_ref (encode_shm_ref 123456789 4242) = Some (123456789, 4242)
     \<and> decode_shm_ref (take 11 (encode_shm_ref 123456789 4242)) = None"

text \<open>The calls on the socket pair succeed at once; \<open>fd\<close> is the descriptor of the memory.\<close>

definition test_fd_exchange_over_socketpair :: "int \<Rightarrow> bool" where
  "test_fd_exchange_over_socketpair fd \<longleftrightarrow>
     (case ring_create 8192 None of
        Returns r \<Rightarrow>
          (case try_write r (as_bytes ''cross-process payload'') of
             (Some off, r') \<Rightarrow>
               (case send_fd_blocking fd [Sent] of
                  Ready (Inr m) \<Rightarrow>
                    (case recv_fd_blocking [Recv_msg m] of
                       Ready (Inr (Some got_fd)) \<Rightarrow> got_fd = fd
                         \<and> (case ring_from_fd (head r') (tail r') (mem r') 8192 None of
                              Returns peer \<Rightarrow> fst (read_release peer off 21) = Some (as_bytes ''cross-process payload'')
                            | _ \<Rightarrow> False)
                     | _ \<Rightarrow> False)
                | _ \<Rightarrow> False)
           | _ \<Rightarrow> False)
      | _ \<Rightarrow> False)"

definition test_fd_exchange_decline :: bool where
  "test_fd_exchange_decline \<longleftrightarrow>
     (case send_fd_decline [Sent] of
        Ready (Inr m) \<Rightarrow> recv_fd_blocking [Recv_msg m] = Ready (Inr None)
      | _ \<Rightarrow> False)"

text \<open>The first record of a fresh ring, written and read back.\<close>

lemma first_record:
  assumes "ring_create c None = Returns r" "d \<noteq> []" "length d \<le> c"
  obtains r' where "try_write r d = (Some 0, r')" "cap r' = c" "head r' = word_of_nat (length d)" "tail r' = 0"
    and "\<exists>r''. read_release r' 0 (length d) = (Some d, r'') \<and> ring_rep r'' [] \<and> ring_budget r'' = ring_budget r'
      \<and> cap r'' = c \<and> head r'' = word_of_nat (length d) \<and> tail r'' = word_of_nat (length d)"
    and "ring_budget r \<le> Suc (ring_budget r')"
proof -
  have r: "r = \<lparr>cap = c, head = 0, tail = 0, mem = replicate c 0\<rparr>" and c: "0 < c" "c \<le> MAX_SHM_CAP"
    using assms(1) by (auto simp: ring_create_def split: if_splits)
  have rep: "ring_rep r []" unfolding r by (rule ring_rep_fresh [OF c])
  have big: "c < 2 ^ 64" using c(2) by (simp add: MAX_SHM_CAP_def)
  have fits: "\<not> (word_of_nat c :: u64) < word_of_nat (length d)"
    using assms(3) big by (simp add: of_nat_less_u64 unat_of_nat_u64)
  define r' where "r' = r\<lparr>mem := blit (mem r) 0 d, head := word_of_nat (length d)\<rparr>"
  have w: "try_write r d = (Some 0, r')"
    using assms(2,3) fits by (simp add: try_write_def r Let_def r'_def)
  have "2 * c \<le> 2 ^ 64 - 1" using c(2) by (simp add: MAX_SHM_CAP_def)
  then have "0 < ring_budget r" using c(1) by (simp add: ring_budget_def r div_greater_zero_iff)
  from ring_rep_write [OF rep this w] have b: "ring_budget r \<le> Suc (ring_budget r')" and rep': "ring_rep r' [(0, d)]" by simp_all
  from ring_rep_read [OF rep'] obtain r'' where
    rd: "read_release r' 0 (length d) = (Some d, r'')" "ring_rep r'' []" "ring_budget r'' = ring_budget r'" by blast
  then have "cap r'' = c" "head r'' = word_of_nat (length d)" "tail r'' = word_of_nat (length d)"
    by (auto simp: read_release_def r'_def r split: if_splits)
  with rd b w show thesis by (intro that) (auto simp: r'_def r)
qed

lemma ring_roundtrip_passes: "test_ring_roundtrip"
proof -
  define d :: bytes where "d = replicate 1000 7"
  have d: "length d = 1000" by (simp only: d_def length_replicate)
  then have ne: "d \<noteq> []" by auto
  obtain r where r: "ring_create 4096 None = Returns r" by (simp add: ring_create_def MAX_SHM_CAP_def)
  have "length d \<le> 4096" by (simp add: d)
  from first_record [OF r ne this] obtain r' where "try_write r d = (Some 0, r')"
    "\<exists>r''. read_release r' 0 (length d) = (Some d, r'')" by metis
  then show ?thesis unfolding test_ring_roundtrip_def d_def [symmetric] r by (auto simp: d)
qed

lemma ring_wraparound_passes: "test_ring_wraparound_and_backpressure"
proof -
  define d :: bytes where "d = replicate 3000 1"
  define e :: bytes where "e = replicate 3000 2"
  have l: "length d = 3000" "length e = 3000" by (simp_all only: d_def e_def length_replicate)
  then have ne: "d \<noteq> []" "e \<noteq> []" by auto
  obtain r where r: "ring_create 4096 None = Returns r" by (simp add: ring_create_def MAX_SHM_CAP_def)
  then have b: "2 \<le> ring_budget r" by (auto simp: ring_create_def MAX_SHM_CAP_def ring_budget_def)
  have "length d \<le> 4096" by (simp add: l)
  from first_record [OF r ne(1) this] obtain r1 where w: "try_write r d = (Some 0, r1)" "cap r1 = 4096"
      "head r1 = word_of_nat (length d)" "tail r1 = 0" "ring_budget r \<le> Suc (ring_budget r1)"
    and ex: "\<exists>r2. read_release r1 0 (length d) = (Some d, r2) \<and> ring_rep r2 [] \<and> ring_budget r2 = ring_budget r1
      \<and> cap r2 = 4096 \<and> head r2 = word_of_nat (length d) \<and> tail r2 = word_of_nat (length d)" .
  from ex obtain r2 where rd: "read_release r1 0 3000 = (Some d, r2)" "ring_rep r2 []" "ring_budget r2 = ring_budget r1"
      "cap r2 = 4096" "head r2 = 3000" "tail r2 = 3000"
    unfolding l by (elim exE conjE) (rule that, simp_all)
  have full: "try_write r1 e = (None, r1)" using ne by (simp add: try_write_def w l Let_def)
  define r3 where "r3 = r2\<lparr>mem := blit (mem r2) 0 e, head := 7096\<rparr>"
  have w2: "try_write r2 e = (Some 4096, r3)" using ne by (simp add: try_write_def rd l Let_def r3_def)
  have "0 < ring_budget r2" using b w(5) rd(3) by linarith
  from ring_rep_write(1) [OF rd(2) this w2] have "ring_rep r3 [(4096, e)]" by simp
  from ring_rep_read [OF this] obtain r4 where "read_release r3 4096 3000 = (Some e, r4)" by (auto simp: l)
  then show ?thesis
    unfolding test_ring_wraparound_and_backpressure_def d_def [symmetric] e_def [symmetric] r
    by (simp add: w rd full w2)
qed

lemma ring_rejects_bad_ref_passes: "test_ring_rejects_bad_ref"
proof -
  define d :: bytes where "d = replicate 64 3"
  have d: "length d = 64" by (simp only: d_def length_replicate)
  then have ne: "d \<noteq> []" by auto
  obtain r where r: "ring_create 4096 None = Returns r" by (simp add: ring_create_def MAX_SHM_CAP_def)
  then have un0: "cap r = 4096" "head r = 0" by (auto simp: ring_create_def split: if_splits)
  have un: "fst (read_release r 0 100) = None" by (simp add: read_release_def un0)
  have "length d \<le> 4096" by (simp add: d)
  from first_record [OF r ne this] obtain r' where "try_write r d = (Some 0, r')" "cap r' = 4096" "head r' = 64"
    unfolding d by (metis of_nat_numeral)
  then show ?thesis
    unfolding test_ring_rejects_bad_ref_def d_def [symmetric] r by (simp add: un0 read_release_def)
qed

lemma shm_ref_codec_passes: "test_shm_ref_codec"
proof -
  have "length (take 11 (encode_shm_ref 123456789 4242)) = 11" by (simp add: length_shm_ref)
  then have "decode_shm_ref (take 11 (encode_shm_ref 123456789 4242)) = None"
    by (simp only: decode_shm_ref_def) simp
  then show ?thesis by (simp only: test_shm_ref_codec_def shm_ref_roundtrip)
qed

lemma fd_exchange_passes:
  assumes "0 \<le> fd"
  shows "test_fd_exchange_over_socketpair fd"
proof -
  define d where "d = as_bytes ''cross-process payload''"
  have d: "length d = 21" "d \<noteq> []" by (simp_all add: d_def as_bytes_def)
  obtain r where r: "ring_create 8192 None = Returns r" by (simp add: ring_create_def MAX_SHM_CAP_def)
  have "length d \<le> 8192" by (simp add: d)
  from first_record [OF r d(2) this] obtain r' r'' where w: "try_write r d = (Some 0, r')" "cap r' = 8192"
    and rd: "read_release r' 0 21 = (Some d, r'')" unfolding d(1) by metis
  have m: "send_fd_blocking fd [Sent] = Ready (Inr \<lparr>carrier = 1, rights = Some (True, fd)\<rparr>)"
    by (simp add: send_fd_blocking_def)
  have "ring_from_fd (head r') (tail r') (mem r') 8192 None = Returns r'"
    using w(2) by (simp add: ring_from_fd_def MAX_SHM_CAP_def)
  with assms show ?thesis
    unfolding test_fd_exchange_over_socketpair_def d_def [symmetric] r by (simp add: w m rd)
qed

lemma fd_decline_passes: "test_fd_exchange_decline"
  by (simp add: test_fd_exchange_decline_def send_fd_decline_def)

end
