(* ===== verification/Tests_Payload.thy ===== *)
theory Tests_Payload
  imports Client_Pipeline Security_Auth
begin

text \<open>
  The unit tests of \<open>ohmcp-client/src/pipeline.rs\<close> and of the crates \<open>ohmcp-cache\<close> and \<open>ohmcp-security\<close>, run on the model as in
  \<open>Tests_Wire\<close>. Random bytes and instants are arguments. Where an assertion rests on the strength of a primitive (that
  LZ4 makes a text shorter, that a wrong key opens nothing), the lemma says which fact about the primitive it is.
\<close>

section \<open>The pipeline\<close>

definition test_wrap_unwrap_plain :: "ext \<Rightarrow> bool" where
  "test_wrap_unwrap_plain x \<longleftrightarrow>
     (let body = replicate 2048 (of_char CHR ''x'') in
      case wrap x CallTool 5 body pipeline_new of ((f, fl), p) \<Rightarrow>
        compressed fl \<and> fst (unwrap x 0 f p) = Inr body)"

definition test_wrap_unwrap_encrypted :: "ext \<Rightarrow> bytes \<Rightarrow> bytes \<Rightarrow> bool" where
  "test_wrap_unwrap_encrypted x rnd_a rnd_b \<longleftrightarrow>
     (let a = enable_encryption rnd_a (replicate 32 9) pipeline_new; b = enable_encryption rnd_b (replicate 32 9) pipeline_new in
      case wrap x CallToolResult 8 (as_bytes ''secret result'') a of ((f, fl), a') \<Rightarrow>
        encrypted fl \<and> fst (unwrap x 0 f b) = Inr (as_bytes ''secret result''))"

definition test_tampered_request_id_fails :: "ext \<Rightarrow> bytes \<Rightarrow> bool" where
  "test_tampered_request_id_fails x rnd \<longleftrightarrow>
     (case wrap x CallToolResult 8 (as_bytes ''secret'') (enable_encryption rnd (replicate 32 9) pipeline_new) of
        ((f, fl), a) \<Rightarrow> (case fst (unwrap x 0 (f\<lparr>header := (header f)\<lparr>request_id := 999\<rparr>\<rparr>) a) of Inl _ \<Rightarrow> True | Inr _ \<Rightarrow> False))"

lemma wrap_unwrap_plain_passes:
  assumes "lz4_ok x" "aead_ok x" "length (lz_compress x (replicate 2048 (of_char CHR ''x''))) < 2048"
  shows "test_wrap_unwrap_plain x"
proof -
  define b :: bytes where "b = replicate 2048 (of_char CHR ''x'')"
  have b: "length b = 2048" by (simp only: b_def length_replicate)
  have lz: "length (lz_compress x b) < 2048" using assms(3) by (simp only: b_def)
  obtain f fl p where w: "wrap x CallTool 5 b pipeline_new = ((f, fl), p)" by (metis prod.exhaust)
  have "p = pipeline_new" "p_cipher pipeline_new = None" using w by (auto simp: wrap_def pipeline_new_def Let_def split: prod.splits)
  with wrap_unwrap [OF assms(1,2) pipeline_new_wf _ w, of pipeline_new 0] wrap_plain [OF w]
  have "unwrap x 0 f p = (Inr b, p)" "maybe_compress x b = (payload f, compressed fl)" by (simp_all add: same_key_def)
  with lz b show ?thesis
    unfolding test_wrap_unwrap_plain_def b_def [symmetric] Let_def w by (auto simp: maybe_compress_def COMPRESS_THRESHOLD_def)
qed

lemma wrap_unwrap_encrypted_passes:
  assumes "lz4_ok x" "aead_ok x" "length rnd_a = 4"
  shows "test_wrap_unwrap_encrypted x rnd_a rnd_b"
proof -
  define key :: bytes where "key = replicate 32 9"
  let ?a = "enable_encryption rnd_a key pipeline_new" and ?b = "enable_encryption rnd_b key pipeline_new"
  obtain f fl a' where w: "wrap x CallToolResult 8 (as_bytes ''secret result'') ?a = ((f, fl), a')" by (metis prod.exhaust)
  have "same_key ?a ?b" by (simp add: same_key_def enable_encryption_def cipher_new_def)
  from wrap_unwrap [OF assms(1,2) enable_encryption_wf [OF pipeline_new_wf assms(3)] this w] wrap_header(7) [OF w]
  show ?thesis
    unfolding test_wrap_unwrap_encrypted_def key_def [symmetric] Let_def w
    by (simp add: encryption_enabled_def enable_encryption_def)
qed

lemma tampered_request_id_passes:
  assumes "aead_ok x" "aead_authentic x" "length rnd = 4"
  shows "test_tampered_request_id_fails x rnd"
proof -
  define key :: bytes where "key = replicate 32 9"
  let ?a = "enable_encryption rnd key pipeline_new" and ?c = "cipher_new key rnd"
  obtain f fl a where w: "wrap x CallToolResult 8 (as_bytes ''secret'') ?a = ((f, fl), a)" by (metis prod.exhaust)
  have c: "p_cipher ?a = Some ?c" "cipher_wf ?c" using assms(3) by (simp_all add: enable_encryption_def cipher_wf_def cipher_new_def)
  from wrap_sealed [OF w c(1)] obtain d where e: "cipher_encrypt x ?c d (frame_aad CallToolResult 8) = (payload f, the (p_cipher a))" .
  obtain c2 where c2: "p_cipher a = Some c2" "c_key ?c = c_key c2"
    using wrap_header(6) [OF w] c(1) by (cases "p_cipher a") (auto simp: same_key_def)
  have "frame_aad CallToolResult 999 \<noteq> frame_aad CallToolResult 8" by (simp add: frame_aad_inj)
  from cipher_tamper [OF assms(1,2) c(2) c2(2) e length_frame_aad length_frame_aad this]
  have "cipher_decrypt x c2 (payload f) (frame_aad CallToolResult 999) = Inl Decrypt_failed" .
  then show ?thesis
    unfolding test_tampered_request_id_fails_def key_def [symmetric] w
    using wrap_header(1,3,7) [OF w] c(1) c2(1) by (simp add: unwrap_def unseal_def encryption_enabled_def)
qed

section \<open>Compression\<close>

definition test_small_payload_not_compressed :: "ext \<Rightarrow> bool" where
  "test_small_payload_not_compressed x \<longleftrightarrow> maybe_compress x (as_bytes ''tiny'') = (as_bytes ''tiny'', False)"

definition test_large_payload_roundtrip :: "ext \<Rightarrow> bool" where
  "test_large_payload_roundtrip x \<longleftrightarrow>
     (let data = concat (replicate 1000 (as_bytes ''context '')) in
      case maybe_compress x data of (out, c) \<Rightarrow>
        c \<and> length out < length data \<and> maybe_decompress x out True = Inr data)"

lemma small_payload_passes: "test_small_payload_not_compressed x"
  by (simp add: test_small_payload_not_compressed_def maybe_compress_def COMPRESS_THRESHOLD_def as_bytes_def)

lemma large_payload_passes:
  assumes "lz4_ok x"
  shows "test_large_payload_roundtrip x \<longleftrightarrow> length (lz_compress x (concat (replicate 1000 (as_bytes ''context '')))) < 8000"
proof -
  define d where "d = concat (replicate 1000 (as_bytes ''context ''))"
  have "length (as_bytes ''context '') = 8" by (simp add: as_bytes_def)
  then have d: "length d = 8000" by (simp only: d_def length_concat map_replicate sum_list_replicate) simp
  have "maybe_decompress x (lz_compress x d) True = Inr d" using assms by (simp add: maybe_decompress_def lz4_ok_def)
  then show ?thesis
    unfolding test_large_payload_roundtrip_def d_def [symmetric] Let_def
    by (simp add: maybe_compress_def COMPRESS_THRESHOLD_def d Let_def)
qed

section \<open>The result cache\<close>

definition test_hit_and_miss :: "ext \<Rightarrow> ((cache_key \<times> entry) list \<Rightarrow> (cache_key \<times> entry) list) \<Rightarrow> nat \<Rightarrow> bool" where
  "test_hit_and_miss x order now \<longleftrightarrow>
     (let k = cache_key_compute (sha256 x) ''echo'' (as_bytes ''{\"msg\":\"hi\"}'') in
      case cache_get now k (cache_new 4 (60 * 10 ^ 9)) of (r1, c1) \<Rightarrow>
      case cache_get now k (cache_put order now k (as_bytes ''result'') c1) of (r2, c2) \<Rightarrow>
        r1 = None \<and> r2 = Some (as_bytes ''result'') \<and> cache_stats c2 = (1, 1))"

definition test_ttl_expiry :: "ext \<Rightarrow> ((cache_key \<times> entry) list \<Rightarrow> (cache_key \<times> entry) list) \<Rightarrow> nat \<Rightarrow> bool" where
  "test_ttl_expiry x order now \<longleftrightarrow>
     (let k = cache_key_compute (sha256 x) ''t'' (as_bytes ''a'')
      in fst (cache_get (now + 2 * 10 ^ 6) k (cache_put order now k (as_bytes ''v'') (cache_new 4 0))) = None)"

text \<open>The instants are those of the two sleeps, of two milliseconds each.\<close>

definition test_lru_eviction ::
  "ext \<Rightarrow> ((cache_key \<times> entry) list \<Rightarrow> (cache_key \<times> entry) list) \<Rightarrow> nat \<Rightarrow> bool" where
  "test_lru_eviction x order now \<longleftrightarrow>
     (let k1 = cache_key_compute (sha256 x) ''a'' (as_bytes ''1''); k2 = cache_key_compute (sha256 x) ''b'' (as_bytes ''2'');
          k3 = cache_key_compute (sha256 x) ''c'' (as_bytes ''3''); t2 = now + 2 * 10 ^ 6; t3 = now + 4 * 10 ^ 6;
          c1 = cache_put order now k1 (as_bytes ''1'') (cache_new 2 (60 * 10 ^ 9));
          c2 = cache_put order t2 k2 (as_bytes ''2'') c1 in
      case cache_get t3 k1 c2 of (r1, c3) \<Rightarrow>
      case cache_get t3 k2 (cache_put order t3 k3 (as_bytes ''3'') c3) of (r2, c4) \<Rightarrow>
      case cache_get t3 k1 c4 of (r3, c5) \<Rightarrow>
        r1 \<noteq> None \<and> r2 = None \<and> r3 \<noteq> None \<and> fst (cache_get t3 k3 c5) \<noteq> None)"

lemma hit_and_miss_passes: "test_hit_and_miss x order now"
  by (simp add: test_hit_and_miss_def Let_def cache_get_def cache_put_def cache_new_def cache_stats_def)

lemma ttl_expiry_passes: "test_ttl_expiry x order now"
  by (simp add: test_ttl_expiry_def Let_def cache_get_def cache_put_def cache_new_def)

text \<open>With two entries the sample is the whole map, and the one used less recently goes.\<close>

lemma evict_of_two:
  assumes "enumerates order" "entries c = [(k1, e1), (k2, e2)]" "k1 \<noteq> k2" "last_used e2 < last_used e1"
  shows "evict_lru order c = c\<lparr>entries := [(k1, e1)]\<rparr>"
proof -
  have "entries c \<noteq> []" using assms(2) by simp
  from evict_lru_victim [OF assms(1) this] obtain k e where v: "(k, e) \<in> set (entries c)"
    "\<forall>(k', e') \<in> set (take 8 (order (entries c))). last_used e \<le> last_used e'"
    "evict_lru order c = c\<lparr>entries := AList.delete k (entries c)\<rparr>" .
  have "length (order (entries c)) = 2" using enumerates_length [OF assms(1), of "entries c"] assms(2) by simp
  then have "set (take 8 (order (entries c))) = set (entries c)" using enumerates_set [OF assms(1)] by simp
  with v(2) assms(2) have "last_used e \<le> last_used e2" by simp
  with v(1) assms(2-4) have "k = k2" by auto
  with v(3) assms(2,3) show ?thesis by simp
qed

lemma lru_eviction_passes:
  fixes x :: ext
  defines "k1 \<equiv> cache_key_compute (sha256 x) ''a'' (as_bytes ''1'')" and "k2 \<equiv> cache_key_compute (sha256 x) ''b'' (as_bytes ''2'')"
    and "k3 \<equiv> cache_key_compute (sha256 x) ''c'' (as_bytes ''3'')"
  assumes "enumerates order" "distinct [k1, k2, k3]"
  shows "test_lru_eviction x order now"
proof -
  have d: "k1 \<noteq> k2" "k1 \<noteq> k3" "k2 \<noteq> k3" "k2 \<noteq> k1" "k3 \<noteq> k1" "k3 \<noteq> k2" using assms(5) by auto
  define t2 t3 where "t2 = now + 2 * 10 ^ 6" and "t3 = now + 4 * 10 ^ 6"
  then have t: "t3 - now \<le> 60 * 10 ^ 9" "t2 < t3" by simp_all
  define v1 v2 v3 where "v1 = as_bytes ''1''" and "v2 = as_bytes ''2''" and "v3 = as_bytes ''3''"
  define T :: nat where "T = 60 * 10 ^ 9"
  let ?e = "\<lambda>v i l. \<lparr>e_value = v, inserted = i, last_used = l\<rparr>"
  define c2 where "c2 = cache_put order t2 k2 v2 (cache_put order now k1 v1 (cache_new 2 T))"
  have c2: "entries c2 = [(k1, ?e v1 now now), (k2, ?e v2 t2 t2)]" "capacity c2 = 2" "ttl c2 = T"
    using d by (simp_all add: c2_def cache_put_def cache_new_def)
  define c3 where "c3 = c2\<lparr>entries := [(k1, ?e v1 now t3), (k2, ?e v2 t2 t2)], hits := hits c2 + 1\<rparr>"
  have g1: "cache_get t3 k1 c2 = (Some v1, c3)" using t by (simp add: cache_get_def c2 c3_def T_def)
  have c3: "entries c3 = [(k1, ?e v1 now t3), (k2, ?e v2 t2 t2)]" "capacity c3 = 2" "ttl c3 = T" by (simp_all add: c3_def c2)
  have ev: "evict_lru order c3 = c3\<lparr>entries := [(k1, ?e v1 now t3)]\<rparr>"
    using evict_of_two [OF assms(4) c3(1) d(1)] t(2) by simp
  define c4 where "c4 = cache_put order t3 k3 v3 c3"
  have c4: "entries c4 = [(k1, ?e v1 now t3), (k3, ?e v3 t3 t3)]" "ttl c4 = T"
    using d by (simp_all add: c4_def cache_put_def c3 ev)
  have g2: "cache_get t3 k2 c4 = (None, c4\<lparr>misses := misses c4 + 1\<rparr>)" using d by (simp add: cache_get_def c4)
  have g3: "\<exists>c5. cache_get t3 k1 (c4\<lparr>misses := misses c4 + 1\<rparr>) = (Some v1, c5) \<and> fst (cache_get t3 k3 c5) = Some v3"
    using t(1) d by (simp add: cache_get_def c4 T_def)
  show ?thesis
    unfolding test_lru_eviction_def k1_def [symmetric] k2_def [symmetric] k3_def [symmetric]
    unfolding Let_def t2_def [symmetric] t3_def [symmetric] v1_def [symmetric] v2_def [symmetric] v3_def [symmetric]
      T_def [symmetric]
    unfolding c2_def [symmetric]
    using g3 by (auto simp: g1 g2 c4_def [symmetric])
qed

section \<open>Authentication\<close>

definition test_valid_response_verifies :: "ext \<Rightarrow> bool" where
  "test_valid_response_verifies x \<longleftrightarrow>
     verify_response x (as_bytes ''secret'') (as_bytes ''nonce1'') (hmac_response x (as_bytes ''secret'') (as_bytes ''nonce1''))"

definition test_wrong_token_rejected :: "ext \<Rightarrow> bool" where
  "test_wrong_token_rejected x \<longleftrightarrow>
     \<not> verify_response x (as_bytes ''secret'') (as_bytes ''nonce1'') (hmac_response x (as_bytes ''attacker'') (as_bytes ''nonce1''))"

definition test_fs_key_agreement_matches_both_sides :: "ext \<Rightarrow> bytes \<Rightarrow> bytes \<Rightarrow> bool" where
  "test_fs_key_agreement_matches_both_sides x rnd_a rnd_b \<longleftrightarrow>
     (let a = ephemeral_generate x rnd_a; b = ephemeral_generate x rnd_b
      in derive_fs_session_key x a (public b) (as_bytes ''token'') (as_bytes ''nonce'')
         = derive_fs_session_key x b (public a) (as_bytes ''token'') (as_bytes ''nonce''))"

definition test_fs_keys_differ_per_session :: "ext \<Rightarrow> bytes \<Rightarrow> bytes \<Rightarrow> bytes \<Rightarrow> bytes \<Rightarrow> bool" where
  "test_fs_keys_differ_per_session x a1 b1 a2 b2 \<longleftrightarrow>
     (let mk = (\<lambda>a b. derive_fs_session_key x (ephemeral_generate x a) (public (ephemeral_generate x b))
                        (as_bytes ''token'') (as_bytes ''nonce''))
      in mk a1 b1 \<noteq> mk a2 b2)"

definition test_session_keys_differ_per_nonce :: "ext \<Rightarrow> bool" where
  "test_session_keys_differ_per_nonce x \<longleftrightarrow>
     derive_session_key x (as_bytes ''secret'') (as_bytes ''n1'') \<noteq> derive_session_key x (as_bytes ''secret'') (as_bytes ''n2'')"

lemma valid_response_passes: "test_valid_response_verifies x"
  by (simp add: test_valid_response_verifies_def response_verifies)

lemma wrong_token_passes:
  "test_wrong_token_rejected x \<longleftrightarrow>
     hmac_sha256 x (as_bytes ''secret'') (as_bytes ''nonce1'') \<noteq> hmac_sha256 x (as_bytes ''attacker'') (as_bytes ''nonce1'')"
  by (simp only: test_wrong_token_rejected_def verify_response_def hmac_response_def)

lemma fs_key_agreement_passes: "x25519_ok x \<Longrightarrow> test_fs_key_agreement_matches_both_sides x rnd_a rnd_b"
  by (simp add: test_fs_key_agreement_matches_both_sides_def fs_key_agreement)

text \<open>The keys of two sessions differ when HMAC keeps the two shared secrets apart.\<close>

lemma fs_keys_differ_passes:
  assumes "\<And>a b. hmac_sha256 x (as_bytes ''token'') (as_bytes ''ohmcp-fs'' @ as_bytes ''nonce'' @ a)
      = hmac_sha256 x (as_bytes ''token'') (as_bytes ''ohmcp-fs'' @ as_bytes ''nonce'' @ b) \<Longrightarrow> a = b"
    and "x25519_dh x a1 (x25519_public x b1) \<noteq> x25519_dh x a2 (x25519_public x b2)"
  shows "test_fs_keys_differ_per_session x a1 b1 a2 b2"
  using assms by (auto simp: test_fs_keys_differ_per_session_def Let_def derive_fs_session_key_def ephemeral_generate_def)

lemma session_keys_differ_passes:
  "test_session_keys_differ_per_nonce x \<longleftrightarrow>
     hmac_sha256 x (as_bytes ''secret'') (as_bytes ''ohmcp-sessionn1'') \<noteq> hmac_sha256 x (as_bytes ''secret'') (as_bytes ''ohmcp-sessionn2'')"
  by (simp add: test_session_keys_differ_per_nonce_def derive_session_key_def as_bytes_def)

section \<open>The access list\<close>

definition test_grant_and_check :: bool where
  "test_grant_and_check \<longleftrightarrow>
     (let acl = acl_grant ''agent-a'' ''echo'' acl_new
      in acl_check acl ''agent-a'' ''echo'' = Inr () \<and> acl_check acl ''agent-a'' ''rm'' \<noteq> Inr ()
         \<and> acl_check acl ''agent-b'' ''echo'' \<noteq> Inr ())"

definition test_allow_all :: bool where
  "test_allow_all \<longleftrightarrow> acl_check (acl_grant_all ''root-agent'' acl_new) ''root-agent'' ''anything'' = Inr ()"

lemma acl_tests_pass: "test_grant_and_check" "test_allow_all"
  by (simp_all add: test_grant_and_check_def test_allow_all_def acl_check_def acl_grant_def acl_grant_all_def acl_new_def Let_def)

section \<open>The session cipher\<close>

definition test_cipher_roundtrip :: "ext \<Rightarrow> bytes \<Rightarrow> bytes \<Rightarrow> bool" where
  "test_cipher_roundtrip x rnd_a rnd_b \<longleftrightarrow>
     decrypt_once x rnd_b (replicate 32 7) (encrypt_once x rnd_a (replicate 32 7) (as_bytes ''secret payload'') (as_bytes ''aad''))
       (as_bytes ''aad'') = Inr (as_bytes ''secret payload'')"

definition refused :: "security_error + bytes \<Rightarrow> bool" where
  "refused r \<longleftrightarrow> (case r of Inl _ \<Rightarrow> True | Inr _ \<Rightarrow> False)"

definition test_tampered_ciphertext_rejected :: "ext \<Rightarrow> bytes \<Rightarrow> bytes \<Rightarrow> bool" where
  "test_tampered_ciphertext_rejected x rnd_a rnd_b \<longleftrightarrow>
     (let ct = encrypt_once x rnd_a (replicate 32 7) (as_bytes ''secret'') (as_bytes ''aad'')
      in refused (decrypt_once x rnd_b (replicate 32 7) (butlast ct @ [last ct XOR 1]) (as_bytes ''aad'')))"

definition test_wrong_aad_rejected :: "ext \<Rightarrow> bytes \<Rightarrow> bytes \<Rightarrow> bool" where
  "test_wrong_aad_rejected x rnd_a rnd_b \<longleftrightarrow>
     refused (decrypt_once x rnd_b (replicate 32 7)
       (encrypt_once x rnd_a (replicate 32 7) (as_bytes ''secret'') (as_bytes ''aad-1'')) (as_bytes ''aad-2''))"

definition test_wrong_key_rejected :: "ext \<Rightarrow> bytes \<Rightarrow> bytes \<Rightarrow> bool" where
  "test_wrong_key_rejected x rnd_a rnd_b \<longleftrightarrow>
     refused (decrypt_once x rnd_b (replicate 32 2) (encrypt_once x rnd_a (replicate 32 1) (as_bytes ''secret'') []) [])"

definition test_truncated_ciphertext_rejected :: "ext \<Rightarrow> bytes \<Rightarrow> bytes \<Rightarrow> bool" where
  "test_truncated_ciphertext_rejected x rnd_a rnd_b \<longleftrightarrow>
     (let ct = encrypt_once x rnd_a (replicate 32 7) (as_bytes ''secret'') []
      in list_all (\<lambda>n. refused (decrypt_once x rnd_b (replicate 32 7) (take n ct) [])) [0..<12 + 16])"

definition test_nonce_unique_per_message :: "ext \<Rightarrow> bytes \<Rightarrow> bool" where
  "test_nonce_unique_per_message x rnd \<longleftrightarrow>
     (case cipher_encrypt x (cipher_new (replicate 32 7) rnd) (as_bytes ''x'') [] of (a, c) \<Rightarrow>
      case cipher_encrypt x c (as_bytes ''x'') [] of (b, c') \<Rightarrow> take 12 a \<noteq> take 12 b \<and> a \<noteq> b)"

definition test_nonces_differ_across_sessions :: "ext \<Rightarrow> bytes \<Rightarrow> bytes \<Rightarrow> bool" where
  "test_nonces_differ_across_sessions x rnd_a rnd_b \<longleftrightarrow>
     take 4 (fst (cipher_encrypt x (cipher_new (replicate 32 7) rnd_a) (as_bytes ''x'') []))
     \<noteq> take 4 (fst (cipher_encrypt x (cipher_new (replicate 32 7) rnd_b) (as_bytes ''x'') []))"

lemma cipher_roundtrip_passes:
  assumes "aead_ok x" "length rnd_a = 4"
  shows "test_cipher_roundtrip x rnd_a rnd_b"
proof -
  let ?c = "\<lambda>r. cipher_new (replicate 32 7) r"
  obtain d c' where e: "cipher_encrypt x (?c rnd_a) (as_bytes ''secret payload'') (as_bytes ''aad'') = (d, c')" by (metis prod.exhaust)
  have "cipher_wf (?c rnd_a)" "c_key (?c rnd_a) = c_key (?c rnd_b)" using assms(2) by (simp_all add: cipher_wf_def cipher_new_def)
  from cipher_roundtrip [OF assms(1) this e] show ?thesis
    by (simp only: test_cipher_roundtrip_def decrypt_once_def encrypt_once_def e fst_conv)
qed

text \<open>What opening the sealed text with other data, or another text, amounts to.\<close>

lemma refused_iff:
  assumes "aead_ok x" "length rnd = 4"
  shows "refused (decrypt_once x rnd' k' (encrypt_once x rnd k p a) a')
    \<longleftrightarrow> aead_open x k' (rnd @ u64_to_le 0) a' (aead_seal x k (rnd @ u64_to_le 0) a p) = None"
  using assms by (auto simp: refused_def decrypt_once_def encrypt_once_def cipher_decrypt_def cipher_encrypt_def cipher_new_def
      next_nonce_def aead_ok_def split: option.splits)

lemma wrong_aad_passes:
  assumes "aead_ok x" "length rnd_a = 4"
  shows "test_wrong_aad_rejected x rnd_a rnd_b \<longleftrightarrow> aead_open x (replicate 32 7) (rnd_a @ u64_to_le 0) (as_bytes ''aad-2'')
      (aead_seal x (replicate 32 7) (rnd_a @ u64_to_le 0) (as_bytes ''aad-1'') (as_bytes ''secret'')) = None"
  by (simp only: test_wrong_aad_rejected_def refused_iff [OF assms])

lemma wrong_key_passes:
  assumes "aead_ok x" "length rnd_a = 4"
  shows "test_wrong_key_rejected x rnd_a rnd_b \<longleftrightarrow> aead_open x (replicate 32 2) (rnd_a @ u64_to_le 0) []
      (aead_seal x (replicate 32 1) (rnd_a @ u64_to_le 0) [] (as_bytes ''secret'')) = None"
  by (simp only: test_wrong_key_rejected_def refused_iff [OF assms])

lemma tampered_ciphertext_passes:
  assumes "aead_ok x" "length rnd_a = 4"
    and s: "s = aead_seal x (replicate 32 7) (rnd_a @ u64_to_le 0) (as_bytes ''aad'') (as_bytes ''secret'')"
  shows "test_tampered_ciphertext_rejected x rnd_a rnd_b
    \<longleftrightarrow> aead_open x (replicate 32 7) (rnd_a @ u64_to_le 0) (as_bytes ''aad'') (butlast s @ [last s XOR 1]) = None"
proof -
  define key :: bytes where "key = replicate 32 7"
  have l: "length s = length (as_bytes ''secret'') + 16" using assms(1) by (simp add: s aead_ok_def)
  then have ne: "s \<noteq> []" by auto
  have "encrypt_once x rnd_a key (as_bytes ''secret'') (as_bytes ''aad'') = (rnd_a @ u64_to_le 0) @ s"
    by (simp add: encrypt_once_def cipher_encrypt_def cipher_new_def next_nonce_def s key_def)
  moreover have "butlast ((rnd_a @ u64_to_le 0) @ s) @ [last ((rnd_a @ u64_to_le 0) @ s) XOR 1]
      = (rnd_a @ u64_to_le 0) @ (butlast s @ [last s XOR 1])" using ne by (simp add: butlast_append)
  moreover have "length (rnd_a @ u64_to_le 0) = 12" by (simp add: assms(2))
  moreover have "length (butlast s @ [last s XOR 1]) = length s" using ne by simp
  ultimately show ?thesis
    using l unfolding test_tampered_ciphertext_rejected_def key_def [symmetric]
    by (auto simp: Let_def refused_def decrypt_once_def cipher_decrypt_def cipher_new_def split: option.splits)
qed

lemma truncated_ciphertext_passes: "test_truncated_ciphertext_rejected x rnd_a rnd_b"
  by (auto simp: test_truncated_ciphertext_rejected_def Let_def list_all_iff refused_def decrypt_once_def cipher_decrypt_def)

lemma nonce_unique_passes:
  assumes "length rnd = 4"
  shows "test_nonce_unique_per_message x rnd"
proof -
  have "u64_to_le 0 \<noteq> u64_to_le 1" by (simp only: u64_to_le_inj) simp
  with assms show ?thesis
    by (auto simp: test_nonce_unique_per_message_def cipher_encrypt_def cipher_new_def next_nonce_def)
qed

lemma nonces_differ_passes:
  assumes "length rnd_a = 4" "length rnd_b = 4"
  shows "test_nonces_differ_across_sessions x rnd_a rnd_b \<longleftrightarrow> rnd_a \<noteq> rnd_b"
  using assms by (simp add: test_nonces_differ_across_sessions_def cipher_encrypt_def cipher_new_def next_nonce_def)

end
