(* ===== verification/Client_Conn.thy ===== *)
theory Client_Conn
  imports Transport_Shm Client_Pipeline Security_Auth Core_Message
begin

unbundle bit_operations_syntax

text \<open>
  The client connection, \<open>ohmcp-client/src/lib.rs\<close>: the authentication handshake, requests over the
  uplink ring or in frames, the dispatch of incoming frames to the waiting requests and to the
  notification callbacks, and the cached tool call.
\<close>

section \<open>State\<close>

text \<open>What a callback was called with.\<close>

datatype notice = Progress_note progress_params | Updated_note string | List_changed_note

text \<open>
  \<open>OhmcpClient\<close>. The senders of \<open>pending\<close> are the ids in \<open>waiting\<close>, and a frame sent to one is in
  \<open>ready\<close> until its request takes it. \<open>csent\<close> is what has reached the socket.
\<close>

record client =
  cw :: writer
  csent :: bytes
  waiting :: "u64 set"
  ready :: "u64 \<rightharpoonup> frame"
  next_id :: u64
  cpipe :: pipeline
  cshm :: "ring option"
  cshm_up :: "ring option"
  progress_cbs :: "u64 set"
  updated_cb :: bool
  list_cb :: bool
  noted :: "notice list"

definition client_new :: "pipeline \<Rightarrow> ring option \<Rightarrow> ring option \<Rightarrow> client" where
  "client_new p down up =
     \<lparr>cw = writer_new, csent = [], waiting = {}, ready = Map.empty, next_id = 1, cpipe = p, cshm = down,
      cshm_up = up, progress_cbs = {}, updated_cb = False, list_cb = False, noted = []\<rparr>"

section \<open>Authentication handshake\<close>

text \<open>The client's side: what it sends for a nonce and an ephemeral key, both random.\<close>

definition auth_request :: "ext \<Rightarrow> string \<Rightarrow> bytes \<Rightarrow> bytes \<Rightarrow> ephemeral_key_pair \<Rightarrow> auth_params" where
  "auth_request x agent token nonce eph =
     \<lparr>ap_agent_id = agent,
      ap_token = hex (hmac_response x token (as_bytes (hex nonce))),
      ap_nonce = Some (hex nonce),
      ap_eph_pub = Some (hex (public eph))\<rparr>"

definition auth_frame :: "ext \<Rightarrow> auth_params \<Rightarrow> frame" where
  "auth_frame x params = frame_new Auth 0 (to_vec x (se_auth_params params))"

text \<open>Reading a struct from a body.\<close>

definition read_json :: "ext \<Rightarrow> (json \<Rightarrow> 'a option) \<Rightarrow> bytes \<Rightarrow> string + 'a" where
  "read_json x de body =
     (case from_slice x body of
        Inl e \<Rightarrow> Inl e
      | Inr v \<Rightarrow> (case de v of None \<Rightarrow> Inl ''invalid message'' | Some a \<Rightarrow> Inr a))"

text \<open>The answer: the session key, or the reason for the refusal; a bad public key can panic.\<close>

datatype auth_error = Bad_answer string | Auth_refused "string option"

definition auth_key :: "ext \<Rightarrow> bytes \<Rightarrow> bytes \<Rightarrow> ephemeral_key_pair \<Rightarrow> frame \<Rightarrow> (auth_error + bytes) ret" where
  "auth_key x token nonce eph resp =
     (case read_json x de_auth_result (payload resp) of
        Inl e \<Rightarrow> Ret (Inl (Bad_answer e))
      | Inr result \<Rightarrow>
          if \<not> ar_ok result then Ret (Inl (Auth_refused (ar_reason result)))
          else (case ar_eph_pub result of
              None \<Rightarrow> Ret (Inr (derive_session_key x token (as_bytes (hex nonce))))
            | Some h \<Rightarrow>
                (case unhex32 h of
                   Panicked \<Rightarrow> Panicked
                 | Ret None \<Rightarrow> Ret (Inr (derive_session_key x token (as_bytes (hex nonce))))
                 | Ret (Some pub) \<Rightarrow> Ret (Inr (derive_fs_session_key x eph pub token (as_bytes (hex nonce)))))))"

section \<open>Requests\<close>

text \<open>The frame of a request: by reference when the uplink ring takes it, otherwise wrapped.\<close>

definition request_frame :: "ext \<Rightarrow> msg_type \<Rightarrow> u64 \<Rightarrow> bytes \<Rightarrow> client \<Rightarrow> frame \<times> client" where
  "request_frame x t i body c =
     (let inline = (case wrap x t i body (cpipe c) of ((f, fl), p) \<Rightarrow> (f, c\<lparr>cpipe := p\<rparr>))
      in case cshm_up c of
          None \<Rightarrow> inline
        | Some ring \<Rightarrow>
            if length body < SHM_THRESHOLD then inline
            else (case try_write ring body of
                (None, _) \<Rightarrow> inline
              | (Some off, ring') \<Rightarrow>
                  (let f = frame_new t i (encode_shm_ref off (len_u32 body))
                   in (f\<lparr>header := (header f)\<lparr>flags := flags (header f) OR SHM_REF\<rparr>\<rparr>,
                       c\<lparr>cshm_up := Some ring'\<rparr>))))"

text \<open>Up to the write: the id is registered, and whether others were already waiting.\<close>

definition enqueue_request :: "ext \<Rightarrow> msg_type \<Rightarrow> u64 \<Rightarrow> bytes \<Rightarrow> client \<Rightarrow> bool \<times> client" where
  "enqueue_request x t i body c =
     (case request_frame x t i body c of
        (f, c1) \<Rightarrow> (waiting c1 - {i} \<noteq> {}, c1\<lparr>waiting := insert i (waiting c1), cw := queue f (cw c1)\<rparr>))"

definition flush_requests :: "write_outcome \<Rightarrow> client \<Rightarrow> (string + unit) \<times> client" where
  "flush_requests out c =
     (case flush (cw c) out of
        (Inl e, w, bs) \<Rightarrow> (Inl (core_error_text e), c\<lparr>cw := w, csent := csent c @ bs\<rparr>)
      | (Inr _, w, bs) \<Rightarrow> (Inr (), c\<lparr>cw := w, csent := csent c @ bs\<rparr>))"

definition fresh_id :: "client \<Rightarrow> u64 \<times> client" where
  "fresh_id c = (next_id c, c\<lparr>next_id := next_id c + 1\<rparr>)"

section \<open>Incoming frames\<close>

definition resolve_shm :: "frame \<Rightarrow> client \<Rightarrow> (string + frame) \<times> client" where
  "resolve_shm f c =
     (if \<not> shm_ref (flags (header f)) then (Inr f, c)
      else (case cshm c of
          None \<Rightarrow> (Inl ''SHM_REF frame but shm channel not negotiated'', c)
        | Some ring \<Rightarrow>
            (case decode_shm_ref (payload f) of
               None \<Rightarrow> (Inl ''bad shm ref payload'', c)
             | Some (off, len) \<Rightarrow>
                 (case read_release ring off (unat len) of
                    (None, ring') \<Rightarrow> (Inl ''invalid shm ref'', c\<lparr>cshm := Some ring'\<rparr>)
                  | (Some d, ring') \<Rightarrow>
                      (Inr (f\<lparr>payload := d,
                              header := (header f)\<lparr>payload_len := len,
                                                   flags := flags (header f) AND NOT SHM_REF\<rparr>\<rparr>),
                       c\<lparr>cshm := Some ring'\<rparr>)))))"

definition client_unwrap :: "ext \<Rightarrow> nat \<Rightarrow> frame \<Rightarrow> client \<Rightarrow> (string + bytes) \<times> client" where
  "client_unwrap x now f c = (case unwrap x now f (cpipe c) of (r, p) \<Rightarrow> (r, c\<lparr>cpipe := p\<rparr>))"

definition on_progress :: "ext \<Rightarrow> nat \<Rightarrow> frame \<Rightarrow> client \<Rightarrow> client" where
  "on_progress x now f c =
     (case client_unwrap x now f c of
        (Inl _, c') \<Rightarrow> c'
      | (Inr body, c') \<Rightarrow>
          (case read_json x de_progress_params body of
             Inl _ \<Rightarrow> c'
           | Inr p \<Rightarrow> if pr_request_id p \<in> progress_cbs c'
                      then c'\<lparr>noted := noted c' @ [Progress_note p]\<rparr> else c'))"

definition on_list_changed :: "client \<Rightarrow> client" where
  "on_list_changed c = (if list_cb c then c\<lparr>noted := noted c @ [List_changed_note]\<rparr> else c)"

definition on_updated :: "ext \<Rightarrow> nat \<Rightarrow> frame \<Rightarrow> client \<Rightarrow> client" where
  "on_updated x now f c =
     (case client_unwrap x now f c of
        (Inl _, c') \<Rightarrow> c'
      | (Inr body, c') \<Rightarrow>
          (case read_json x de_resource_updated_params body of
             Inl _ \<Rightarrow> c'
           | Inr p \<Rightarrow> if updated_cb c' then c'\<lparr>noted := noted c' @ [Updated_note (upd_uri p)]\<rparr> else c'))"

text \<open>One round of the reading loop of the request \<open>i\<close>: its response, nothing for it yet, or an error.\<close>

definition recv_frame :: "ext \<Rightarrow> nat \<Rightarrow> u64 \<Rightarrow> frame \<Rightarrow> client \<Rightarrow> (string + frame option) \<times> client" where
  "recv_frame x now i f0 c0 =
     (case resolve_shm f0 c0 of
        (Inl e, c) \<Rightarrow> (Inl e, c)
      | (Inr f, c) \<Rightarrow>
          if msg_type (header f) = Progress then (Inr None, on_progress x now f c)
          else if msg_type (header f) = ResourceListChanged then (Inr None, on_list_changed c)
          else if msg_type (header f) = ResourceUpdated then (Inr None, on_updated x now f c)
          else if request_id (header f) = i then (Inr (Some f), c\<lparr>waiting := waiting c - {i}\<rparr>)
          else if request_id (header f) \<in> waiting c then
            (Inr None, c\<lparr>waiting := waiting c - {request_id (header f)},
                         ready := (ready c)(request_id (header f) \<mapsto> f)\<rparr>)
          else (Inr None, c))"

text \<open>The loop, over the instants and the results of \<open>next_frame\<close>.\<close>

fun recv_loop ::
  "ext \<Rightarrow> u64 \<Rightarrow> (nat \<times> (core_error + frame option)) list \<Rightarrow> client \<Rightarrow> (string + frame) poll \<times> client" where
  "recv_loop x i [] c = (Pending, c)"
| "recv_loop x i ((now, Inl e) # ins) c = (Ready (Inl (core_error_text e)), c)"
| "recv_loop x i ((now, Inr None) # ins) c = (Ready (Inl ''connection closed''), c)"
| "recv_loop x i ((now, Inr (Some f)) # ins) c =
     (case recv_frame x now i f c of
        (Inl e, c') \<Rightarrow> (Ready (Inl e), c')
      | (Inr (Some g), c') \<Rightarrow> (Ready (Inr g), c')
      | (Inr None, c') \<Rightarrow> recv_loop x i ins c')"

text \<open>\<open>recv_response\<close>: a frame another reader has already delivered comes first.\<close>

definition recv_response ::
  "ext \<Rightarrow> u64 \<Rightarrow> (nat \<times> (core_error + frame option)) list \<Rightarrow> client \<Rightarrow> (string + frame) poll \<times> client" where
  "recv_response x i ins c =
     (case ready c i of
        Some f \<Rightarrow> (Ready (Inr f), c\<lparr>ready := (ready c)(i := None)\<rparr>)
      | None \<Rightarrow> recv_loop x i ins c)"

text \<open>The end of \<open>request_with_id\<close>; the error carries the body of the server's error.\<close>

datatype request_error = Local string | Server_error bytes

definition finish_request ::
  "ext \<Rightarrow> nat \<Rightarrow> nat \<Rightarrow> ((cache_key \<times> entry) list \<Rightarrow> (cache_key \<times> entry) list) \<Rightarrow> cache_key option \<Rightarrow> frame \<Rightarrow> client
   \<Rightarrow> (request_error + bytes) \<times> client" where
  "finish_request x now t_put order key resp c =
     (case client_unwrap x now resp c of
        (Inl e, c') \<Rightarrow> (Inl (Local e), c')
      | (Inr body, c') \<Rightarrow>
          if msg_type (header resp) = Error then (Inl (Server_error body), c')
          else (case key of
              Some k \<Rightarrow>
                if cacheable (flags (header resp)) \<and> \<not> cache_ref (flags (header resp))
                then (Inr body, c'\<lparr>cpipe := remember order t_put k body (cpipe c')\<rparr>)
                else (Inr body, c')
            | None \<Rightarrow> (Inr body, c')))"

section \<open>Calls\<close>

text \<open>\<open>call_tool\<close>: the key, only for small arguments, and the payload spliced from its parts.\<close>

definition call_tool_key :: "ext \<Rightarrow> string \<Rightarrow> json \<Rightarrow> cache_key option" where
  "call_tool_key x name args =
     (let canonical = to_vec x args in
      if length canonical < SHM_THRESHOLD then Some (cache_key_compute (sha256 x) name canonical) else None)"

definition call_tool_payload :: "ext \<Rightarrow> string \<Rightarrow> json \<Rightarrow> bytes" where
  "call_tool_payload x name args =
     as_bytes ''{\"name\":'' @ to_vec x (JStr name) @ as_bytes '',\"arguments\":'' @ to_vec x args @ as_bytes ''}''"

text \<open>\<open>call_tool_with_progress\<close>: never a key.\<close>

definition call_progress_payload :: "ext \<Rightarrow> string \<Rightarrow> json \<Rightarrow> bytes" where
  "call_progress_payload x name args =
     to_vec x (to_value (JObj [(''name'', JStr name), (''arguments'', args),
                               (''_meta'', JObj [(''progress'', JBool True)])]))"

definition start_progress :: "u64 \<Rightarrow> client \<Rightarrow> client" where
  "start_progress i c = c\<lparr>progress_cbs := insert i (progress_cbs c)\<rparr>"

definition end_progress :: "u64 \<Rightarrow> client \<Rightarrow> client" where
  "end_progress i c = c\<lparr>progress_cbs := progress_cbs c - {i}\<rparr>"

definition cancel_request :: "ext \<Rightarrow> u64 \<Rightarrow> string option \<Rightarrow> write_outcome \<Rightarrow> client \<Rightarrow> (string + unit) \<times> client" where
  "cancel_request x i reason out c =
     (case wrap x Cancel i (to_vec x (se_cancel_params \<lparr>cancel_request_id = i, cancel_reason = reason\<rparr>)) (cpipe c) of
        ((f, fl), p) \<Rightarrow> flush_requests out (c\<lparr>cpipe := p, cw := queue f (cw c)\<rparr>))"

definition uri_payload :: "ext \<Rightarrow> string \<Rightarrow> bytes" where
  "uri_payload x uri = to_vec x (to_value (JObj [(''uri'', JStr uri)]))"

definition get_prompt_payload :: "ext \<Rightarrow> string \<Rightarrow> json \<Rightarrow> bytes" where
  "get_prompt_payload x name args = to_vec x (to_value (JObj [(''name'', JStr name), (''arguments'', args)]))"

definition initialize_payload :: "ext \<Rightarrow> string \<Rightarrow> bytes" where
  "initialize_payload x agent =
     to_vec x (se_initialize_params
       \<lparr>ip_protocol_version = ''2025-06-18'', client_info = \<lparr>impl_name = agent, impl_version = ''0.1.0''\<rparr>,
        ip_capabilities = JObj []\<rparr>)"

definition on_resource_updated :: "client \<Rightarrow> client" where
  "on_resource_updated c = c\<lparr>updated_cb := True\<rparr>"

definition on_resource_list_changed :: "client \<Rightarrow> client" where
  "on_resource_list_changed c = c\<lparr>list_cb := True\<rparr>"

section \<open>Properties\<close>

text \<open>A frame that is a response: not a notice, and not by reference.\<close>

definition response :: "frame \<Rightarrow> bool" where
  "response f \<longleftrightarrow> msg_type (header f) \<notin> {Progress, ResourceUpdated, ResourceListChanged} \<and> \<not> shm_ref (flags (header f))"

lemma recv_frame_response:
  "response f \<Longrightarrow> recv_frame x now i f c =
    (if request_id (header f) = i then (Inr (Some f), c\<lparr>waiting := waiting c - {i}\<rparr>)
     else if request_id (header f) \<in> waiting c
     then (Inr None, c\<lparr>waiting := waiting c - {request_id (header f)}, ready := (ready c)(request_id (header f) \<mapsto> f)\<rparr>)
     else (Inr None, c))"
  by (simp add: recv_frame_def response_def resolve_shm_def)

lemma recv_loop_keeps_ready:
  assumes "recv_loop x i (map (\<lambda>(t, f). (t, Inr (Some f))) fs) c = (r, c')"
    and "\<forall>(t, f) \<in> set fs. response f" "j \<notin> (\<lambda>(t, f). request_id (header f)) ` set fs"
  shows "ready c' j = ready c j"
  using assms
proof (induction fs arbitrary: c)
  case Nil
  then show ?case by simp
next
  case (Cons tf fs)
  obtain t f where tf: "tf = (t, f)" by fastforce
  with Cons.prems have "response f" "request_id (header f) \<noteq> j" by auto
  with Cons.prems tf Cons.IH show ?case
    by (auto simp: recv_frame_response split: if_splits)
qed

lemma recv_frame_keeps_waiting:
  assumes "recv_frame x now i f c = (r, c')" "\<forall>g. r \<noteq> Inr (Some g)" "i \<in> waiting c"
  shows "i \<in> waiting c'"
proof -
  obtain q c1 where u: "resolve_shm f c = (q, c1)" by fastforce
  have "waiting c1 = waiting c"
    using u by (auto simp: resolve_shm_def split: if_splits option.splits prod.splits)
  moreover have "waiting (on_progress x now g c1) = waiting c1" "waiting (on_updated x now g c1) = waiting c1"
    "waiting (on_list_changed c1) = waiting c1" for g
    by (auto simp: on_progress_def on_updated_def on_list_changed_def client_unwrap_def
        split: prod.split sum.split)
  ultimately show ?thesis
    using assms by (cases q) (auto simp: recv_frame_def u split: if_splits)
qed

text \<open>C11. Multiplexing: while one request reads for all, each response reaches the request with its id. The
  reader returns the first response with its own id; every response before it whose request was
  waiting is handed to that request unchanged, however the responses are ordered.\<close>

theorem responses_reach_their_requests:
  assumes "recv_loop x i (map (\<lambda>(t, f). (t, Inr (Some f))) ins) c = (Ready (Inr g), c')"
    and "\<forall>(t, f) \<in> set ins. response f" "distinct (map (\<lambda>(t, f). request_id (header f)) ins)"
  shows "request_id (header g) = i \<and> i \<notin> waiting c'
    \<and> (\<exists>pre t post. ins = pre @ (t, g) # post
        \<and> (\<forall>(t, f) \<in> set pre. request_id (header f) \<in> waiting c \<longrightarrow> ready c' (request_id (header f)) = Some f))"
  using assms
proof (induction ins arbitrary: c)
  case Nil
  then show ?case by simp
next
  case (Cons tf ins)
  obtain t f where tf: "tf = (t, f)" by fastforce
  let ?j = "request_id (header f)"
  from Cons.prems tf have f: "response f" and rest: "\<forall>(t, f) \<in> set ins. response f"
    "distinct (map (\<lambda>(t, f). request_id (header f)) ins)" "?j \<notin> (\<lambda>(t, f). request_id (header f)) ` set ins"
    by auto
  show ?case
  proof (cases "?j = i")
    case True
    with Cons.prems(1) tf f have "g = f" "c' = c\<lparr>waiting := waiting c - {i}\<rparr>"
      by (auto simp: recv_frame_response)
    with True tf show ?thesis by (auto intro!: exI [of _ "[]"])
  next
    case False
    let ?c = "if ?j \<in> waiting c then c\<lparr>waiting := waiting c - {?j}, ready := (ready c)(?j \<mapsto> f)\<rparr> else c"
    have run: "recv_loop x i (map (\<lambda>(t, f). (t, Inr (Some f))) ins) ?c = (Ready (Inr g), c')"
      using Cons.prems(1) tf f False by (auto simp: recv_frame_response split: if_splits)
    from Cons.IH [OF this rest(1,2)] obtain pre t' post where g: "request_id (header g) = i" "i \<notin> waiting c'"
      and split: "ins = pre @ (t', g) # post"
      and pre: "\<forall>(t, f) \<in> set pre. request_id (header f) \<in> waiting ?c \<longrightarrow> ready c' (request_id (header f)) = Some f"
      by blast
    have "ready c' ?j = ready ?c ?j" by (rule recv_loop_keeps_ready [OF run rest(1,3)])
    then have "?j \<in> waiting c \<longrightarrow> ready c' ?j = Some f" by simp
    moreover have "request_id (header h) \<in> waiting ?c" if "(s, h) \<in> set pre" "request_id (header h) \<in> waiting c" for s h
    proof -
      have "(s, h) \<in> set ins" using that(1) split by simp
      then have "(\<lambda>(t, f). request_id (header f)) (s, h) \<in> (\<lambda>(t, f). request_id (header f)) ` set ins"
        by (rule imageI)
      with rest(3) have "request_id (header h) \<noteq> ?j" by auto
      with that(2) show ?thesis by simp
    qed
    ultimately have "\<forall>(t, f) \<in> set ((t, f) # pre). request_id (header f) \<in> waiting c
        \<longrightarrow> ready c' (request_id (header f)) = Some f"
      using pre by auto
    with g split tf show ?thesis
      by (intro conjI exI [of _ "(t, f) # pre"] exI [of _ t'] exI [of _ post]) simp_all
  qed
qed

theorem responses_reach_their_requests_witness:
  "let c = (client_new pipeline_new None None)\<lparr>waiting := {1, 2}\<rparr>;
       (r, c') = recv_loop sample_ext 2 [(0, Inr (Some (frame_new Pong 1 []))), (0, Inr (Some (frame_new Pong 2 [])))] c
   in r = Ready (Inr (frame_new Pong 2 [])) \<and> ready c' 1 = Some (frame_new Pong 1 []) \<and> 2 \<notin> waiting c'"
proof -
  let ?c = "(client_new pipeline_new None None)\<lparr>waiting := {1, 2}\<rparr>"
  let ?ins = "[(0, frame_new Pong 1 []), (0, frame_new Pong 2 [])]"
  have p: "response (frame_new Pong j [])" for j by (simp add: response_def frame_new_def flag_bits FLAG_NONE_def)
  have i: "request_id (header (frame_new Pong j [])) = j" for j by (simp add: frame_new_def)
  obtain c' where r: "recv_loop sample_ext 2 (map (\<lambda>(t, f). (t, Inr (Some f))) ?ins) ?c = (Ready (Inr (frame_new Pong 2 [])), c')"
    and rd: "ready c' 1 = Some (frame_new Pong 1 [])"
    by (simp add: recv_frame_response [OF p] i)
  have "\<forall>(t, f) \<in> set ?ins. response f" "distinct (map (\<lambda>(t, f). request_id (header f)) ?ins)"
    by (simp_all add: p i)
  note reach = responses_reach_their_requests [OF r this]
  show ?thesis using r rd conjunct1 [OF conjunct2 [OF reach]] by simp
qed

text \<open>A request that fails stays registered: when reading ends in an error or does not end at all (the
  request times out), its id is still among the waiting ones, so every later request takes the
  branch for concurrent requests.\<close>

lemma failed_request_stays_registered:
  assumes "recv_loop x i ins c = (r, c')" "i \<in> waiting c" "\<forall>g. r \<noteq> Ready (Inr g)"
  shows "i \<in> waiting c' \<and> (j \<noteq> i \<longrightarrow> fst (enqueue_request x t j body c'))"
proof -
  have "i \<in> waiting c'"
    using assms
  proof (induction x i ins c rule: recv_loop.induct)
    case (4 x i now f ins c)
    obtain q c1 where q: "recv_frame x now i f c = (q, c1)" by fastforce
    have "i \<in> waiting c1" if "\<forall>g. q \<noteq> Inr (Some g)"
      using recv_frame_keeps_waiting [OF q that 4(3)] .
    with 4 q show ?case by (auto split: sum.splits option.splits)
  qed auto
  moreover have "waiting (snd (request_frame x t j body c')) = waiting c'"
    by (auto simp: request_frame_def Let_def split: prod.split option.split)
  ultimately show ?thesis by (auto simp: enqueue_request_def split: prod.splits)
qed

end
