(* ===== verification/End_To_End.thy ===== *)
theory End_To_End
  imports Daemon_Behaviour Client_Conn
begin

unbundle bit_operations_syntax

text \<open>The client and the daemon together: the handshake, results by shared memory, repeated calls.\<close>

section \<open>One request and its answer\<close>

text \<open>
  A client sends a request, the daemon handles it, and the client finishes with the one frame the
  daemon put out, decoded from the bytes. \<open>None\<close> when there was no such frame.
\<close>

definition exchange ::
  "ext \<Rightarrow> env \<Rightarrow> nat \<Rightarrow> nat \<Rightarrow> ((cache_key \<times> entry) list \<Rightarrow> (cache_key \<times> entry) list) \<Rightarrow> cache_key option
   \<Rightarrow> msg_type \<Rightarrow> u64 \<Rightarrow> bytes \<Rightarrow> client \<times> session \<times> shared
   \<Rightarrow> (request_error + bytes) option \<times> client \<times> session \<times> shared" where
  "exchange x e now tp order key t i body st =
     (case st of (c, s, sh) \<Rightarrow>
      case request_frame x t i body c of (f, c1) \<Rightarrow>
      case handle_frame x e f s sh of (fl, s', sh') \<Rightarrow>
      case decode (drop (length (data_out s)) (data_out s')) of
        (Inr (Some g), []) \<Rightarrow>
          (case finish_request x now tp order key g c1 of (r, c2) \<Rightarrow> (Some r, c2, s', sh'))
      | _ \<Rightarrow> (None, c1, s', sh'))"

lemma exchange_one_answer:
  assumes "request_frame x t i body c = (f, c1)" "handle_frame x e f s sh = (fl, s', sh')"
    and "data_out s' = data_out s @ wire g" "frame_ok g"
  shows "exchange x e now tp order key t i body (c, s, sh)
    = (case finish_request x now tp order key g c1 of (r, c2) \<Rightarrow> (Some r, c2, s', sh'))"
proof -
  have "decode (drop (length (data_out s)) (data_out s')) = (Inr (Some g), [])"
    using decode_wire_ok [OF assms(4), of "[]"] by (simp add: assms(3))
  with assms(1,2) show ?thesis by (simp add: exchange_def)
qed

lemma frame_ok_wrap:
  assumes "wrap x t i b p = ((g, gl), p')" "aead_ok x" "pipeline_wf p" "length b + 28 \<le> unat MAX_FRAME_LEN"
  shows "frame_ok g"
proof (cases "p_cipher p")
  case None
  from compress_never_grows [OF wrap_plain [OF assms(1) None]] assms(4) wrap_header(4) [OF assms(1)]
  show ?thesis by (auto simp: frame_ok_def split: if_splits)
next
  case (Some c)
  from wrap_sealed [OF assms(1) Some] obtain data where d: "maybe_compress x b = (data, compressed gl)"
    "cipher_encrypt x c data (frame_aad t i) = (payload g, the (p_cipher p'))" .
  have "length data \<le> length b" using compress_never_grows [OF d(1)] by (auto split: if_splits)
  moreover have "payload g = next_nonce c @ aead_seal x (c_key c) (next_nonce c) (frame_aad t i) data"
    using d(2) by (simp add: cipher_encrypt_def)
  then have "length (payload g) = 12 + (length data + 16)"
    using assms(2,3) Some by (simp add: aead_ok_def pipeline_wf_def)
  ultimately show ?thesis using assms(4) wrap_header(4) [OF assms(1)] by (simp add: frame_ok_def)
qed

lemma frame_ok_mark: "frame_ok (mark_cacheable g) = frame_ok g"
  by (simp add: frame_ok_def mark_cacheable_def)

lemma frame_ok_cache_ref:
  assumes "wrap_cache_ref x t i k p = (g, p')" "aead_ok x" "pipeline_wf p" "length k = 32"
  shows "frame_ok g"
  using assms by (auto simp: wrap_cache_ref_def frame_ok_def cipher_encrypt_def aead_ok_def pipeline_wf_def
      MAX_FRAME_LEN_unat split: option.splits)

section \<open>Repeated calls\<close>

lemma request_frame_inline:
  assumes "cshm_up c = None" "wrap x t i body (cpipe c) = ((f, fl), p)"
  shows "request_frame x t i body c = (f, c\<lparr>cpipe := p\<rparr>)"
  using assms by (simp add: request_frame_def)

text \<open>The client's end of a full result: it is remembered under the key of the call, if there is one.\<close>

lemma finish_full_result:
  assumes "lz4_ok x" "aead_ok x" "pipeline_wf p" "same_key p (cpipe c)"
    and "wrap x CallToolResult i r p = ((g, gl), p')"
  shows "finish_request x now tp order key (mark_cacheable g) c = (Inr r,
    case key of None \<Rightarrow> c | Some k \<Rightarrow> c\<lparr>cpipe := remember order tp k r (cpipe c)\<rparr>)"
proof -
  have "unwrap x now (mark_cacheable g) (cpipe c) = (Inr r, cpipe c)"
    using unwrap_same_meaning [OF mark_cacheable_meaning] wrap_unwrap [OF assms] by simp
  moreover have "msg_type (header (mark_cacheable g)) = CallToolResult" "cacheable (flags (header (mark_cacheable g)))"
    "\<not> cache_ref (flags (header (mark_cacheable g)))"
    using wrap_header(1,3,8) [OF assms(5)] by (auto simp: mark_cacheable_def flag_bits)
  ultimately show ?thesis by (simp add: finish_request_def client_unwrap_def split: option.split)
qed

text \<open>The client's end of a reference.\<close>

lemma finish_reference:
  assumes "aead_ok x" "pipeline_wf p" "same_key p (cpipe c)" "length k = 32"
    and "wrap_cache_ref x CallToolResult i k p = (g, p')"
  shows "fst (finish_request x now tp order key g c)
    = (if fresh now k (p_cache (cpipe c)) then Inr (the (cache_view (p_cache (cpipe c)) k)) else Inl (Local ''cache ref miss''))"
proof -
  obtain u q where u: "unwrap x now g (cpipe c) = (u, q)" by fastforce
  have "u = (if fresh now k (p_cache (cpipe c)) then Inr (the (cache_view (p_cache (cpipe c)) k)) else Inl ''cache ref miss'')"
    using unwrap_cache_ref [OF assms(1-4), of now CallToolResult i] assms(5) u by simp
  moreover have "msg_type (header g) = CallToolResult"
    using assms(5) by (auto simp: wrap_cache_ref_def split: option.splits prod.splits)
  ultimately show ?thesis
    by (auto simp: finish_request_def client_unwrap_def u split: option.split)
qed

lemma remember_fields:
  "p_cipher (remember order tp k r p) = p_cipher p" "p_cache (remember order tp k r p) = cache_put order tp k r (p_cache p)"
  by (simp_all add: remember_def)

text \<open>The daemon's end of the first call: the result in full, and the key marked as delivered.\<close>

lemma first_call:
  assumes "lz4_ok x" "aead_ok x" "call_ready x i body params q s sh" "wrap x CallTool i body q = ((f, fl), q')"
    and "call_key x (registry sh) params = Some k"
    and "call (registry sh) (ct_name params) (ct_arguments params) = Some result"
    and "\<not> fresh (t_get e) k (s_cache sh)"
    and "wrap x CallToolResult i (to_vec x (se_call_tool_result result)) (pipe s) = ((g, gl), p)"
  shows "handle_frame x e f s sh = (Continue,
    emit (mark_cacheable g) (s\<lparr>delivered := insert k (delivered s), pipe := p\<rparr>),
    sh\<lparr>s_cache := cache_put (map_order e) (t_put e) k (to_vec x (se_call_tool_result result))
        (snd (cache_get (t_get e) k (s_cache sh)))\<rparr>)"
proof -
  have "shm (s\<lparr>delivered := d\<rparr>) = None" for d using assms(3) by (simp add: call_ready_def)
  with assms(7,8) show ?thesis
    by (simp add: cacheable_call [OF assms(1-6)] deliver_inline Let_def)
qed

section \<open>The handshake\<close>

text \<open>A body that reads back as the document that was written.\<close>

definition carries :: "ext \<Rightarrow> json \<Rightarrow> bool" where
  "carries x v \<longleftrightarrow> from_slice x (to_vec x v) = Inr v"

text \<open>A document that reads back and fits into a frame, sealed or not.\<close>

definition travels :: "ext \<Rightarrow> json \<Rightarrow> bool" where
  "travels x v \<longleftrightarrow> carries x v \<and> length (to_vec x v) + 28 \<le> unat MAX_FRAME_LEN"

lemma frame_ok_new: "length b + 28 \<le> unat MAX_FRAME_LEN \<Longrightarrow> frame_ok (frame_new t i b)"
  by (simp add: frame_ok_def frame_new_def)

lemma same_key_sym: "same_key p q \<Longrightarrow> same_key q p"
  by (auto simp: same_key_def split: option.splits)

text \<open>The daemon's answer to a client that knows the token, and the key both derive.\<close>

definition accepted :: "bytes \<Rightarrow> auth_result" where
  "accepted pub = \<lparr>ar_ok = True, ar_session_key_b64 = None, ar_reason = None, ar_eph_pub = Some (hex pub)\<rparr>"

lemma handshake_handled:
  fixes x e agent token nonce client
  defines "params \<equiv> auth_request x agent token nonce client"
    and "ans \<equiv> frame_new AuthResult 0 (to_vec x (se_auth_result (accepted (x25519_public x (eph_rnd e)))))"
    and "key \<equiv> derive_fs_session_key x (ephemeral_generate x (eph_rnd e)) (public client) token (as_bytes (hex nonce))"
  assumes "x25519_ok x" "client = ephemeral_generate x rc"
    and "length (public client) = 32" "length (x25519_public x (eph_rnd e)) = 32"
    and "s_token sh = Some token"
    and "carries x (se_auth_params params)"
    and "carries x (se_auth_result (accepted (x25519_public x (eph_rnd e))))"
  shows "handle_frame x e (auth_frame x params) s sh = (Continue,
      (emit ans s)\<lparr>authenticated := True, agent_id := agent, pipe := enable_encryption (prefix_rnd e) key (pipe s)\<rparr>,
      sh\<lparr>acl := acl_grant_all agent (acl sh)\<rparr>)"
    and "auth_key x token nonce client ans = Ret (Inr key)"
proof -
  have f: "msg_type (header (auth_frame x params)) = Auth" "\<not> shm_ref (flags (header (auth_frame x params)))"
    "request_id (header (auth_frame x params)) = 0"
    by (simp_all add: auth_frame_def frame_new_def flag_bits FLAG_NONE_def)
  have p: "parse x de_auth_params (payload (auth_frame x params)) = Inr params"
    using assms(9) by (simp add: parse_def auth_frame_def frame_new_def carries_def serde_simps)
  have ok: "auth_ok x (Some token) params = Ret True" "client_public params = Ret (Some (public client))"
    using assms(6) by (simp_all add: params_def auth_ok_def client_public_def auth_request_def unhex_hex unhex32_hex
        verify_response_def hmac_response_def)
  have pub: "public (ephemeral_generate x (eph_rnd e)) = x25519_public x (eph_rnd e)" by (simp add: ephemeral_generate_def)
  show "handle_frame x e (auth_frame x params) s sh = (Continue,
      (emit ans s)\<lparr>authenticated := True, agent_id := agent, pipe := enable_encryption (prefix_rnd e) key (pipe s)\<rparr>,
      sh\<lparr>acl := acl_grant_all agent (acl sh)\<rparr>)"
    using f p ok assms(8)
    by (simp add: handle_frame_def resolve_uplink_def dispatch_def on_auth_def auth_answer_def Let_def pub)
      (simp add: ans_def key_def accepted_def params_def auth_request_def)
  have "auth_key x token nonce client ans
      = Ret (Inr (derive_fs_session_key x client (x25519_public x (eph_rnd e)) token (as_bytes (hex nonce))))"
    using assms(7,10)
    by (simp add: ans_def auth_key_def read_json_def frame_new_def carries_def accepted_def serde_simps unhex32_hex)
  also have "derive_fs_session_key x client (x25519_public x (eph_rnd e)) token (as_bytes (hex nonce)) = key"
    unfolding key_def pub [symmetric] by (rule fs_key_agreement [OF assms(4,5) refl])
  finally show "auth_key x token nonce client ans = Ret (Inr key)" .
qed

section \<open>Properties\<close>

text \<open>The sample functions with documents that can be told apart: a body is a position in the list.\<close>

definition sample_docs :: "json list \<Rightarrow> ext" where
  "sample_docs vs = sample_ext\<lparr>to_vec := (\<lambda>v. [word_of_nat (length (takeWhile (\<lambda>u. u \<noteq> v) vs))]),
                               from_slice := (\<lambda>b. Inr (case b of [i] \<Rightarrow> vs ! unat i | _ \<Rightarrow> JNull))\<rparr>"

lemma sample_docs_carries:
  assumes "v \<in> set vs" "length vs \<le> 256"
  shows "carries (sample_docs vs) v"
proof -
  have "takeWhile (\<lambda>u. u \<noteq> v) vs \<noteq> vs" using assms(1) set_takeWhileD by metis
  then have l: "length (takeWhile (\<lambda>u. u \<noteq> v) vs) < length vs"
    by (metis append_Nil2 length_append length_takeWhile_le nat_less_le takeWhile_dropWhile_id takeWhile_eq_take take_all_iff)
  then have "vs ! length (takeWhile (\<lambda>u. u \<noteq> v) vs) = v" using nth_length_takeWhile by blast
  with l assms(2) show ?thesis by (simp add: carries_def sample_docs_def unat_of_nat)
qed

lemma sample_docs_ok:
  "lz4_ok (sample_docs vs)" "aead_ok (sample_docs vs)" "x25519_ok (sample_docs vs)"
  "x25519_public (sample_docs vs) = id" "hmac_sha256 (sample_docs vs) = hmac_sha256 sample_ext"
  using sample_lz4_ok sample_aead_ok sample_x25519_ok
  by (simp_all add: sample_docs_def lz4_ok_def aead_ok_def x25519_ok_def) (simp add: sample_ext_def)

text \<open>The handshake succeeds and agrees: a client that knows the daemon's token is accepted and gets
  access under its name, and from the daemon's answer it derives the session key the daemon derived,
  with the forward-secret exchange of ephemeral keys included. So the two pipelines can read each
  other.\<close>

lemma handshake_agrees:
  assumes "x25519_ok x" "client = ephemeral_generate x rc"
    and "length (public client) = 32" "length (x25519_public x (eph_rnd e)) = 32"
    and "s_token sh = Some token"
    and "carries x (se_auth_params (auth_request x agent token nonce client))"
    and "carries x (se_auth_result (accepted (x25519_public x (eph_rnd e))))"
    and "handle_frame x e (auth_frame x (auth_request x agent token nonce client)) s sh = (fl, s', sh')"
  shows "fl = Continue \<and> authenticated s' \<and> agent_id s' = agent \<and> agent \<in> allow_all (acl sh')
    \<and> (\<exists>ans key. data_out s' = data_out s @ wire ans \<and> auth_key x token nonce client ans = Ret (Inr key)
         \<and> same_key (enable_encryption rnd key p) (pipe s'))"
proof -
  note h = handshake_handled [OF assms(1-7)]
  have "same_key (enable_encryption rnd key p) (enable_encryption rnd' key p')" for key rnd' p'
    by (simp add: same_key_def enable_encryption_def cipher_new_def)
  with h(1) [of s] h(2) assms(8) show ?thesis
    by (auto simp: acl_grant_all_def intro!: exI)
qed

text \<open>C29. A large result reaches the client through shared memory: when the ring takes it, the client finds
  it behind the reference, unwraps it to the bytes the daemon had, and leaves the ring drained. It is
  sent outside the encryption of the session: the frame carries no \<open>ENCRYPTED\<close> flag, whatever key the
  pipeline holds.\<close>

theorem large_result_by_ring:
  assumes "shm s = Some ring" "ring_rep ring []" "0 < ring_budget ring" "SHM_THRESHOLD \<le> length body"
    and "fst (try_write ring body) \<noteq> None"
    and "wrap_maybe_shm x i body s = (g, s')" "cshm c = shm s'"
  shows "\<not> encrypted (flags (header g)) \<and> (\<exists>h c'. resolve_shm g c = (Inr h, c')
    \<and> msg_type (header h) = CallToolResult \<and> request_id (header h) = i
    \<and> unwrap x now h (cpipe c') = (Inr body, cpipe c')
    \<and> (\<exists>r. cshm c' = Some r \<and> ring_rep r []))"
proof -
  obtain off r1 where w: "try_write ring body = (Some off, r1)"
    using assms(5) by (cases "try_write ring body") auto
  from ring_rep_write [OF assms(2,3) w] have rep: "ring_rep r1 [(off, body)]" by simp
  from ring_rep_read [OF this] obtain r2 where
    rd: "read_release r1 off (length body) = (Some body, r2)" "ring_rep r2 []" by blast
  have "length body \<le> MAX_SHM_CAP"
    using w assms(2) by (auto simp: try_write_def Let_def ring_rep_def ring_wf_def split: if_splits)
  then have len: "unat (len_u32 body) = length body"
    by (intro unat_len_u32) (simp add: MAX_SHM_CAP_def)
  have g: "g = (frame_new CallToolResult i (encode_shm_ref off (len_u32 body)))
      \<lparr>header := (header (frame_new CallToolResult i (encode_shm_ref off (len_u32 body))))
        \<lparr>flags := FLAG_NONE OR SHM_REF\<rparr>\<rparr>" "s' = s\<lparr>shm := Some r1\<rparr>"
    using assms(1,4,6) w by (auto simp: wrap_maybe_shm_def Let_def frame_new_def split: prod.splits)
  have fl: "shm_ref (FLAG_NONE OR SHM_REF)" "\<not> encrypted (FLAG_NONE OR SHM_REF)"
    by (simp_all add: flag_bits FLAG_NONE_def)
  have z: "(FLAG_NONE OR SHM_REF) AND NOT SHM_REF = FLAG_NONE"
    by (simp add: FLAG_NONE_def SHM_REF_def)
  have "cshm c = Some r1" using assms(7) g(2) by simp
  then have "resolve_shm g c = (Inr \<lparr>header = \<lparr>flags = FLAG_NONE, msg_type = CallToolResult, request_id = i,
      payload_len = len_u32 body\<rparr>, payload = body\<rparr>, c\<lparr>cshm := Some r2\<rparr>)"
    by (simp add: resolve_shm_def g(1) fl frame_new_def len rd(1) z)
  with rd(2) fl(2) g(1) show ?thesis
    by (auto simp: unwrap_def unseal_def maybe_decompress_def flag_bits FLAG_NONE_def)
qed

theorem large_result_by_ring_witness:
  "let ring = \<lparr>cap = 32768, head = 0, tail = 0, mem = replicate 32768 0\<rparr>; body = replicate 16384 7;
       s = (session_new (shared_new None registry_new))\<lparr>shm := Some ring\<rparr>;
       (g, s') = wrap_maybe_shm sample_ext 9 body s
   in \<exists>h c'. resolve_shm g (client_new pipeline_new (shm s') None) = (Inr h, c') \<and> request_id (header h) = 9
        \<and> unwrap sample_ext 0 h (cpipe c') = (Inr body, cpipe c')"
proof -
  let ?ring = "\<lparr>cap = 32768, head = 0, tail = 0, mem = replicate 32768 0\<rparr>" and ?body = "replicate 16384 (7 :: u8)"
  let ?s = "(session_new (shared_new None registry_new))\<lparr>shm := Some ?ring\<rparr>"
  obtain g s' where w: "wrap_maybe_shm sample_ext 9 ?body ?s = (g, s')" by fastforce
  have "shm ?s = Some ?ring" "0 < ring_budget ?ring" "SHM_THRESHOLD \<le> length ?body"
    by (simp_all add: ring_budget_def SHM_THRESHOLD_def)
  moreover have "ring_rep ?ring []" by (rule ring_rep_fresh) (simp_all add: MAX_SHM_CAP_def)
  moreover have "fst (try_write ?ring ?body) \<noteq> None" by (simp add: try_write_def Let_def)
  moreover have "cshm (client_new pipeline_new (shm s') None) = shm s'" by (simp add: client_new_def)
  ultimately show ?thesis
    using large_result_by_ring [OF _ _ _ _ _ w] w by (fastforce simp: Let_def)
qed

text \<open>A large request reaches the daemon through the uplink ring in the same way: what the daemon
  dispatches is the request with the body the client had.\<close>

lemma large_request_by_ring:
  assumes "cshm_up c = Some ring" "ring_rep ring []" "0 < ring_budget ring" "SHM_THRESHOLD \<le> length body"
    and "fst (try_write ring body) \<noteq> None"
    and "request_frame x t i body c = (f, c')" "shm_up s = cshm_up c'"
  shows "\<exists>r. ring_rep r [] \<and> handle_frame x e f s sh
    = dispatch x e (frame_new t i body) (s\<lparr>shm_up := Some r\<rparr>) sh"
proof -
  obtain off r1 where w: "try_write ring body = (Some off, r1)"
    using assms(5) by (cases "try_write ring body") auto
  from ring_rep_write [OF assms(2,3) w] have rep: "ring_rep r1 [(off, body)]" by simp
  from ring_rep_read [OF this] obtain r2 where
    rd: "read_release r1 off (length body) = (Some body, r2)" "ring_rep r2 []" by blast
  have "length body \<le> MAX_SHM_CAP"
    using w assms(2) by (auto simp: try_write_def Let_def ring_rep_def ring_wf_def split: if_splits)
  then have len: "unat (len_u32 body) = length body"
    by (intro unat_len_u32) (simp add: MAX_SHM_CAP_def)
  have f: "f = (frame_new t i (encode_shm_ref off (len_u32 body)))
      \<lparr>header := (header (frame_new t i (encode_shm_ref off (len_u32 body))))
        \<lparr>flags := FLAG_NONE OR SHM_REF\<rparr>\<rparr>" "c' = c\<lparr>cshm_up := Some r1\<rparr>"
    using assms(1,4,6) w by (auto simp: request_frame_def Let_def frame_new_def split: prod.splits)
  have fl: "shm_ref (FLAG_NONE OR SHM_REF)" "(FLAG_NONE OR SHM_REF) AND NOT SHM_REF = FLAG_NONE"
    by (simp_all add: flag_bits FLAG_NONE_def)
  have "shm_up s = Some r1" using assms(7) f(2) by simp
  then have "resolve_uplink f s = (Inr (frame_new t i body), s\<lparr>shm_up := Some r2\<rparr>)"
    by (simp add: resolve_uplink_def f(1) fl frame_new_def len rd(1))
  with rd(2) show ?thesis by (intro exI [of _ r2]) (simp add: handle_frame_def)
qed



end
