(* ===== verification/Client_Connect.thy ===== *)
theory Client_Connect
  imports End_To_End Daemon_Server
begin

unbundle bit_operations_syntax

text \<open>
  Connecting, \<open>connect_inner\<close> of \<open>ohmcp-client/src/lib.rs\<close>: the authentication handshake, the
  negotiation of the shared-memory rings, and the \<open>initialize\<close> request, each over what the daemon
  has put on the socket. The last sections put the client and the daemon together.
\<close>

section \<open>The socket as the client reads it\<close>

text \<open>
  The items are what the peer has sent and the client has not read: bytes, and bytes that carry a
  descriptor. An ordinary read takes the carrier byte and drops the descriptor; \<open>recvmsg\<close> for a
  descriptor takes one byte whatever it is.
\<close>

definition item_event :: "sock_item \<Rightarrow> io_event" where
  "item_event i = (case i of Data bs \<Rightarrow> Bytes bs | Fd m \<Rightarrow> Bytes [carrier m])"

definition item_events :: "sock_item list \<Rightarrow> bool \<Rightarrow> io_event list" where
  "item_events is closed = map item_event is @ (if closed then [Bytes []] else [])"

definition read_frame ::
  "reader \<Rightarrow> sock_item list \<Rightarrow> bool \<Rightarrow> (core_error + frame option) poll \<times> reader \<times> sock_item list" where
  "read_frame r is closed =
     (let evs = item_events is closed in
      case next_frame r evs of (p, r', rest) \<Rightarrow> (p, r', drop (length evs - length rest) is))"

text \<open>With nothing left to read, the wait for a descriptor ends with the peer or with the timeout.\<close>

fun recv_fd :: "sock_item list \<Rightarrow> bool \<Rightarrow> (io_error + int option) poll \<times> sock_item list" where
  "recv_fd [] closed = (recv_fd_blocking [if closed then Recv_eof else Recv_again Poll_zero], [])"
| "recv_fd (Fd m # is) closed = (recv_fd_blocking [Recv_msg m], is)"
| "recv_fd (Data [] # is) closed = recv_fd is closed"
| "recv_fd (Data (b # bs) # is) closed =
     (recv_fd_blocking [Recv_msg \<lparr>carrier = b, rights = None\<rparr>], if bs = [] then is else Data bs # is)"

section \<open>State\<close>

text \<open>How connecting ends when it does not succeed.\<close>

datatype dial_error =
    Link_failed string
  | Auth_failed_with auth_error
  | Exchange_failed io_error
  | Ring_failed io_error
  | Init_failed request_error

datatype 'a dial = Dial_pending | Dial_panics | Dial_fails dial_error | Dial_ok 'a

text \<open>The \<open>?\<close> operator: the first step that does not succeed ends it.\<close>

fun dial_then :: "'a dial \<Rightarrow> ('a \<Rightarrow> 'b dial) \<Rightarrow> 'b dial" where
  "dial_then (Dial_ok a) k = k a"
| "dial_then (Dial_fails e) k = Dial_fails e"
| "dial_then Dial_panics k = Dial_panics"
| "dial_then Dial_pending k = Dial_pending"

text \<open>
  The local variables of \<open>connect_inner\<close>, what has been sent and the peer has not read, and what
  there is to read.
\<close>

record dialing =
  dw :: writer
  dr :: reader
  dpipe :: pipeline
  dsent :: bytes
  ditems :: "sock_item list"
  dclosed :: bool

definition dialing_new :: dialing where
  "dialing_new = \<lparr>dw = writer_new, dr = reader_new, dpipe = pipeline_new, dsent = [], ditems = [], dclosed = False\<rparr>"

text \<open>The peer's next output arrives.\<close>

definition arrive :: "sock_item list \<Rightarrow> bool \<Rightarrow> dialing \<Rightarrow> dialing" where
  "arrive is closed d = d\<lparr>ditems := ditems d @ is, dclosed := closed\<rparr>"

definition dial_send :: "frame \<Rightarrow> write_outcome \<Rightarrow> dialing \<Rightarrow> (core_error + unit) \<times> dialing" where
  "dial_send f out d = (case send f (dw d) out of (r, w, bs) \<Rightarrow> (r, d\<lparr>dw := w, dsent := dsent d @ bs\<rparr>))"

section \<open>Authentication\<close>

text \<open>The frame that is sent, and the answer; \<open>nonce\<close>, \<open>eph\<close> and \<open>prefix\<close> are random.\<close>

definition dial_auth_send ::
  "ext \<Rightarrow> string \<Rightarrow> bytes \<Rightarrow> bytes \<Rightarrow> ephemeral_key_pair \<Rightarrow> write_outcome \<Rightarrow> dialing \<Rightarrow> dialing dial" where
  "dial_auth_send x agent token nonce eph out d =
     (case dial_send (auth_frame x (auth_request x agent token nonce eph)) out d of
        (Inl e, _) \<Rightarrow> Dial_fails (Link_failed (core_error_text e))
      | (Inr _, d') \<Rightarrow> Dial_ok d')"

definition dial_auth_answer ::
  "ext \<Rightarrow> bytes \<Rightarrow> bytes \<Rightarrow> ephemeral_key_pair \<Rightarrow> bytes \<Rightarrow> dialing \<Rightarrow> dialing dial" where
  "dial_auth_answer x token nonce eph prefix d =
     (case read_frame (dr d) (ditems d) (dclosed d) of
        (Pending, _, _) \<Rightarrow> Dial_pending
      | (Ready (Inl e), _, _) \<Rightarrow> Dial_fails (Link_failed (core_error_text e))
      | (Ready (Inr None), _, _) \<Rightarrow> Dial_fails (Link_failed ''connection closed during auth'')
      | (Ready (Inr (Some resp)), r, is) \<Rightarrow>
          (case auth_key x token nonce eph resp of
             Panicked \<Rightarrow> Dial_panics
           | Ret (Inl err) \<Rightarrow> Dial_fails (Auth_failed_with err)
           | Ret (Inr key) \<Rightarrow>
               Dial_ok (d\<lparr>dr := r, ditems := is, dpipe := enable_encryption prefix key (dpipe d)\<rparr>)))"

section \<open>Shared-memory negotiation\<close>

definition dial_shm_send :: "write_outcome \<Rightarrow> dialing \<Rightarrow> dialing dial" where
  "dial_shm_send out d =
     (case dial_send (frame_new ShmSetup 0 []) out d of
        (Inl e, _) \<Rightarrow> Dial_fails (Link_failed (core_error_text e))
      | (Inr _, d') \<Rightarrow> Dial_ok d')"

text \<open>Two descriptors, or the refusal of the first.\<close>

definition dial_fds :: "dialing \<Rightarrow> ((int option \<times> int option) \<times> dialing) dial" where
  "dial_fds d =
     (case recv_fd (ditems d) (dclosed d) of
        (Pending, _) \<Rightarrow> Dial_pending
      | (Ready (Inl e), _) \<Rightarrow> Dial_fails (Exchange_failed e)
      | (Ready (Inr None), is) \<Rightarrow> Dial_ok ((None, None), d\<lparr>ditems := is\<rparr>)
      | (Ready (Inr (Some down)), is) \<Rightarrow>
          (case recv_fd is (dclosed d) of
             (Pending, _) \<Rightarrow> Dial_pending
           | (Ready (Inl e), _) \<Rightarrow> Dial_fails (Exchange_failed e)
           | (Ready (Inr up), is') \<Rightarrow> Dial_ok ((Some down, up), d\<lparr>ditems := is'\<rparr>)))"

text \<open>The memory behind a descriptor: cursors and bytes, or the error of mapping it.\<close>

record mapping =
  m_head :: u64
  m_tail :: u64
  m_mem :: bytes
  m_os :: "io_error option"

definition join_ring :: "mapping \<Rightarrow> nat \<Rightarrow> ring outcome" where
  "join_ring m c = ring_from_fd (m_head m) (m_tail m) (m_mem m) c (m_os m)"

text \<open>The announced sizes, and the rings they open; a ring without its descriptor stays closed.\<close>

definition announced :: "json \<Rightarrow> string \<Rightarrow> nat" where
  "announced v field = (case Option.bind (json_get field v) as_u64 of Some n \<Rightarrow> unat n | None \<Rightarrow> 0)"

definition open_ring :: "bool \<Rightarrow> nat \<Rightarrow> int option \<Rightarrow> (int \<Rightarrow> mapping) \<Rightarrow> ring option dial" where
  "open_ring ok c fd maps =
     (case fd of
        Some n \<Rightarrow>
          if ok \<and> 0 < c \<and> c \<le> MAX_SHM_CAP then
            (case join_ring (maps n) c of
               Panic \<Rightarrow> Dial_panics
             | Fails e \<Rightarrow> Dial_fails (Ring_failed e)
             | Returns r \<Rightarrow> Dial_ok (Some r))
          else Dial_ok None
      | None \<Rightarrow> Dial_ok None)"

definition dial_rings ::
  "json \<Rightarrow> int option \<Rightarrow> int option \<Rightarrow> (int \<Rightarrow> mapping) \<Rightarrow> (ring option \<times> ring option) dial" where
  "dial_rings v down_fd up_fd maps =
     (let ok = (Option.bind (json_get ''ok'' v) as_bool = Some True) in
      dial_then (open_ring ok (announced v ''size'') down_fd maps) (\<lambda>down.
      dial_then (open_ring (down \<noteq> None) (announced v ''up_size'') up_fd maps) (\<lambda>up.
      Dial_ok (down, up))))"

definition dial_shm_answer ::
  "ext \<Rightarrow> nat \<Rightarrow> (int \<Rightarrow> mapping) \<Rightarrow> dialing \<Rightarrow> ((ring option \<times> ring option) \<times> dialing) dial" where
  "dial_shm_answer x now maps d =
     dial_then (dial_fds d) (\<lambda>((down_fd, up_fd), d1).
     (case read_frame (dr d1) (ditems d1) (dclosed d1) of
        (Pending, _, _) \<Rightarrow> Dial_pending
      | (Ready (Inl e), _, _) \<Rightarrow> Dial_fails (Link_failed (core_error_text e))
      | (Ready (Inr None), _, _) \<Rightarrow> Dial_fails (Link_failed ''connection closed during shm setup'')
      | (Ready (Inr (Some resp)), r, is) \<Rightarrow>
          (case unwrap x now resp (dpipe d1) of
             (Inl m, _) \<Rightarrow> Dial_fails (Link_failed m)
           | (Inr body, p) \<Rightarrow>
               (case from_slice x body of
                  Inl m \<Rightarrow> Dial_fails (Link_failed m)
                | Inr v \<Rightarrow>
                    dial_then (dial_rings (to_value v) down_fd up_fd maps) (\<lambda>rings.
                    Dial_ok (rings, d1\<lparr>dr := r, ditems := is, dpipe := p\<rparr>))))))"

section \<open>The initialize request\<close>

definition dial_client :: "ring option \<times> ring option \<Rightarrow> dialing \<Rightarrow> client" where
  "dial_client rings d = (client_new (dpipe d) (fst rings) (snd rings))\<lparr>cw := dw d, csent := dsent d\<rparr>"

definition dial_init_send :: "ext \<Rightarrow> string \<Rightarrow> write_outcome \<Rightarrow> client \<Rightarrow> (u64 \<times> client) dial" where
  "dial_init_send x agent out c0 =
     (case fresh_id c0 of
        (i, c1) \<Rightarrow>
          (case enqueue_request x Initialize i (initialize_payload x agent) c1 of
             (_, c2) \<Rightarrow>
               (case flush_requests out c2 of
                  (Inl e, _) \<Rightarrow> Dial_fails (Link_failed e)
                | (Inr _, c3) \<Rightarrow> Dial_ok (i, c3))))"

text \<open>The results of the calls of \<open>next_frame\<close>, up to the first that is not a frame.\<close>

fun frame_results :: "nat \<Rightarrow> reader \<Rightarrow> io_event list \<Rightarrow> (core_error + frame option) list" where
  "frame_results 0 r evs = []"
| "frame_results (Suc n) r evs =
     (case next_frame r evs of
        (Pending, _, _) \<Rightarrow> []
      | (Ready (Inr (Some f)), r', evs') \<Rightarrow> Inr (Some f) # frame_results n r' evs'
      | (Ready res, _, _) \<Rightarrow> [res])"

definition arrived_bytes :: "io_event list \<Rightarrow> nat" where
  "arrived_bytes evs = sum_list (map (\<lambda>ev. case ev of Bytes bs \<Rightarrow> length bs | Io_error _ \<Rightarrow> 0) evs)"

definition all_results :: "reader \<Rightarrow> io_event list \<Rightarrow> (core_error + frame option) list" where
  "all_results r evs = frame_results (Suc (length (rbuf r) + arrived_bytes evs)) r evs"

definition dial_init_answer :: "ext \<Rightarrow> nat \<Rightarrow> u64 \<Rightarrow> dialing \<Rightarrow> client \<Rightarrow> client dial" where
  "dial_init_answer x now i d c =
     (case recv_response x i (map (Pair now) (all_results (dr d) (item_events (ditems d) (dclosed d)))) c of
        (Pending, _) \<Rightarrow> Dial_pending
      | (Ready (Inl e), _) \<Rightarrow> Dial_fails (Link_failed e)
      | (Ready (Inr resp), c1) \<Rightarrow>
          (case finish_request x now now id None resp c1 of
             (Inl err, _) \<Rightarrow> Dial_fails (Init_failed err)
           | (Inr body, c2) \<Rightarrow>
               (case read_json x de_initialize_result body of
                  Inl m \<Rightarrow> Dial_fails (Link_failed m)
                | Inr _ \<Rightarrow> Dial_ok c2)))"

section \<open>Connecting to a daemon\<close>

text \<open>The random draws and the answers of the system on both sides, stage by stage.\<close>

record draws =
  w_nonce :: bytes
  w_eph :: bytes
  w_prefix :: bytes
  w_now :: nat
  w_maps :: "int \<Rightarrow> mapping"
  w_auth :: env
  w_shm :: env
  w_init :: env

text \<open>The daemon reads what was sent, handles the frame, and flushes when its buffer is empty.\<close>

definition daemon_turn :: "ext \<Rightarrow> env \<Rightarrow> bytes \<Rightarrow> session \<times> shared \<Rightarrow> sock_item list \<times> session \<times> shared" where
  "daemon_turn x e bs st =
     (case st of (s, sh) \<Rightarrow>
      case decode bs of
        (Inr (Some f), _) \<Rightarrow>
          (case handle_frame x e f s sh of (fl, s1, sh1) \<Rightarrow>
             if fl = Continue then
               (case flush_session Wrote_all s1 of (_, s2) \<Rightarrow> (drop (length (sent s)) (sent s2), s2, sh1))
             else (drop (length (sent s)) (sent s1), s1, sh1))
      | _ \<Rightarrow> ([], s, sh))"

definition turn :: "ext \<Rightarrow> env \<Rightarrow> dialing \<Rightarrow> session \<times> shared \<Rightarrow> dialing \<times> session \<times> shared" where
  "turn x e d st = (case daemon_turn x e (dsent d) st of (is, st') \<Rightarrow> (arrive is False (d\<lparr>dsent := []\<rparr>), st'))"

text \<open>The client's step, the daemon's turn, the client's step on its answer.\<close>

definition round_trip ::
  "ext \<Rightarrow> env \<Rightarrow> dialing dial \<Rightarrow> (dialing \<Rightarrow> 'a dial) \<Rightarrow> session \<times> shared \<Rightarrow> 'a dial \<times> session \<times> shared" where
  "round_trip x e start answer st =
     (case start of
        Dial_ok d \<Rightarrow> (case turn x e d st of (d', st') \<Rightarrow> (answer d', st'))
      | Dial_fails err \<Rightarrow> (Dial_fails err, st) | Dial_panics \<Rightarrow> (Dial_panics, st) | Dial_pending \<Rightarrow> (Dial_pending, st))"

definition auth_phase ::
  "ext \<Rightarrow> string \<Rightarrow> bytes option \<Rightarrow> draws \<Rightarrow> session \<times> shared \<Rightarrow> dialing dial \<times> session \<times> shared" where
  "auth_phase x agent token w st =
     (case token of
        None \<Rightarrow> (Dial_ok dialing_new, st)
      | Some tok \<Rightarrow>
          (let eph = ephemeral_generate x (w_eph w) in
           round_trip x (w_auth w) (dial_auth_send x agent tok (w_nonce w) eph Wrote_all dialing_new)
             (dial_auth_answer x tok (w_nonce w) eph (w_prefix w)) st))"

definition shm_phase ::
  "ext \<Rightarrow> bool \<Rightarrow> draws \<Rightarrow> dialing \<Rightarrow> session \<times> shared \<Rightarrow> ((ring option \<times> ring option) \<times> dialing) dial \<times> session \<times> shared" where
  "shm_phase x use_shm w d st =
     (if use_shm then round_trip x (w_shm w) (dial_shm_send Wrote_all d) (dial_shm_answer x (w_now w) (w_maps w)) st
      else (Dial_ok ((None, None), d), st))"

definition init_phase ::
  "ext \<Rightarrow> string \<Rightarrow> draws \<Rightarrow> ring option \<times> ring option \<Rightarrow> dialing \<Rightarrow> session \<times> shared \<Rightarrow> client dial \<times> session \<times> shared" where
  "init_phase x agent w rings d st =
     (case dial_init_send x agent Wrote_all (dial_client rings d) of
        Dial_ok (i, c) \<Rightarrow>
          (case turn x (w_init w) (d\<lparr>dsent := csent c\<rparr>) st of (d', st') \<Rightarrow>
             (dial_init_answer x (w_now w) i d' c, st'))
      | Dial_fails err \<Rightarrow> (Dial_fails err, st) | Dial_panics \<Rightarrow> (Dial_panics, st) | Dial_pending \<Rightarrow> (Dial_pending, st))"

definition connect_to ::
  "ext \<Rightarrow> string \<Rightarrow> bytes option \<Rightarrow> bool \<Rightarrow> draws \<Rightarrow> session \<times> shared \<Rightarrow> client dial \<times> session \<times> shared" where
  "connect_to x agent token use_shm w st =
     (case auth_phase x agent token w st of
        (Dial_ok d, st1) \<Rightarrow>
          (case shm_phase x use_shm w d st1 of
             (Dial_ok (rings, d1), st2) \<Rightarrow> init_phase x agent w rings d1 st2
           | (Dial_fails err, st2) \<Rightarrow> (Dial_fails err, st2)
           | (Dial_panics, st2) \<Rightarrow> (Dial_panics, st2) | (Dial_pending, st2) \<Rightarrow> (Dial_pending, st2))
      | (Dial_fails err, st1) \<Rightarrow> (Dial_fails err, st1)
      | (Dial_panics, st1) \<Rightarrow> (Dial_panics, st1) | (Dial_pending, st1) \<Rightarrow> (Dial_pending, st1))"

text \<open>\<open>connect\<close> and \<open>connect_shm\<close>.\<close>

definition connect ::
  "ext \<Rightarrow> string \<Rightarrow> bytes option \<Rightarrow> draws \<Rightarrow> session \<times> shared \<Rightarrow> client dial \<times> session \<times> shared" where
  "connect x agent token w st = connect_to x agent token False w st"

definition connect_shm ::
  "ext \<Rightarrow> string \<Rightarrow> bytes option \<Rightarrow> draws \<Rightarrow> session \<times> shared \<Rightarrow> client dial \<times> session \<times> shared" where
  "connect_shm x agent token w st = connect_to x agent token True w st"

end
