(* ===== verification/Connect_Correct.thy ===== *)
theory Connect_Correct
  imports Client_Connect
begin

unbundle bit_operations_syntax

text \<open>
  What connecting achieves: against a daemon it ends with a client and a session that share the key
  and the rings; and how it fails when the daemon is busy or a notice comes between.
\<close>

section \<open>Reading\<close>

lemma next_frame_consumes:
  "next_frame r evs = (Ready (Inr (Some f)), r', evs') \<Longrightarrow>
    length (rbuf r') + arrived_bytes evs' < length (rbuf r) + arrived_bytes evs"
  unfolding next_frame_def
proof (induction evs arbitrary: r)
  case Nil
  then have "decode (rbuf r) = (Inr (Some f), rbuf r')" "evs' = []"
    by (auto split: prod.splits sum.splits option.splits)
  with decode_Some(1) show ?case by (fastforce simp: length_wire HEADER_LEN_def)
next
  case (Cons ev evs)
  obtain res b where d: "decode (rbuf r) = (res, b)" by fastforce
  show ?case
  proof (cases "\<exists>g. res = Inr (Some g)")
    case True
    with Cons.prems d have "decode (rbuf r) = (Inr (Some f), rbuf r')" "evs' = ev # evs" by auto
    with decode_Some(1) show ?thesis by (fastforce simp: length_wire HEADER_LEN_def)
  next
    case False
    with decode_keeps_buffer [OF d] have b: "b = rbuf r" by blast
    with Cons.prems d False obtain bs where bs: "res = Inr None" "ev = Bytes bs" "bs \<noteq> []"
      "read_loop decode (r\<lparr>rbuf := rbuf r @ bs, bytes_read := bytes_read r + word_of_nat (length bs)\<rparr>) evs
        = (Ready (Inr (Some f)), r', evs')"
      by (auto simp: Let_def split: sum.splits option.splits io_event.splits if_splits)
    from Cons.IH [OF bs(4)] bs(2) show ?thesis by (simp add: arrived_bytes_def)
  qed
qed

text \<open>The fuel of \<open>all_results\<close> is enough: more of it gives the same results.\<close>

lemma frame_results_enough:
  assumes "length (rbuf r) + arrived_bytes evs < n" "length (rbuf r) + arrived_bytes evs < m"
  shows "frame_results n r evs = frame_results m r evs"
  using assms
proof (induction n arbitrary: m r evs)
  case (Suc n)
  then obtain m' where m: "m = Suc m'" by (cases m) auto
  obtain p r' evs' where f: "next_frame r evs = (p, r', evs')" by (metis prod_cases3)
  show ?case
  proof (cases "\<exists>g. p = Ready (Inr (Some g))")
    case True
    then obtain g where p: "p = Ready (Inr (Some g))" by blast
    from next_frame_consumes [OF f [unfolded p]] Suc.prems m have
      "length (rbuf r') + arrived_bytes evs' < n" "length (rbuf r') + arrived_bytes evs' < m'" by simp_all
    from Suc.IH [OF this] show ?thesis by (simp add: m f p)
  next
    case False
    then show ?thesis by (auto simp: m f split: poll.split sum.split option.split)
  qed
qed simp

lemma frame_results_fuel:
  "length (rbuf r) + arrived_bytes evs < n \<Longrightarrow> frame_results n r evs = all_results r evs"
  unfolding all_results_def by (erule frame_results_enough) simp

lemma all_results_unfold:
  "all_results r evs =
     (case next_frame r evs of
        (Pending, _, _) \<Rightarrow> []
      | (Ready (Inr (Some f)), r', evs') \<Rightarrow> Inr (Some f) # all_results r' evs'
      | (Ready res, _, _) \<Rightarrow> [res])"
proof -
  obtain p r' evs' where f: "next_frame r evs = (p, r', evs')" by (metis prod_cases3)
  have "frame_results (length (rbuf r) + arrived_bytes evs) r' evs' = all_results r' evs'" if "p = Ready (Inr (Some g))" for g
    by (rule frame_results_fuel [OF next_frame_consumes [OF f [unfolded that]]])
  then show ?thesis
    by (simp add: all_results_def f split: poll.split sum.split option.split)
qed

lemma next_frame_nothing: "rbuf r = [] \<Longrightarrow> next_frame r [] = (Pending, r, [])"
  by (simp add: next_frame_def decode_def HEADER_LEN_def)

lemma next_frame_end: "rbuf r = [] \<Longrightarrow> next_frame r [Bytes []] = (Ready (Inr None), r, [])"
  by (simp add: next_frame_def decode_def HEADER_LEN_def)

lemma read_whole:
  assumes "frame_ok g" "rbuf r = []"
  shows "\<exists>r'. read_frame r [Data (wire g)] False = (Ready (Inr (Some g)), r', []) \<and> rbuf r' = []"
    and "all_results r (item_events [Data (wire g)] False) = [Inr (Some g)]"
  using next_frame_whole [OF assms] next_frame_nothing
  by (simp_all add: read_frame_def item_events_def item_event_def all_results_unfold)

text \<open>The same when the peer has closed the connection behind its frame.\<close>

lemma read_whole_closed:
  assumes "frame_ok g" "rbuf r = []"
  shows "all_results r (item_events [Data (wire g)] True) = [Inr (Some g), Inr None]"
proof -
  have "wire g \<noteq> []" by (simp add: wire_eq encode_header_def)
  moreover have "decode (wire g) = (Inr (Some g), [])" using decode_wire_ok [OF assms(1), of "[]"] by simp
  ultimately have "next_frame r [Bytes (wire g), Bytes []] = (Ready (Inr (Some g)),
      r\<lparr>rbuf := [], bytes_read := bytes_read r + word_of_nat (length (wire g))\<rparr>, [Bytes []])"
    using assms(2) by (simp add: next_frame_def decode_def [of "[]"] HEADER_LEN_def)
  then show ?thesis
    by (simp add: item_events_def item_event_def all_results_unfold [of r] all_results_unfold [of _ "[Bytes []]"] next_frame_end)
qed

section \<open>The daemon's turn\<close>

definition flushed :: "writer \<Rightarrow> writer" where
  "flushed w = w\<lparr>wbuf := [], bytes_written := bytes_written w + word_of_nat (length (wbuf w))\<rparr>"

lemma wbuf_flushed [simp]: "wbuf (flushed w) = []"
  by (simp add: flushed_def)

lemma flush_queued:
  "wbuf (wr s) \<noteq> [] \<Longrightarrow>
    flush_session Wrote_all s = (Inr (), s\<lparr>wr := flushed (wr s), sent := sent s @ [Data (wbuf (wr s))]\<rparr>)"
  by (simp add: flush_session_def flush_def flushed_def)

lemma daemon_turn_answer:
  assumes "frame_ok f" "handle_frame x e f s sh = (Continue, s1, sh1)"
    and "sent s1 = sent s @ out" "wbuf (wr s1) = wire g"
  shows "daemon_turn x e (wire f) (s, sh)
    = (out @ [Data (wire g)], s1\<lparr>wr := flushed (wr s1), sent := sent s @ out @ [Data (wire g)]\<rparr>, sh1)"
proof -
  have "decode (wire f) = (Inr (Some f), [])" using decode_wire_ok [OF assms(1), of "[]"] by simp
  moreover have "wbuf (wr s1) \<noteq> []" by (simp add: assms(4) wire_eq encode_header_def)
  from flush_queued [OF this] have
    "flush_session Wrote_all s1 = (Inr (), s1\<lparr>wr := flushed (wr s1), sent := sent s @ out @ [Data (wire g)]\<rparr>)"
    using assms(3,4) by simp
  ultimately show ?thesis using assms(2) by (simp add: daemon_turn_def)
qed

lemma dial_send_all:
  assumes "wbuf (dw d) = []"
  shows "dial_send f Wrote_all d = (Inr (), d\<lparr>dw := flushed (queue f (dw d)), dsent := dsent d @ wire f\<rparr>)"
proof -
  have "wire f \<noteq> []" by (simp add: wire_eq encode_header_def)
  with assms show ?thesis by (simp add: dial_send_def send_def flush_def queue_def encode_wire flushed_def)
qed

section \<open>The phases\<close>

text \<open>Between two phases nothing is under way, and the two ends can read each other.\<close>

definition in_step :: "dialing \<Rightarrow> session \<Rightarrow> bool" where
  "in_step d s \<longleftrightarrow> wbuf (dw d) = [] \<and> rbuf (dr d) = [] \<and> dsent d = [] \<and> ditems d = []
     \<and> wbuf (wr s) = [] \<and> authenticated s
     \<and> pipeline_wf (dpipe d) \<and> pipeline_wf (pipe s) \<and> same_key (dpipe d) (pipe s)"

lemma round_trip_ok:
  "start = Dial_ok d \<Longrightarrow> turn x e d st = (d', st') \<Longrightarrow> answer d' = r \<Longrightarrow> round_trip x e start answer st = (r, st')"
  by (simp add: round_trip_def)

lemma auth_phase_succeeds:
  fixes x w agent tok
  defines "eph \<equiv> ephemeral_generate x (w_eph w)"
  assumes "x25519_ok x" "length (x25519_public x (w_eph w)) = 32" "length (x25519_public x (eph_rnd (w_auth w))) = 32"
    and "length (w_prefix w) = 4" "length (prefix_rnd (w_auth w)) = 4" "s_token sh = Some tok"
    and "travels x (se_auth_params (auth_request x agent tok (w_nonce w) eph))"
    and "travels x (se_auth_result (accepted (x25519_public x (eph_rnd (w_auth w)))))"
  shows "\<exists>d s1 sh1. auth_phase x agent (Some tok) w (session_new sh, sh) = (Dial_ok d, s1, sh1)
    \<and> in_step d s1 \<and> agent_id s1 = agent \<and> shm s1 = None \<and> shm_up s1 = None \<and> s_token sh1 = s_token sh"
proof -
  let ?f = "auth_frame x (auth_request x agent tok (w_nonce w) eph)" and ?e = "w_auth w"
  let ?ans = "frame_new AuthResult 0 (to_vec x (se_auth_result (accepted (x25519_public x (eph_rnd ?e)))))"
  let ?key = "derive_fs_session_key x (ephemeral_generate x (eph_rnd ?e)) (public eph) tok (as_bytes (hex (w_nonce w)))"
  let ?s = "session_new sh"
  let ?s1 = "(emit ?ans ?s)\<lparr>authenticated := True, agent_id := agent, pipe := enable_encryption (prefix_rnd ?e) ?key (pipe ?s)\<rparr>"
  let ?sh1 = "sh\<lparr>acl := acl_grant_all agent (acl sh)\<rparr>"
  have pub: "length (public eph) = 32" using assms(3) by (simp add: eph_def ephemeral_generate_def)
  note h = handshake_handled [OF assms(2) meta_eq_to_obj_eq [OF eph_def] pub assms(4,7), of agent "w_nonce w"]
  have c: "carries x (se_auth_params (auth_request x agent tok (w_nonce w) eph))"
    "carries x (se_auth_result (accepted (x25519_public x (eph_rnd ?e))))"
    using assms(8,9) by (simp_all add: travels_def)
  have ok: "frame_ok ?f" "frame_ok ?ans"
    using assms(8,9) by (simp_all add: auth_frame_def travels_def frame_ok_new)
  let ?d1 = "dialing_new\<lparr>dw := flushed (queue ?f writer_new), dsent := wire ?f\<rparr>"
  have start: "dial_auth_send x agent tok (w_nonce w) eph Wrote_all dialing_new = Dial_ok ?d1"
    using dial_send_all [of dialing_new ?f] by (simp add: dial_auth_send_def dialing_new_def writer_new_def)
  have wb: "wbuf (wr ?s1) = wire ?ans" "sent ?s1 = sent ?s @ []"
    by (simp_all add: session_new_def writer_new_def)
  let ?s2 = "?s1\<lparr>wr := flushed (wr ?s1), sent := sent ?s @ [] @ [Data (wire ?ans)]\<rparr>"
  have "daemon_turn x ?e (wire ?f) (?s, sh) = ([Data (wire ?ans)], ?s2, ?sh1)"
    using daemon_turn_answer [OF ok(1) h(1) [OF c] wb(2,1)] by simp
  then have turn: "turn x ?e ?d1 (?s, sh) = (?d1\<lparr>dsent := [], ditems := [Data (wire ?ans)]\<rparr>, ?s2, ?sh1)"
    by (simp add: turn_def arrive_def dialing_new_def)
  have "rbuf (dr dialing_new) = []" by (simp add: dialing_new_def reader_new_def)
  from read_whole(1) [OF ok(2) this] obtain r where
    r: "read_frame (dr dialing_new) [Data (wire ?ans)] False = (Ready (Inr (Some ?ans)), r, [])" "rbuf r = []" by blast
  let ?d2 = "?d1\<lparr>dsent := [], dr := r, ditems := [], dpipe := enable_encryption (w_prefix w) ?key pipeline_new\<rparr>"
  have answer: "dial_auth_answer x tok (w_nonce w) eph (w_prefix w) (?d1\<lparr>dsent := [], ditems := [Data (wire ?ans)]\<rparr>) = Dial_ok ?d2"
    using r(1) h(2) [OF c] by (simp add: dial_auth_answer_def) (simp add: dialing_new_def)
  have p: "auth_phase x agent (Some tok) w (?s, sh) = (Dial_ok ?d2, ?s2, ?sh1)"
    unfolding auth_phase_def Let_def option.case eph_def [symmetric] by (rule round_trip_ok [OF start turn], rule answer)
  have "pipeline_wf (enable_encryption rnd k pipeline_new)" if "length rnd = 4" for rnd k
    by (rule enable_encryption_wf [OF pipeline_new_wf that])
  then have "in_step ?d2 ?s2" using r(2) assms(5,6)
    by (simp add: in_step_def same_key_def) (simp add: session_new_def dialing_new_def enable_encryption_def cipher_new_def)
  with p show ?thesis
    by (intro exI [of _ ?d2] exI [of _ ?s2] exI [of _ ?sh1]) (simp add: session_new_def)
qed

subsection \<open>Shared memory\<close>

definition fresh_ring :: ring where
  "fresh_ring = \<lparr>cap = DEFAULT_SHM_CAP, head = 0, tail = 0, mem = replicate DEFAULT_SHM_CAP 0\<rparr>"

text \<open>The system calls succeed on both sides, and the client's mapping is the daemon's memory.\<close>

definition rings_pass :: "env \<Rightarrow> (int \<Rightarrow> mapping) \<Rightarrow> bool" where
  "rings_pass e maps \<longleftrightarrow> e_ring e = None \<and> e_ring_up e = None \<and> e_dup e
     \<and> (\<exists>a. e_send e = Sent # a) \<and> (\<exists>b. e_send_up e = Sent # b) \<and> 0 \<le> fst (e_fds e) \<and> 0 \<le> snd (e_fds e)
     \<and> (\<forall>fd \<in> {fst (e_fds e), snd (e_fds e)}.
          maps fd = \<lparr>m_head = 0, m_tail = 0, m_mem = replicate DEFAULT_SHM_CAP 0, m_os = None\<rparr>)"

lemma flush_nothing: "wbuf (wr s) = [] \<Longrightarrow> flush_session out s = (Inr (), s)"
  by (simp add: flush_session_def flush_def)

lemma ring_created: "ring_of (ring_create DEFAULT_SHM_CAP None) = Some fresh_ring"
  by (simp add: ring_of_def ring_create_def fresh_ring_def DEFAULT_SHM_CAP_def MAX_SHM_CAP_def)

lemma shm_setup_document:
  "to_value (shm_setup_result ok) = shm_setup_result ok"
  "json_get ''ok'' (shm_setup_result ok) = Some (JBool ok)"
  "announced (shm_setup_result ok) ''size'' = DEFAULT_SHM_CAP"
  "announced (shm_setup_result ok) ''up_size'' = DEFAULT_SHM_CAP"
  by (simp_all add: shm_setup_result_def announced_def members_norm_def DEFAULT_SHM_CAP_def)

lemma shm_setup_handled:
  assumes "rings_pass e maps" "wbuf (wr s) = []" "authenticated s"
    and "wrap x ShmSetupResult 0 (to_vec x (shm_setup_result True)) (pipe s) = ((g, gl), p)"
  shows "handle_frame x e (frame_new ShmSetup 0 []) s sh = (Continue,
    (emit g (s\<lparr>sent := sent s @ [Fd \<lparr>carrier = 1, rights = Some (True, fst (e_fds e))\<rparr>,
                             Fd \<lparr>carrier = 1, rights = Some (True, snd (e_fds e))\<rparr>], pipe := p\<rparr>))
      \<lparr>shm := Some fresh_ring, shm_up := Some fresh_ring\<rparr>, sh)"
proof -
  have f: "msg_type (header (frame_new ShmSetup 0 [])) = ShmSetup" "\<not> shm_ref (flags (header (frame_new ShmSetup 0 [])))"
    "request_id (header (frame_new ShmSetup 0 [])) = 0"
    by (simp_all add: frame_new_def flag_bits FLAG_NONE_def)
  have x: "exchange_fds e (Some fresh_ring) (Some fresh_ring) = (Ready (Inr ()),
      [Fd \<lparr>carrier = 1, rights = Some (True, fst (e_fds e))\<rparr>, Fd \<lparr>carrier = 1, rights = Some (True, snd (e_fds e))\<rparr>])"
    using assms(1) by (auto simp: rings_pass_def exchange_fds_def send_fd_blocking_def)
  have r: "e_ring e = None" "e_ring_up e = None" "e_dup e" using assms(1) by (simp_all add: rings_pass_def)
  show ?thesis
    by (simp add: handle_frame_def resolve_uplink_def f dispatch_def assms(3) on_shm_setup_def flush_nothing [OF assms(2)]
        r ring_created x Let_def reply_def assms(4))
qed

text \<open>The client finds the two descriptors and the answer, and maps the same memory.\<close>

lemma dial_fds_received:
  assumes "0 \<le> a" "0 \<le> b"
    "ditems d = [Fd \<lparr>carrier = 1, rights = Some (True, a)\<rparr>, Fd \<lparr>carrier = 1, rights = Some (True, b)\<rparr>, i]"
  shows "dial_fds d = Dial_ok ((Some a, Some b), d\<lparr>ditems := [i]\<rparr>)"
  using assms by (simp add: dial_fds_def)

lemma dial_rings_opened:
  assumes "rings_pass e maps"
  shows "dial_rings (shm_setup_result True) (Some (fst (e_fds e))) (Some (snd (e_fds e))) maps
    = Dial_ok (Some fresh_ring, Some fresh_ring)"
  using assms
  by (simp add: dial_rings_def shm_setup_document open_ring_def join_ring_def ring_from_fd_def rings_pass_def fresh_ring_def Let_def)
    (simp add: DEFAULT_SHM_CAP_def MAX_SHM_CAP_def)

lemma shm_phase_succeeds:
  assumes "lz4_ok x" "aead_ok x" "in_step d s" "rings_pass (w_shm w) (w_maps w)" "travels x (shm_setup_result True)"
  shows "\<exists>d1 s1. shm_phase x True w d (s, sh) = (Dial_ok ((Some fresh_ring, Some fresh_ring), d1), s1, sh)
    \<and> in_step d1 s1 \<and> agent_id s1 = agent_id s \<and> shm s1 = Some fresh_ring \<and> shm_up s1 = Some fresh_ring"
proof -
  let ?e = "w_shm w" and ?f = "frame_new ShmSetup 0 []" and ?b = "to_vec x (shm_setup_result True)"
  let ?m = "Fd \<lparr>carrier = 1, rights = Some (True, fst (e_fds ?e))\<rparr>" and ?n = "Fd \<lparr>carrier = 1, rights = Some (True, snd (e_fds ?e))\<rparr>"
  note i = assms(3) [unfolded in_step_def]
  obtain g gl p where g: "wrap x ShmSetupResult 0 ?b (pipe s) = ((g, gl), p)" by (metis prod.exhaust)
  let ?s1 = "(emit g (s\<lparr>sent := sent s @ [?m, ?n], pipe := p\<rparr>))\<lparr>shm := Some fresh_ring, shm_up := Some fresh_ring\<rparr>"
  have h: "handle_frame x ?e ?f s sh = (Continue, ?s1, sh)"
    using i by (intro shm_setup_handled [OF assms(4) _ _ g]) simp_all
  have fit: "frame_ok ?f" "frame_ok g"
    using frame_ok_wrap [OF g assms(2)] i assms(5) by (simp_all add: travels_def frame_ok_new MAX_FRAME_LEN_unat)
  let ?d1 = "d\<lparr>dw := flushed (queue ?f (dw d)), dsent := wire ?f\<rparr>"
  have start: "dial_shm_send Wrote_all d = Dial_ok ?d1"
    using i dial_send_all [of d ?f] by (simp add: dial_shm_send_def)
  let ?s2 = "?s1\<lparr>wr := flushed (wr ?s1), sent := sent s @ [?m, ?n] @ [Data (wire g)]\<rparr>"
  let ?d2 = "d\<lparr>dw := flushed (queue ?f (dw d)), dsent := [], ditems := [?m, ?n, Data (wire g)], dclosed := False\<rparr>"
  have "wbuf (wr ?s1) = wire g" using i by simp
  with daemon_turn_answer [OF fit(1) h, of "[?m, ?n]" g]
  have "daemon_turn x ?e (wire ?f) (s, sh) = ([?m, ?n] @ [Data (wire g)], ?s2, sh)" by simp
  then have turn: "turn x ?e ?d1 (s, sh) = (?d2, ?s2, sh)" using i by (simp add: turn_def arrive_def)
  have "rbuf (dr d) = []" using i by simp
  from read_whole(1) [OF fit(2) this] obtain r where
    r: "read_frame (dr d) [Data (wire g)] False = (Ready (Inr (Some g)), r, [])" "rbuf r = []" by blast
  have fds: "dial_fds ?d2 = Dial_ok ((Some (fst (e_fds ?e)), Some (snd (e_fds ?e))),
      d\<lparr>dw := flushed (queue ?f (dw d)), dsent := [], dclosed := False, ditems := [Data (wire g)]\<rparr>)"
    using assms(4) by (subst dial_fds_received) (simp_all add: rings_pass_def)
  have "same_key (pipe s) (dpipe d)" using i same_key_sym by blast
  then have u: "unwrap x (w_now w) g (dpipe d) = (Inr ?b, dpipe d)"
    using i by (intro wrap_unwrap [OF assms(1,2) _ _ g]) simp_all
  have v: "from_slice x ?b = Inr (shm_setup_result True)" using assms(5) by (simp add: travels_def carries_def)
  let ?d3 = "d\<lparr>dw := flushed (queue ?f (dw d)), dsent := [], dclosed := False, dr := r, ditems := [], dpipe := dpipe d\<rparr>"
  have answer: "dial_shm_answer x (w_now w) (w_maps w) ?d2 = Dial_ok ((Some fresh_ring, Some fresh_ring), ?d3)"
    using r(1) u v by (simp add: dial_shm_answer_def fds shm_setup_document(1) dial_rings_opened [OF assms(4)])
  have p: "shm_phase x True w d (s, sh) = (Dial_ok ((Some fresh_ring, Some fresh_ring), ?d3), ?s2, sh)"
    unfolding shm_phase_def if_True by (rule round_trip_ok [OF start turn], rule answer)
  have "in_step ?d3 ?s2"
    using i r(2) wrap_header(6,11) [OF g] by (simp add: in_step_def same_key_def)
  with p show ?thesis by (intro exI [of _ ?d3] exI [of _ ?s2]) simp
qed

subsection \<open>Initialize\<close>

lemma dial_init_sent:
  assumes "wbuf (dw d) = []" "dsent d = []" "length (initialize_payload x agent) < SHM_THRESHOLD"
    and "wrap x Initialize 1 (initialize_payload x agent) (dpipe d) = ((f, fl), p)"
  shows "dial_init_send x agent Wrote_all (dial_client rings d) = Dial_ok (1, (dial_client rings d)
    \<lparr>next_id := 2, cpipe := p, waiting := {1}, cw := flushed (queue f (dw d)), csent := wire f\<rparr>)"
proof -
  have "wire f \<noteq> []" by (simp add: wire_eq encode_header_def)
  with assms(1) have "flush (queue f (dw d)) Wrote_all = (Inr (), flushed (queue f (dw d)), wire f)"
    by (simp add: flush_def queue_def encode_wire flushed_def)
  with assms(2,3,4) show ?thesis
    by (simp add: dial_init_send_def fresh_id_def enqueue_request_def request_frame_def dial_client_def client_new_def
        flush_requests_def Let_def split: option.split)
qed

lemma dial_init_answered:
  assumes "lz4_ok x" "aead_ok x" "pipeline_wf q" "same_key q (cpipe c)"
    and "wrap x InitializeResult i (to_vec x (se_initialize_result initialize_answer)) q = ((g, gl), q')"
    and "carries x (se_initialize_result initialize_answer)"
    and "frame_ok g" "rbuf (dr d) = []" "ditems d = [Data (wire g)]" "\<not> dclosed d" "ready c i = None"
  shows "dial_init_answer x now i d c = Dial_ok (c\<lparr>waiting := waiting c - {i}\<rparr>)"
proof -
  note w = wrap_header [OF assms(5)]
  have "all_results (dr d) (item_events (ditems d) (dclosed d)) = [Inr (Some g)]"
    using read_whole(2) [OF assms(7,8)] assms(9,10) by simp
  moreover have "response g" using w by (simp add: response_def)
  ultimately have r: "recv_response x i (map (Pair now) (all_results (dr d) (item_events (ditems d) (dclosed d)))) c
      = (Ready (Inr g), c\<lparr>waiting := waiting c - {i}\<rparr>)"
    using assms(11) w by (simp add: recv_response_def recv_frame_response)
  have "client_unwrap x now g (c\<lparr>waiting := waiting c - {i}\<rparr>)
      = (Inr (to_vec x (se_initialize_result initialize_answer)), c\<lparr>waiting := waiting c - {i}\<rparr>)"
    using wrap_unwrap [OF assms(1-5)] by (simp add: client_unwrap_def)
  then have "finish_request x now now id None g (c\<lparr>waiting := waiting c - {i}\<rparr>)
      = (Inr (to_vec x (se_initialize_result initialize_answer)), c\<lparr>waiting := waiting c - {i}\<rparr>)"
    using w by (simp add: finish_request_def)
  moreover have "de_initialize_result (se_initialize_result initialize_answer) = Some initialize_answer"
    by (simp add: initialize_answer_def serde_simps members_norm_def is_value_def)
  ultimately show ?thesis
    using assms(6) by (simp add: dial_init_answer_def r read_json_def carries_def)
qed

lemma init_phase_succeeds:
  assumes "lz4_ok x" "aead_ok x" "in_step d s" "travels x (se_initialize_result initialize_answer)"
    and "length (initialize_payload x agent) < SHM_THRESHOLD"
  shows "\<exists>c s1. init_phase x agent w rings d (s, sh) = (Dial_ok c, s1, sh) \<and> waiting c = {} \<and> next_id c = 2
    \<and> cshm c = fst rings \<and> cshm_up c = snd rings \<and> pipeline_wf (cpipe c) \<and> pipeline_wf (pipe s1)
    \<and> same_key (cpipe c) (pipe s1) \<and> authenticated s1 \<and> agent_id s1 = agent_id s \<and> shm s1 = shm s \<and> shm_up s1 = shm_up s"
proof -
  note i = assms(3) [unfolded in_step_def]
  let ?b = "to_vec x (se_initialize_result initialize_answer)"
  obtain f fl p where f: "wrap x Initialize 1 (initialize_payload x agent) (dpipe d) = ((f, fl), p)" by (metis prod.exhaust)
  obtain g gl q where g: "wrap x InitializeResult 1 ?b (pipe s) = ((g, gl), q)" by (metis prod.exhaust)
  note wf = wrap_header [OF f] and wg = wrap_header [OF g]
  have fit: "frame_ok f" "frame_ok g"
    using frame_ok_wrap [OF f assms(2)] frame_ok_wrap [OF g assms(2)] i assms(4,5)
    by (simp_all add: travels_def SHM_THRESHOLD_def MAX_FRAME_LEN_unat)
  let ?c = "(dial_client rings d)\<lparr>next_id := 2, cpipe := p, waiting := {1}, cw := flushed (queue f (dw d)), csent := wire f\<rparr>"
  have start: "dial_init_send x agent Wrote_all (dial_client rings d) = Dial_ok (1, ?c)"
    using i by (intro dial_init_sent [OF _ _ assms(5) f]) simp_all
  let ?s1 = "emit g (s\<lparr>pipe := q\<rparr>)"
  have h: "handle_frame x (w_init w) f s sh = (Continue, ?s1, sh)"
    using wf i by (simp add: handle_frame_def resolve_uplink_def dispatch_def on_initialize_def reply_def g)
  let ?s2 = "?s1\<lparr>wr := flushed (wr ?s1), sent := sent s @ [] @ [Data (wire g)]\<rparr>"
  have "wbuf (wr ?s1) = wire g" using i by simp
  with daemon_turn_answer [OF fit(1) h, of "[]" g]
  have "daemon_turn x (w_init w) (wire f) (s, sh) = ([Data (wire g)], ?s2, sh)" by simp
  then have turn: "turn x (w_init w) (d\<lparr>dsent := csent ?c\<rparr>) (s, sh)
      = (d\<lparr>dsent := [], ditems := [Data (wire g)], dclosed := False\<rparr>, ?s2, sh)"
    using i by (simp add: turn_def arrive_def)
  have key: "same_key (pipe s) (cpipe ?c)"
    using i wf(6) by (simp add: same_key_def)
  have "ready ?c 1 = None" by (simp add: dial_client_def client_new_def)
  then have answer: "dial_init_answer x (w_now w) 1 (d\<lparr>dsent := [], ditems := [Data (wire g)], dclosed := False\<rparr>) ?c
      = Dial_ok (?c\<lparr>waiting := waiting ?c - {1}\<rparr>)"
    using i assms(4) by (intro dial_init_answered [OF assms(1,2) _ key g _ fit(2)]) (simp_all add: travels_def)
  have ph: "init_phase x agent w rings d (s, sh) = (Dial_ok (?c\<lparr>waiting := waiting ?c - {1}\<rparr>), ?s2, sh)"
    unfolding init_phase_def start dial.case prod.case turn answer by (rule refl)
  have "same_key p q" using i wf(6) wg(6) by (simp add: same_key_def)
  then show ?thesis using i wf(11) wg(11)
    by (intro exI [of _ "?c\<lparr>waiting := waiting ?c - {1}\<rparr>"] exI [of _ ?s2] conjI ph)
      (simp_all add: dial_client_def client_new_def)
qed

section \<open>Properties\<close>


text \<open>Sample draws, with the descriptors 3 and 4 over zeroed memory.\<close>

definition sample_draws :: draws where
  "sample_draws = \<lparr>w_nonce = [8], w_eph = replicate 32 1, w_prefix = replicate 4 2, w_now = 0,
     w_maps = (\<lambda>_. \<lparr>m_head = 0, m_tail = 0, m_mem = replicate DEFAULT_SHM_CAP 0, m_os = None\<rparr>),
     w_auth = sample_env, w_shm = sample_env, w_init = sample_env\<rparr>"

definition connect_docs :: ext where
  "connect_docs = sample_docs
     [se_auth_params (auth_request sample_ext ''a'' [7] [8] (ephemeral_generate sample_ext (replicate 32 1))),
      se_auth_result (accepted (replicate 32 5)), shm_setup_result True, se_initialize_result initialize_answer]"

lemma connect_docs_travels:
  assumes "v \<in> {se_auth_params (auth_request sample_ext ''a'' [7] [8] (ephemeral_generate sample_ext (replicate 32 1))),
      se_auth_result (accepted (replicate 32 5)), shm_setup_result True, se_initialize_result initialize_answer}"
  shows "travels connect_docs v"
proof -
  have "carries connect_docs v" unfolding connect_docs_def using assms by (intro sample_docs_carries) auto
  then show ?thesis by (simp add: travels_def) (simp add: connect_docs_def sample_docs_def MAX_FRAME_LEN_unat)
qed


text \<open>A client that is turned away never learns why. With a token it takes the busy notice for the answer
  to its authentication and fails to read it as one; without a token it drops the notice, because
  the notice carries id 0 and its request has id 1, and reports a closed connection.\<close>

lemma busy_reason_never_reported:
  assumes "carries x (se_error_body \<lparr>err_code = -32005, err_message = ''server busy: connection limit reached'', err_data = None\<rparr>)"
    and "length (payload (busy_frame x)) \<le> unat MAX_FRAME_LEN" "rbuf (dr d) = []" "ditems d = []"
    and "waiting c = {1}" "ready c = Map.empty"
  shows "(\<exists>m. dial_auth_answer x token nonce eph prefix (arrive [Data (wire (busy_frame x))] True d)
      = Dial_fails (Auth_failed_with (Bad_answer m)))
    \<and> dial_init_answer x now 1 (arrive [Data (wire (busy_frame x))] True d) c = Dial_fails (Link_failed ''connection closed'')"
proof -
  have ok: "frame_ok (busy_frame x)" using assms(2) by (simp add: frame_ok_def busy_frame_def frame_new_def)
  let ?d = "arrive [Data (wire (busy_frame x))] True d"
  have d: "dr ?d = dr d" "ditems ?d = [Data (wire (busy_frame x))]" "dclosed ?d"
    using assms(4) by (simp_all add: arrive_def)
  have "wire (busy_frame x) \<noteq> []" by (simp add: wire_eq encode_header_def)
  moreover have "decode (wire (busy_frame x)) = (Inr (Some (busy_frame x)), [])"
    using decode_wire_ok [OF ok, of "[]"] by simp
  moreover have "decode [] = (Inr None, [])" by (simp add: decode_def HEADER_LEN_def)
  ultimately have n: "\<exists>r is. read_frame (dr ?d) (ditems ?d) (dclosed ?d) = (Ready (Inr (Some (busy_frame x))), r, is)"
    using assms(3) by (simp add: read_frame_def item_events_def item_event_def next_frame_def d Let_def)
  have "de_auth_result (se_error_body \<lparr>err_code = -32005, err_message = msg, err_data = None\<rparr>) = None" for msg
    by (simp add: de_auth_result_def se_error_body_def serde_defs)
  then have k: "auth_key x token nonce eph (busy_frame x) = Ret (Inl (Bad_answer ''invalid message''))"
    using assms(1) by (simp add: auth_key_def read_json_def busy_frame_def frame_new_def carries_def)
  have all: "all_results (dr ?d) (item_events (ditems ?d) (dclosed ?d)) = [Inr (Some (busy_frame x)), Inr None]"
    using read_whole_closed [OF ok assms(3)] d by simp
  have "response (busy_frame x)" "request_id (header (busy_frame x)) = 0"
    by (simp_all add: response_def busy_frame_def frame_new_def flag_bits FLAG_NONE_def)
  then have r: "recv_response x 1 (map (Pair now) (all_results (dr ?d) (item_events (ditems ?d) (dclosed ?d)))) c
      = (Ready (Inl ''connection closed''), c)"
    using assms(5,6) by (simp add: recv_response_def all recv_frame_response)
  from n k have "dial_auth_answer x token nonce eph prefix ?d = Dial_fails (Auth_failed_with (Bad_answer ''invalid message''))"
    by (elim exE) (simp add: dial_auth_answer_def)
  moreover from r have "dial_init_answer x now 1 ?d c = Dial_fails (Link_failed ''connection closed'')"
    by (simp add: dial_init_answer_def)
  ultimately show ?thesis by blast
qed

text \<open>A notice can break the negotiation of the rings. The client waits for the descriptors with a bare
  \<open>recvmsg\<close>, but an authenticated session broadcasts a change of the resource list whenever it waits:
  a notice that is sent before the session reads the request lies in front of the descriptors, its
  first byte is taken for their carrier, and connecting fails although both sides did as they should.\<close>

lemma notice_breaks_shm_negotiation:
  assumes "in_step d s" "phase c = Waiting" "ses c = s" "e_flush e = Wrote_all"
    and "wait_step x e (Notice (Some List_changed)) c sh = (c', sh')"
  shows "phase c' = Waiting \<and> in_step d (ses c')
    \<and> (\<exists>g. sent (ses c') = sent s @ [Data (wire g)] \<and> msg_type (header g) = ResourceListChanged
        \<and> (\<forall>is closed. dial_shm_answer x now maps (arrive (Data (wire g) # is) closed d)
            = Dial_fails (Exchange_failed (Invalid_data ''no fd in cmsg''))))"
proof -
  note i = assms(1) [unfolded in_step_def]
  obtain g gl p where g: "wrap x ResourceListChanged 0 (as_bytes ''{}'') (pipe s) = ((g, gl), p)" by (metis prod.exhaust)
  let ?s = "emit g (s\<lparr>pipe := p\<rparr>)"
  have "wbuf (wr ?s) = wire g" "wire g \<noteq> []" using i by (simp_all add: wire_eq encode_header_def)
  with flush_queued [of ?s] have f: "flush_session Wrote_all ?s
      = (Inr (), ?s\<lparr>wr := flushed (wr ?s), sent := sent s @ [Data (wire g)]\<rparr>)" by simp
  have c: "c' = c\<lparr>ses := ?s\<lparr>wr := flushed (wr ?s), sent := sent s @ [Data (wire g)]\<rparr>\<rparr>"
    using assms(3-5) i g f by (simp add: wait_step_def event_frame_def)
  have "le_encode 2 20301 = [0x4D, 0x4F]" by (simp add: numeral_2_eq_2)
  then have "u16_to_le FRAME_MAGIC = [0x4D, 0x4F]" by (simp add: u16_to_le_def FRAME_MAGIC_def)
  then obtain bs where b: "wire g = 0x4D # bs" by (simp add: wire_eq encode_header_def)
  have "dial_shm_answer x now maps (arrive (Data (wire g) # is) closed d)
      = Dial_fails (Exchange_failed (Invalid_data ''no fd in cmsg''))" for "is" closed
    using i by (simp add: b dial_shm_answer_def dial_fds_def arrive_def)
  moreover have "in_step d (ses c')"
    using i wrap_header(6,11) [OF g] by (simp add: c in_step_def same_key_def split: option.splits)
  ultimately show ?thesis using wrap_header(1) [OF g] assms(2) by (auto simp: c)
qed

end
