(* ===== verification/Client_Api.thy ===== *)
theory Client_Api
  imports End_To_End
begin

unbundle bit_operations_syntax

text \<open>
  The public calls of \<open>OhmcpClient\<close>, \<open>ohmcp-client/src/lib.rs\<close>, each as one exchange with the daemon,
  and what they return there: what the daemon's registry holds.
\<close>

section \<open>The calls\<close>

text \<open>How a call fails: the request, or an answer that does not parse.\<close>

datatype api_error = Request_failed request_error | Unreadable string

definition answer_as :: "ext \<Rightarrow> (json \<Rightarrow> 'a option) \<Rightarrow> request_error + bytes \<Rightarrow> api_error + 'a" where
  "answer_as x de r =
     (case r of
        Inl e \<Rightarrow> Inl (Request_failed e)
      | Inr body \<Rightarrow> (case read_json x de body of Inl m \<Rightarrow> Inl (Unreadable m) | Inr a \<Rightarrow> Inr a))"

text \<open>The calls that return \<open>()\<close> ignore the body.\<close>

definition answer_unit :: "request_error + bytes \<Rightarrow> api_error + unit" where
  "answer_unit r = (case r of Inl e \<Rightarrow> Inl (Request_failed e) | Inr _ \<Rightarrow> Inr ())"

text \<open>\<open>request\<close>: a fresh id, no cache key. The result is \<open>None\<close> when the daemon does not answer.\<close>

type_synonym link = "client \<times> session \<times> shared"

definition request ::
  "ext \<Rightarrow> env \<Rightarrow> nat \<Rightarrow> msg_type \<Rightarrow> bytes \<Rightarrow> link \<Rightarrow> (request_error + bytes) option \<times> link" where
  "request x e now t body st =
     (case st of (c, s, sh) \<Rightarrow>
      case fresh_id c of (i, c1) \<Rightarrow> exchange x e now now id None t i body (c1, s, sh))"

definition list_tools :: "ext \<Rightarrow> env \<Rightarrow> nat \<Rightarrow> link \<Rightarrow> (api_error + list_tools_result) option \<times> link" where
  "list_tools x e now st =
     apfst (map_option (answer_as x de_list_tools_result)) (request x e now ListTools [] st)"

definition call_tool ::
  "ext \<Rightarrow> env \<Rightarrow> nat \<Rightarrow> nat \<Rightarrow> ((cache_key \<times> entry) list \<Rightarrow> (cache_key \<times> entry) list) \<Rightarrow> string \<Rightarrow> json \<Rightarrow> link
   \<Rightarrow> (api_error + call_tool_result) option \<times> link" where
  "call_tool x e now tp order name args st =
     (case st of (c, s, sh) \<Rightarrow>
      case fresh_id c of (i, c1) \<Rightarrow>
        apfst (map_option (answer_as x de_call_tool_result))
          (exchange x e now tp order (call_tool_key x name args) CallTool i (call_tool_payload x name args) (c1, s, sh)))"

definition list_resources :: "ext \<Rightarrow> env \<Rightarrow> nat \<Rightarrow> link \<Rightarrow> (api_error + list_resources_result) option \<times> link" where
  "list_resources x e now st =
     apfst (map_option (answer_as x de_list_resources_result)) (request x e now ListResources [] st)"

definition fetch_resource ::
  "ext \<Rightarrow> env \<Rightarrow> nat \<Rightarrow> string \<Rightarrow> link \<Rightarrow> (api_error + read_resource_result) option \<times> link" where
  "fetch_resource x e now uri st =
     apfst (map_option (answer_as x de_read_resource_result)) (request x e now ReadResource (uri_payload x uri) st)"

definition subscribe_resource :: "ext \<Rightarrow> env \<Rightarrow> nat \<Rightarrow> string \<Rightarrow> link \<Rightarrow> (api_error + unit) option \<times> link" where
  "subscribe_resource x e now uri st =
     apfst (map_option answer_unit) (request x e now SubscribeResource (uri_payload x uri) st)"

definition unsubscribe_resource :: "ext \<Rightarrow> env \<Rightarrow> nat \<Rightarrow> string \<Rightarrow> link \<Rightarrow> (api_error + unit) option \<times> link" where
  "unsubscribe_resource x e now uri st =
     apfst (map_option answer_unit) (request x e now UnsubscribeResource (uri_payload x uri) st)"

definition list_prompts :: "ext \<Rightarrow> env \<Rightarrow> nat \<Rightarrow> link \<Rightarrow> (api_error + list_prompts_result) option \<times> link" where
  "list_prompts x e now st =
     apfst (map_option (answer_as x de_list_prompts_result)) (request x e now ListPrompts [] st)"

definition fetch_prompt ::
  "ext \<Rightarrow> env \<Rightarrow> nat \<Rightarrow> string \<Rightarrow> json \<Rightarrow> link \<Rightarrow> (api_error + get_prompt_result) option \<times> link" where
  "fetch_prompt x e now name args st =
     apfst (map_option (answer_as x de_get_prompt_result)) (request x e now GetPrompt (get_prompt_payload x name args) st)"

definition ping :: "ext \<Rightarrow> env \<Rightarrow> nat \<Rightarrow> link \<Rightarrow> (api_error + unit) option \<times> link" where
  "ping x e now st = apfst (map_option answer_unit) (request x e now Ping [] st)"

definition shm_enabled :: "client \<Rightarrow> bool" where
  "shm_enabled c \<longleftrightarrow> cshm c \<noteq> None"

section \<open>A request and its reply\<close>

text \<open>Client and session share the key, and requests travel in frames.\<close>

definition in_contact :: "client \<Rightarrow> session \<Rightarrow> bool" where
  "in_contact c s \<longleftrightarrow> pipeline_wf (cpipe c) \<and> pipeline_wf (pipe s) \<and> same_key (cpipe c) (pipe s)
     \<and> authenticated s \<and> cshm_up c = None"

lemma same_key_trans: "same_key p q \<Longrightarrow> same_key q r \<Longrightarrow> same_key p r"
  by (simp add: same_key_def)

text \<open>The daemon handles what the client wrapped as it handles the plain request.\<close>

lemma request_handled:
  assumes "lz4_ok x" "aead_ok x" "in_contact c s" "wrap x t i body (cpipe c) = ((f, fl), p)" "t \<noteq> Auth"
  shows "handle_frame x e f s sh = handle_frame x e (frame_new t i body) s sh"
proof -
  note w = wrap_header [OF assms(4)]
  have "unwrap x (t_unwrap e) f (pipe s) = (Inr body, pipe s)"
    using wrap_unwrap [OF assms(1,2) _ _ assms(4)] assms(3) by (simp add: in_contact_def)
  moreover have "msg_type (header (frame_new t i body)) = t" "request_id (header (frame_new t i body)) = i"
    "\<not> shm_ref (flags (header (frame_new t i body)))"
    by (simp_all add: frame_new_def flag_bits FLAG_NONE_def)
  ultimately show ?thesis using assms(5) w by (intro handle_frame_cong) (simp_all add: unwrap_plain)
qed

text \<open>When the daemon replies, the client gets the body of the reply, or the server's error.\<close>

lemma request_replied:
  assumes x: "lz4_ok x" "aead_ok x" and k: "in_contact c s" and t: "t \<noteq> Auth"
    and h: "handle_frame x e (frame_new t (next_id c) body) s sh = (Continue, reply x rt (next_id c) b s1, sh1)"
    and s1: "pipe s1 = pipe s" "data_out s1 = data_out s" "authenticated s1"
    and b: "length b + 28 \<le> unat MAX_FRAME_LEN"
  shows "\<exists>c1 s2. request x e now t body (c, s, sh)
      = (Some (if rt = Error then Inl (Server_error b) else Inr b), c1, s2, sh1) \<and> in_contact c1 s2
    \<and> subscribed s2 = subscribed s1"
proof -
  let ?i = "next_id c" and ?c = "c\<lparr>next_id := next_id c + 1\<rparr>"
  obtain f fl p where f: "wrap x t ?i body (cpipe ?c) = ((f, fl), p)" by (metis prod.exhaust)
  obtain g gl q where g: "wrap x rt ?i b (pipe s) = ((g, gl), q)" by (metis prod.exhaust)
  note w = wrap_header [OF f] and v = wrap_header [OF g]
  have k': "in_contact ?c s" using k by (simp add: in_contact_def)
  have r: "reply x rt ?i b s1 = emit g (s1\<lparr>pipe := q\<rparr>)" by (simp add: reply_def s1 g)
  have ok: "frame_ok g" using frame_ok_wrap [OF g x(2) _ b] k by (simp add: in_contact_def)
  have "data_out (reply x rt ?i b s1) = data_out s @ wire g" by (simp add: r s1)
  moreover have "request_frame x t ?i body ?c = (f, ?c\<lparr>cpipe := p\<rparr>)"
    using request_frame_inline [OF _ f] k by (simp add: in_contact_def)
  moreover have "handle_frame x e f s sh = (Continue, reply x rt ?i b s1, sh1)"
    using request_handled [OF x k' f t] h by simp
  ultimately have ex: "exchange x e now now id None t ?i body (?c, s, sh)
      = (case finish_request x now now id None g (?c\<lparr>cpipe := p\<rparr>) of (r, c2) \<Rightarrow> (Some r, c2, reply x rt ?i b s1, sh1))"
    using exchange_one_answer ok by blast
  have key: "same_key (pipe s) p" using k w(6) by (simp add: in_contact_def same_key_def)
  have "unwrap x now g p = (Inr b, p)" using wrap_unwrap [OF x _ key g] k by (simp add: in_contact_def)
  then have "finish_request x now now id None g (?c\<lparr>cpipe := p\<rparr>)
      = (if rt = Error then Inl (Server_error b) else Inr b, ?c\<lparr>cpipe := p\<rparr>)"
    by (simp add: finish_request_def client_unwrap_def v(1))
  with ex have "request x e now t body (c, s, sh)
      = (Some (if rt = Error then Inl (Server_error b) else Inr b), ?c\<lparr>cpipe := p\<rparr>, reply x rt ?i b s1, sh1)"
    by (simp add: request_def fresh_id_def)
  moreover have "in_contact (?c\<lparr>cpipe := p\<rparr>) (reply x rt ?i b s1)"
    using k w(11) v(6,11) key s1(3) by (simp add: r in_contact_def same_key_def)
  moreover have "subscribed (reply x rt ?i b s1) = subscribed s1" by (simp add: r)
  ultimately show ?thesis by blast
qed

section \<open>What the daemon replies\<close>

text \<open>The document a session writes for a resource or a prompt: the result, or the error.\<close>

definition resource_answer :: "tool_registry \<Rightarrow> string \<Rightarrow> msg_type \<times> json" where
  "resource_answer r uri =
     (case read_resource r uri of
        Some cont \<Rightarrow> (ReadResourceResult, se_read_resource_result \<lparr>rr_contents = [cont]\<rparr>)
      | None \<Rightarrow> (Error, se_error_body \<lparr>err_code = -32002, err_message = ''resource not found: '' @ uri, err_data = None\<rparr>))"

definition prompt_answer :: "tool_registry \<Rightarrow> string \<Rightarrow> json \<Rightarrow> msg_type \<times> json" where
  "prompt_answer r name args =
     (case get_prompt r name args of
        Some res \<Rightarrow> (GetPromptResult, se_get_prompt_result res)
      | None \<Rightarrow> (Error, se_error_body \<lparr>err_code = -32602, err_message = ''unknown prompt: '' @ name, err_data = None\<rparr>))"

lemma frame_new_header [simp]:
  "msg_type (header (frame_new t i b)) = t" "request_id (header (frame_new t i b)) = i"
  "\<not> shm_ref (flags (header (frame_new t i b)))"
  by (simp_all add: frame_new_def flag_bits FLAG_NONE_def)

lemma plain_handled:
  "handle_frame x e (frame_new t i b) s sh = dispatch x e (frame_new t i b) s sh"
  by (simp add: handle_frame_def resolve_uplink_def)

lemma plain_params:
  "with_params x e de (frame_new t i b) s sh k
    = (case parse x de b of Inl m \<Rightarrow> (Failed m, s, sh) | Inr a \<Rightarrow> k a s)"
  by (simp add: with_params_def unwrap_body_def unwrap_plain)

lemma parse_carried: "carries x v \<Longrightarrow> parse x de (to_vec x v) = (case de v of None \<Rightarrow> Inl ''invalid message'' | Some a \<Rightarrow> Inr a)"
  by (simp add: parse_def carries_def)

lemma uri_document: "uri_payload x uri = to_vec x (JObj [(''uri'', JStr uri)])"
  by (simp add: uri_payload_def members_norm_def)

lemma prompt_document:
  "is_value args \<Longrightarrow> get_prompt_payload x n args = to_vec x (JObj [(''arguments'', args), (''name'', JStr n)])"
  by (simp add: get_prompt_payload_def members_norm_def is_value_def)

lemma queries_handled:
  assumes "authenticated s"
  shows "handle_frame x e (frame_new ListTools i []) s sh
      = (Continue, reply x ListToolsResult i (to_vec x (se_list_tools_result \<lparr>lt_tools = reg_tools (registry sh)\<rparr>)) s, sh)"
    and "handle_frame x e (frame_new ListResources i []) s sh
      = (Continue, reply x ListResourcesResult i (to_vec x (se_list_resources_result \<lparr>lr_resources = reg_resources (registry sh)\<rparr>)) s, sh)"
    and "handle_frame x e (frame_new ListPrompts i []) s sh
      = (Continue, reply x ListPromptsResult i (to_vec x (se_list_prompts_result \<lparr>lp_prompts = reg_prompts (registry sh)\<rparr>)) s, sh)"
    and "handle_frame x e (frame_new Ping i []) s sh = (Continue, reply x Pong i (as_bytes ''{}'') s, sh)"
  using assms
  by (simp_all add: plain_handled dispatch_def on_list_tools_def on_list_resources_def on_list_prompts_def on_ping_def)

lemma read_handled:
  assumes "authenticated s" "carries x (JObj [(''uri'', JStr uri)])"
  shows "handle_frame x e (frame_new ReadResource i (uri_payload x uri)) s sh
    = (Continue, reply x (fst (resource_answer (registry sh) uri)) i (to_vec x (snd (resource_answer (registry sh) uri))) s, sh)"
  using assms
  by (simp add: plain_handled dispatch_def on_read_resource_def plain_params uri_document parse_carried
      de_read_resource_params_def serde_defs serde_simps resource_answer_def reply_error_def split: option.split)

lemma prompt_handled:
  assumes "authenticated s" "is_value args" "carries x (JObj [(''arguments'', args), (''name'', JStr n)])"
  shows "handle_frame x e (frame_new GetPrompt i (get_prompt_payload x n args)) s sh
    = (Continue, reply x (fst (prompt_answer (registry sh) n args)) i (to_vec x (snd (prompt_answer (registry sh) n args))) s, sh)"
  using assms
  by (simp add: plain_handled dispatch_def on_get_prompt_def plain_params prompt_document parse_carried
      de_get_prompt_params_def serde_defs serde_simps prompt_answer_def reply_error_def split: option.split)

lemma subscribe_handled:
  assumes "authenticated s" "carries x (JObj [(''uri'', JStr uri)])"
  shows "handle_frame x e (frame_new SubscribeResource i (uri_payload x uri)) s sh
    = (Continue, if has_resource (registry sh) uri
        then reply x SubscribeResourceResult i (as_bytes ''{}'') (s\<lparr>subscribed := insert uri (subscribed s)\<rparr>)
        else reply x Error i (to_vec x (se_error_body \<lparr>err_code = -32002, err_message = ''resource not found: '' @ uri, err_data = None\<rparr>)) s, sh)"
    and "handle_frame x e (frame_new UnsubscribeResource i (uri_payload x uri)) s sh
    = (Continue, reply x SubscribeResourceResult i (as_bytes ''{}'') (s\<lparr>subscribed := subscribed s - {uri}\<rparr>), sh)"
  using assms
  by (simp_all add: plain_handled dispatch_def on_subscribe_def plain_params uri_document parse_carried Let_def
      de_subscribe_resource_params_def serde_defs serde_simps reply_error_def)

section \<open>Properties\<close>

lemma answer_as_carried:
  "carries x v \<Longrightarrow> de v = Some a \<Longrightarrow> answer_as x de (Inr (to_vec x v)) = Inr a"
  by (simp add: answer_as_def read_json_def carries_def)

lemma request_answered:
  assumes "lz4_ok x" "aead_ok x" "in_contact c s" "t \<noteq> Auth" "length b + 28 \<le> unat MAX_FRAME_LEN"
    and "handle_frame x e (frame_new t (next_id c) body) s sh = (Continue, reply x rt (next_id c) b s, sh)"
  shows "fst (request x e now t body (c, s, sh)) = Some (if rt = Error then Inl (Server_error b) else Inr b)"
  using request_replied [OF assms(1-4,6) refl refl _ assms(5), of now] assms(3) by (auto simp: in_contact_def)

text \<open>C14. The queries of the client return what the daemon's registry holds: the tools, the resources and the
  prompts it lists; the contents of a resource, and the prompt made from the arguments, or the
  daemon's error -32002 and -32602 for one it does not have.\<close>

theorem queries_return_the_registry:
  assumes "lz4_ok x" "aead_ok x" "in_contact c s" "r = registry sh" "is_value args"
    and "\<forall>tool \<in> set (reg_tools r). is_value (input_schema tool)"
    and "\<forall>v \<in> {se_list_tools_result \<lparr>lt_tools = reg_tools r\<rparr>, se_list_resources_result \<lparr>lr_resources = reg_resources r\<rparr>,
           se_list_prompts_result \<lparr>lp_prompts = reg_prompts r\<rparr>, snd (resource_answer r uri), snd (prompt_answer r n args),
           JObj [(''uri'', JStr uri)], JObj [(''arguments'', args), (''name'', JStr n)]}. travels x v"
  shows "fst (list_tools x e now (c, s, sh)) = Some (Inr \<lparr>lt_tools = reg_tools r\<rparr>)
    \<and> fst (list_resources x e now (c, s, sh)) = Some (Inr \<lparr>lr_resources = reg_resources r\<rparr>)
    \<and> fst (list_prompts x e now (c, s, sh)) = Some (Inr \<lparr>lp_prompts = reg_prompts r\<rparr>)
    \<and> fst (fetch_resource x e now uri (c, s, sh)) = Some (case read_resource r uri of
        Some cont \<Rightarrow> Inr \<lparr>rr_contents = [cont]\<rparr>
      | None \<Rightarrow> Inl (Request_failed (Server_error (to_vec x (se_error_body
          \<lparr>err_code = -32002, err_message = ''resource not found: '' @ uri, err_data = None\<rparr>)))))
    \<and> fst (fetch_prompt x e now n args (c, s, sh)) = Some (case get_prompt r n args of
        Some res \<Rightarrow> Inr res
      | None \<Rightarrow> Inl (Request_failed (Server_error (to_vec x (se_error_body
          \<lparr>err_code = -32602, err_message = ''unknown prompt: '' @ n, err_data = None\<rparr>)))))
    \<and> fst (ping x e now (c, s, sh)) = Some (Inr ())"
proof -
  have c: "carries x v" "length (to_vec x v) + 28 \<le> unat MAX_FRAME_LEN" if "travels x v" for v
    using that by (simp_all add: travels_def)
  have auth: "authenticated s" using assms(3) by (simp add: in_contact_def)
  note q = queries_handled [OF auth] and ans = request_answered [OF assms(1-3)]
  have "fst (list_tools x e now (c, s, sh)) = Some (Inr \<lparr>lt_tools = reg_tools r\<rparr>)"
    using assms(4,6,7) by (simp add: list_tools_def ans [OF _ _ q(1)] c answer_as_carried serde_simps)
  moreover have "fst (list_resources x e now (c, s, sh)) = Some (Inr \<lparr>lr_resources = reg_resources r\<rparr>)"
    using assms(4,7) by (simp add: list_resources_def ans [OF _ _ q(2)] c answer_as_carried serde_simps)
  moreover have "fst (list_prompts x e now (c, s, sh)) = Some (Inr \<lparr>lp_prompts = reg_prompts r\<rparr>)"
    using assms(4,7) by (simp add: list_prompts_def ans [OF _ _ q(3)] c answer_as_carried serde_simps)
  moreover have "fst (ping x e now (c, s, sh)) = Some (Inr ())"
    by (simp add: ping_def ans [OF _ _ q(4)] answer_unit_def MAX_FRAME_LEN_unat)
  moreover have "carries x (JObj [(''uri'', JStr uri)])" "travels x (snd (resource_answer r uri))"
    using assms(7) by (simp_all add: travels_def)
  then have "fst (fetch_resource x e now uri (c, s, sh)) = Some (case read_resource r uri of
        Some cont \<Rightarrow> Inr \<lparr>rr_contents = [cont]\<rparr>
      | None \<Rightarrow> Inl (Request_failed (Server_error (to_vec x (se_error_body
          \<lparr>err_code = -32002, err_message = ''resource not found: '' @ uri, err_data = None\<rparr>)))))"
    using assms(4) by (simp add: fetch_resource_def ans [OF _ _ read_handled [OF auth]] c)
      (auto simp: resource_answer_def answer_as_carried answer_as_def [of _ _ "Inl _"] serde_simps travels_def split: option.split)
  moreover have "carries x (JObj [(''arguments'', args), (''name'', JStr n)])" "travels x (snd (prompt_answer r n args))"
    using assms(7) by (simp_all add: travels_def)
  then have "fst (fetch_prompt x e now n args (c, s, sh)) = Some (case get_prompt r n args of
        Some res \<Rightarrow> Inr res
      | None \<Rightarrow> Inl (Request_failed (Server_error (to_vec x (se_error_body
          \<lparr>err_code = -32602, err_message = ''unknown prompt: '' @ n, err_data = None\<rparr>)))))"
    using assms(4) by (simp add: fetch_prompt_def ans [OF _ _ prompt_handled [OF auth assms(5)]] c)
      (auto simp: prompt_answer_def answer_as_carried answer_as_def [of _ _ "Inl _"] serde_simps travels_def split: option.split)
  ultimately show ?thesis by blast
qed

text \<open>A client and a session in the clear, over documents that read back.\<close>

definition plain_client :: client where
  "plain_client = client_new pipeline_new None None"

lemma plain_contact: "in_contact plain_client (session_new (shared_new None reg))"
  by (simp add: in_contact_def plain_client_def client_new_def session_new_def shared_new_def pipeline_new_wf same_key_def)

lemma sample_docs_travels:
  assumes "v \<in> set vs" "length vs \<le> 256"
  shows "travels (sample_docs vs) v"
  using sample_docs_carries [OF assms] by (simp add: travels_def) (simp add: sample_docs_def MAX_FRAME_LEN_unat)

theorem queries_return_the_registry_witness:
  "let reg = register ''t'' ''d'' JNull False (\<lambda>_. \<lparr>ctr_content = [], is_error = False\<rparr>)
         (register_resource ''u'' ''n'' ''m'' ''hello'' registry_new);
       sh = shared_new None reg;
       x = sample_docs [se_list_tools_result \<lparr>lt_tools = reg_tools reg\<rparr>, se_list_resources_result \<lparr>lr_resources = reg_resources reg\<rparr>,
         se_list_prompts_result \<lparr>lp_prompts = reg_prompts reg\<rparr>, snd (resource_answer reg ''u''), snd (prompt_answer reg ''p'' JNull),
         JObj [(''uri'', JStr ''u'')], JObj [(''arguments'', JNull), (''name'', JStr ''p'')]]
   in fst (fetch_resource x sample_env 0 ''u'' (plain_client, session_new sh, sh))
        = Some (Inr \<lparr>rr_contents = [text_contents ''u'' ''m'' ''hello'']\<rparr>)
    \<and> fst (list_tools x sample_env 0 (plain_client, session_new sh, sh))
        = Some (Inr \<lparr>lt_tools = [\<lparr>tool_name = ''t'', tool_description = Some ''d'', input_schema = JNull\<rparr>]\<rparr>)"
proof -
  let ?reg = "register ''t'' ''d'' JNull False (\<lambda>_. \<lparr>ctr_content = [], is_error = False\<rparr>)
         (register_resource ''u'' ''n'' ''m'' ''hello'' registry_new)"
  let ?sh = "shared_new None ?reg"
  let ?vs = "[se_list_tools_result \<lparr>lt_tools = reg_tools ?reg\<rparr>, se_list_resources_result \<lparr>lr_resources = reg_resources ?reg\<rparr>,
         se_list_prompts_result \<lparr>lp_prompts = reg_prompts ?reg\<rparr>, snd (resource_answer ?reg ''u''), snd (prompt_answer ?reg ''p'' JNull),
         JObj [(''uri'', JStr ''u'')], JObj [(''arguments'', JNull), (''name'', JStr ''p'')]]"
  have r: "?reg = registry ?sh" by (simp add: shared_new_def)
  have n: "is_value JNull" by (simp add: is_value_def)
  have tl: "\<forall>tool \<in> set (reg_tools ?reg). is_value (input_schema tool)"
    by (simp add: register_def register_resource_def registry_new_def n)
  have t: "\<forall>v \<in> set ?vs. travels (sample_docs ?vs) v" by (intro ballI sample_docs_travels) simp_all
  have q: "read_resource ?reg ''u'' = Some (text_contents ''u'' ''m'' ''hello'')"
    "reg_tools ?reg = [\<lparr>tool_name = ''t'', tool_description = Some ''d'', input_schema = JNull\<rparr>]"
    by (simp_all add: read_resource_def register_resource_def register_def registry_new_def)
  from queries_return_the_registry [OF sample_docs_ok(1,2) plain_contact r n tl t [unfolded list.set], of sample_env 0]
  show ?thesis unfolding Let_def q by simp
qed

text \<open>C23. Subscriptions are kept by the session: subscribing succeeds exactly for a resource the daemon has,
  and from then on the session turns its updates into notices; after unsubscribing it sends none.\<close>

theorem subscriptions_are_kept:
  assumes "lz4_ok x" "aead_ok x" "in_contact c s" "travels x (JObj [(''uri'', JStr uri)])"
    and "missing = se_error_body \<lparr>err_code = -32002, err_message = ''resource not found: '' @ uri, err_data = None\<rparr>"
    and "travels x missing"
  shows "(\<exists>c1 s1. subscribe_resource x e now uri (c, s, sh) = (Some (if has_resource (registry sh) uri then Inr ()
        else Inl (Request_failed (Server_error (to_vec x missing)))), c1, s1, sh) \<and> in_contact c1 s1
      \<and> (has_resource (registry sh) uri \<longrightarrow> fst (event_frame x (Some (Updated uri)) s1) \<noteq> None)
      \<and> (\<forall>u. u \<noteq> uri \<longrightarrow> (u \<in> subscribed s1 \<longleftrightarrow> u \<in> subscribed s)))
    \<and> (\<exists>c1 s1. unsubscribe_resource x e now uri (c, s, sh) = (Some (Inr ()), c1, s1, sh) \<and> in_contact c1 s1
      \<and> fst (event_frame x (Some (Updated uri)) s1) = None \<and> (\<forall>u. u \<noteq> uri \<longrightarrow> (u \<in> subscribed s1 \<longleftrightarrow> u \<in> subscribed s)))"
proof
  have auth: "authenticated s" using assms(3) by (simp add: in_contact_def)
  have uri: "carries x (JObj [(''uri'', JStr uri)])" using assms(4) by (simp add: travels_def)
  note h = subscribe_handled [OF auth uri, of e "next_id c" sh]
  have ev: "fst (event_frame x (Some (Updated uri)) s1) \<noteq> None \<longleftrightarrow> uri \<in> subscribed s1" for s1
    by (simp add: event_frame_def split: prod.split)
  have ok: "length (to_vec x missing) + 28 \<le> unat MAX_FRAME_LEN" "length (as_bytes ''{}'') + 28 \<le> unat MAX_FRAME_LEN"
    using assms(6) by (simp_all add: travels_def MAX_FRAME_LEN_unat)
  let ?in = "s\<lparr>subscribed := insert uri (subscribed s)\<rparr>" and ?out = "s\<lparr>subscribed := subscribed s - {uri}\<rparr>"
  show "\<exists>c1 s1. subscribe_resource x e now uri (c, s, sh) = (Some (if has_resource (registry sh) uri then Inr ()
        else Inl (Request_failed (Server_error (to_vec x missing)))), c1, s1, sh) \<and> in_contact c1 s1
      \<and> (has_resource (registry sh) uri \<longrightarrow> fst (event_frame x (Some (Updated uri)) s1) \<noteq> None)
      \<and> (\<forall>u. u \<noteq> uri \<longrightarrow> (u \<in> subscribed s1 \<longleftrightarrow> u \<in> subscribed s))"
  proof (cases "has_resource (registry sh) uri")
    case True
    with h(1) have "handle_frame x e (frame_new SubscribeResource (next_id c) (uri_payload x uri)) s sh
        = (Continue, reply x SubscribeResourceResult (next_id c) (as_bytes ''{}'') ?in, sh)" by simp
    from request_replied [OF assms(1-3) _ this _ _ _ ok(2), of now] auth obtain c1 s2 where
      "request x e now SubscribeResource (uri_payload x uri) (c, s, sh) = (Some (Inr (as_bytes ''{}'')), c1, s2, sh)"
      "in_contact c1 s2" "subscribed s2 = insert uri (subscribed s)" by auto
    moreover from this(3) ev [of s2] have "fst (event_frame x (Some (Updated uri)) s2) \<noteq> None" by simp
    ultimately show ?thesis using True
      by (intro exI [of _ c1] exI [of _ s2]) (simp add: subscribe_resource_def answer_unit_def)
  next
    case False
    with h(1) assms(5) have "handle_frame x e (frame_new SubscribeResource (next_id c) (uri_payload x uri)) s sh
        = (Continue, reply x Error (next_id c) (to_vec x missing) s, sh)" by simp
    from request_replied [OF assms(1-3) _ this _ _ _ ok(1), of now] auth obtain c1 s2 where
      "request x e now SubscribeResource (uri_payload x uri) (c, s, sh) = (Some (Inl (Server_error (to_vec x missing))), c1, s2, sh)"
      "in_contact c1 s2" "subscribed s2 = subscribed s" by auto
    with False show ?thesis
      by (intro exI [of _ c1] exI [of _ s2]) (simp add: subscribe_resource_def answer_unit_def)
  qed
  from request_replied [OF assms(1-3) _ h(2) _ _ _ ok(2), of now] auth obtain c1 s2 where
    "request x e now UnsubscribeResource (uri_payload x uri) (c, s, sh) = (Some (Inr (as_bytes ''{}'')), c1, s2, sh)"
    "in_contact c1 s2" "subscribed s2 = subscribed s - {uri}" by auto
  moreover from this(3) ev [of s2] have "fst (event_frame x (Some (Updated uri)) s2) = None" by simp
  ultimately show "\<exists>c1 s1. unsubscribe_resource x e now uri (c, s, sh) = (Some (Inr ()), c1, s1, sh) \<and> in_contact c1 s1
      \<and> fst (event_frame x (Some (Updated uri)) s1) = None \<and> (\<forall>u. u \<noteq> uri \<longrightarrow> (u \<in> subscribed s1 \<longleftrightarrow> u \<in> subscribed s))"
    by (intro exI [of _ c1] exI [of _ s2]) (simp add: unsubscribe_resource_def answer_unit_def)
qed

theorem subscriptions_are_kept_witness:
  "let reg = register_resource ''u'' ''n'' ''m'' ''hello'' registry_new; sh = shared_new None reg;
       missing = se_error_body \<lparr>err_code = -32002, err_message = ''resource not found: '' @ ''u'', err_data = None\<rparr>;
       x = sample_docs [JObj [(''uri'', JStr ''u'')], missing]
   in \<exists>c1 s1. subscribe_resource x sample_env 0 ''u'' (plain_client, session_new sh, sh) = (Some (Inr ()), c1, s1, sh)
        \<and> fst (event_frame x (Some (Updated ''u'')) s1) \<noteq> None"
proof -
  let ?reg = "register_resource ''u'' ''n'' ''m'' ''hello'' registry_new"
  let ?sh = "shared_new None ?reg"
  let ?ref = "se_error_body \<lparr>err_code = -32002, err_message = ''resource not found: '' @ ''u'', err_data = None\<rparr>"
  let ?vs = "[JObj [(''uri'', JStr ''u'')], ?ref]"
  have t: "travels (sample_docs ?vs) (JObj [(''uri'', JStr ''u'')])" "travels (sample_docs ?vs) ?ref"
    by (intro sample_docs_travels; simp)+
  have h: "has_resource (registry ?sh) ''u''" by (simp add: shared_new_def has_resource_def register_resource_def)
  from conjunct1 [OF subscriptions_are_kept [OF sample_docs_ok(1,2) plain_contact [of ?reg] t(1) refl t(2), of sample_env 0 ?sh]]
  show ?thesis unfolding Let_def if_P [OF h] by (elim exE conjE) (intro exI conjI, assumption, erule mp, rule h)
qed

end
