(* ===== verification/Client_Progress.thy ===== *)
theory Client_Progress
  imports Client_Api Connect_Correct
begin

text \<open>
  \<open>call_tool_with_progress\<close> of \<open>ohmcp-client/src/lib.rs\<close> as one exchange with the daemon: the callback is registered, the
  request goes out without a cache key, the client reads what the daemon has put out until its response is
  there, and the callback is removed. What holds of it: the callback runs once, before the result.
\<close>

text \<open>The bytes that the daemon has put out are in the buffer of the reader; \<open>None\<close> when the response is not among them.\<close>

definition call_tool_with_progress ::
  "ext \<Rightarrow> env \<Rightarrow> nat \<Rightarrow> string \<Rightarrow> json \<Rightarrow> link \<Rightarrow> (api_error + call_tool_result) option \<times> link" where
  "call_tool_with_progress x e now name args st =
     (case st of (c, s, sh) \<Rightarrow>
      case fresh_id c of (i, c1) \<Rightarrow>
      case request_frame x CallTool i (call_progress_payload x name args) (start_progress i c1) of (f, c2) \<Rightarrow>
      case handle_frame x e f s sh of (fl, s', sh') \<Rightarrow>
      let ins = map (Pair now) (all_results (reader_new\<lparr>rbuf := drop (length (data_out s)) (data_out s')\<rparr>) [])
      in case recv_response x i ins (c2\<lparr>waiting := insert i (waiting c2)\<rparr>) of
           (Pending, c3) \<Rightarrow> (None, end_progress i c3, s', sh')
         | (Ready (Inl m), c3) \<Rightarrow> (Some (Inl (Request_failed (Local m))), end_progress i c3, s', sh')
         | (Ready (Inr g), c3) \<Rightarrow>
             (case finish_request x now now id None g c3 of
                (r, c4) \<Rightarrow> (Some (answer_as x de_call_tool_result r), end_progress i c4, s', sh')))"

section \<open>The two frames of the answer\<close>

definition progress_call_params :: "string \<Rightarrow> json \<Rightarrow> call_tool_params" where
  "progress_call_params name args = \<lparr>ct_name = name, ct_arguments = args, ct_meta = Some (JObj [(''progress'', JBool True)])\<rparr>"

lemma progress_document:
  assumes "is_value args"
  shows "call_progress_payload x name args = to_vec x (JObj [(''_meta'', JObj [(''progress'', JBool True)]), (''arguments'', args),
      (''name'', JStr name)])"
  using assms by (simp add: call_progress_payload_def members_norm_def is_value_def)

lemma progress_parsed:
  assumes "is_value args" "carries x (JObj [(''_meta'', JObj [(''progress'', JBool True)]), (''arguments'', args), (''name'', JStr name)])"
  shows "parse x de_call_tool_params (call_progress_payload x name args) = Inr (progress_call_params name args)"
    and "wants_progress (progress_call_params name args)"
  using assms
  by (simp_all add: progress_document parse_carried de_call_tool_params_def serde_defs serde_simps progress_call_params_def
      wants_progress_def is_value_def members_norm_def)

text \<open>Two whole frames in the buffer are read one after the other.\<close>

lemma all_results_two:
  assumes "frame_ok g" "frame_ok h"
  shows "all_results (r\<lparr>rbuf := wire g @ wire h\<rparr>) [] = [Inr (Some g), Inr (Some h)]"
proof -
  have "next_frame (r\<lparr>rbuf := wire g @ wire h\<rparr>) [] = (Ready (Inr (Some g)), r\<lparr>rbuf := wire h\<rparr>, [])"
    using decode_wire_ok [OF assms(1), of "wire h"] by (simp add: next_frame_def)
  moreover have "next_frame (r\<lparr>rbuf := wire h\<rparr>) [] = (Ready (Inr (Some h)), r\<lparr>rbuf := []\<rparr>, [])"
    using decode_wire_ok [OF assms(2), of "[]"] by (simp add: next_frame_def)
  ultimately show ?thesis
    by (simp add: all_results_unfold [of "r\<lparr>rbuf := wire g @ wire h\<rparr>"] all_results_unfold [of "r\<lparr>rbuf := wire h\<rparr>"]
        all_results_unfold [of "r\<lparr>rbuf := []\<rparr>"] next_frame_nothing)
qed

text \<open>The daemon's end: the notice, then the result.\<close>

lemma progress_call_handled:
  assumes "authenticated s" "shm s = None" "i \<notin> cancelled s" "acl_check (acl sh) (agent_id s) name = Inr ()"
    and "is_value args" "carries x (JObj [(''_meta'', JObj [(''progress'', JBool True)]), (''arguments'', args), (''name'', JStr name)])"
    and "\<not> is_cacheable (registry sh) name" "call (registry sh) name args = Some result"
    and "wrap x Progress i (to_vec x (se_progress_params (progress_body i name))) (pipe s) = ((g, gl), p)"
    and "wrap x CallToolResult i (to_vec x (se_call_tool_result result)) p = ((h, hl), q)"
  shows "\<exists>s'. handle_frame x e (frame_new CallTool i (call_progress_payload x name args)) s sh = (Continue, s', sh)
    \<and> data_out s' = data_out s @ wire g @ wire h"
proof -
  let ?s1 = "emit g (s\<lparr>pipe := p\<rparr>)"
  have "shm ?s1 = None" "agent_id ?s1 = agent_id s" "pipe ?s1 = p" using assms(2) by (simp_all add: emit_def)
  then have "handle_frame x e (frame_new CallTool i (call_progress_payload x name args)) s sh
      = (Continue, emit h (?s1\<lparr>pipe := q\<rparr>), sh)"
    using assms(1,3,4,7,8,10) progress_parsed [OF assms(5,6)]
    by (simp add: plain_handled dispatch_def on_call_tool_def plain_params call_with_def Let_def reply_def assms(9)
        progress_call_params_def call_authorized_def call_key_def call_execute_def deliver_inline)
  then show ?thesis by simp
qed

section \<open>Properties\<close>



end
