(* ===== verification/Client_Concurrent.thy ===== *)
theory Client_Concurrent
  imports Client_Conn
begin

text \<open>
  Many requests on one client at once: \<open>request_with_id\<close> and \<open>recv_response\<close> of
  \<open>ohmcp-client/src/lib.rs\<close> as the steps of tasks that interleave. A task waits for its own answer or
  for the lock of the reader; the one that has the lock reads for all.
\<close>

section \<open>State\<close>

text \<open>
  \<open>inbox\<close> is what the calls of \<open>next_frame\<close> will return, \<open>sending\<close> the requests whose frame is queued and
  not yet flushed, \<open>active\<close> those that wait for their response, \<open>holder\<close> the one with the lock of the
  reader, \<open>results\<close> what \<open>recv_response\<close> or a failed write gave to requests that are over.
\<close>

record crowd =
  cli :: client
  inbox :: "(core_error + frame option) list"
  sending :: "u64 set"
  active :: "u64 set"
  holder :: "u64 option"
  results :: "u64 \<rightharpoonup> string + frame"
  issued :: nat

definition crowd_new :: "pipeline \<Rightarrow> ring option \<Rightarrow> ring option \<Rightarrow> crowd" where
  "crowd_new p down up = \<lparr>cli = client_new p down up, inbox = [], sending = {}, active = {}, holder = None,
                          results = Map.empty, issued = 0\<rparr>"

section \<open>Steps\<close>

text \<open>One turn of the inner loop of the request \<open>i\<close>: \<open>None\<close> continues it.\<close>

definition read_one ::
  "ext \<Rightarrow> nat \<Rightarrow> u64 \<Rightarrow> core_error + frame option \<Rightarrow> client \<Rightarrow> (string + frame) option \<times> client" where
  "read_one x now i r c =
     (case r of
        Inl e \<Rightarrow> (Some (Inl (core_error_text e)), c)
      | Inr None \<Rightarrow> (Some (Inl ''connection closed''), c)
      | Inr (Some f) \<Rightarrow>
          (case recv_frame x now i f c of
             (Inl e, c') \<Rightarrow> (Some (Inl e), c')
           | (Inr (Some g), c') \<Rightarrow> (Some (Inr g), c')
           | (Inr None, c') \<Rightarrow> (None, c')))"

text \<open>A request is over; if it has the lock, the guard gives it back.\<close>

definition returns :: "u64 \<Rightarrow> string + frame \<Rightarrow> crowd \<Rightarrow> crowd" where
  "returns i r w =
     w\<lparr>sending := sending w - {i}, active := active w - {i},
       holder := (if holder w = Some i then None else holder w), results := (results w)(i \<mapsto> r)\<rparr>"

definition crowd_issue :: "ext \<Rightarrow> msg_type \<Rightarrow> bytes \<Rightarrow> crowd \<Rightarrow> crowd" where
  "crowd_issue x t body w =
     (case fresh_id (cli w) of (i, c) \<Rightarrow> case enqueue_request x t i body c of (contended, c') \<Rightarrow>
        w\<lparr>cli := c', sending := insert i (sending w), issued := Suc (issued w)\<rparr>)"

definition crowd_flush :: "u64 \<Rightarrow> write_outcome \<Rightarrow> crowd \<Rightarrow> crowd" where
  "crowd_flush i out w =
     (case flush_requests out (cli w) of
        (Inl e, c) \<Rightarrow> returns i (Inl e) (w\<lparr>cli := c\<rparr>)
      | (Inr _, c) \<Rightarrow> w\<lparr>cli := c, sending := sending w - {i}, active := insert i (active w)\<rparr>)"

definition crowd_take :: "u64 \<Rightarrow> frame \<Rightarrow> crowd \<Rightarrow> crowd" where
  "crowd_take i f w = returns i (Inr f) (w\<lparr>cli := (cli w)\<lparr>ready := (ready (cli w))(i := None)\<rparr>\<rparr>)"

definition crowd_read :: "ext \<Rightarrow> nat \<Rightarrow> u64 \<Rightarrow> core_error + frame option \<Rightarrow> crowd \<Rightarrow> crowd" where
  "crowd_read x now i r w =
     (case read_one x now i r (cli w) of
        (None, c) \<Rightarrow> w\<lparr>inbox := tl (inbox w), cli := c\<rparr>
      | (Some res, c) \<Rightarrow> returns i res (w\<lparr>inbox := tl (inbox w), cli := c\<rparr>))"

text \<open>
  Up to the queueing of its frame a request is one step: how the registrations and the frames of several
  requests interleave there changes the order of the frames, which nothing below depends on
  (the writes to the ring are the subject of \<open>Shm_Concurrent\<close>). A request that times out stays registered, and what is
  delivered to it later stays in \<open>ready\<close>, where the code drops it.
  \<open>Takes\<close> is the first branch of the \<open>select!\<close> and the check after the lock; \<open>Locks\<close> needs that check to
  find nothing. The ids are drawn from a 64-bit counter that no run wraps.
\<close>

inductive crowd_step :: "ext \<Rightarrow> crowd \<Rightarrow> crowd \<Rightarrow> bool" for x where
  Issue: "issued w + 2 < 2 ^ 64 \<Longrightarrow> crowd_step x w (crowd_issue x t body w)"
| Flush: "i \<in> sending w \<Longrightarrow> crowd_step x w (crowd_flush i out w)"
| Arrives: "crowd_step x w (w\<lparr>inbox := inbox w @ [r]\<rparr>)"
| Takes: "i \<in> active w \<Longrightarrow> ready (cli w) i = Some f \<Longrightarrow> crowd_step x w (crowd_take i f w)"
| Locks: "i \<in> active w \<Longrightarrow> holder w = None \<Longrightarrow> ready (cli w) i = None \<Longrightarrow> crowd_step x w (w\<lparr>holder := Some i\<rparr>)"
| Reads: "holder w = Some i \<Longrightarrow> inbox w = r # rest \<Longrightarrow> crowd_step x w (crowd_read x now i r w)"
| Times_out: "i \<in> active w \<Longrightarrow> crowd_step x w (returns i (Inl ''request timeout'') w)"

section \<open>Invariant\<close>

text \<open>The ids given out so far.\<close>

definition ids :: "nat \<Rightarrow> u64 set" where
  "ids n = word_of_nat ` {1..n}"

text \<open>
  A request under way is registered or its answer is there for it, and never both: no answer is lost
  and none is left behind. What is kept for a request, and what it returns, is its own.
\<close>

definition crowd_inv :: "crowd \<Rightarrow> bool" where
  "crowd_inv w \<longleftrightarrow> issued w + 1 < 2 ^ 64 \<and> next_id (cli w) = word_of_nat (Suc (issued w))
     \<and> sending w \<union> active w \<union> waiting (cli w) \<union> dom (ready (cli w)) \<union> dom (results w) \<subseteq> ids (issued w)
     \<and> (\<forall>i \<in> sending w \<union> active w. i \<in> waiting (cli w) \<longleftrightarrow> ready (cli w) i = None)
     \<and> (\<forall>i f. ready (cli w) i = Some f \<longrightarrow> request_id (header f) = i \<and> i \<notin> waiting (cli w))
     \<and> (\<forall>i. holder w = Some i \<longrightarrow> i \<in> active w \<and> ready (cli w) i = None)
     \<and> (sending w \<union> active w) \<inter> dom (results w) = {}
     \<and> (\<forall>i f. results w i = Some (Inr f) \<longrightarrow> request_id (header f) = i)"

lemma new_id: "n + 1 < 2 ^ 64 \<Longrightarrow> word_of_nat (Suc n) \<notin> ids n"
proof
  assume n: "n + 1 < 2 ^ 64" and "word_of_nat (Suc n) \<in> ids n"
  then obtain k where k: "k \<in> {1..n}" "(word_of_nat (Suc n) :: u64) = word_of_nat k" by (auto simp: ids_def)
  then have "unat (word_of_nat (Suc n) :: u64) = unat (word_of_nat k :: u64)" by simp
  then show False using k(1) n by (simp add: unat_of_nat_u64 del: of_nat_Suc)
qed

lemma ids_Suc: "ids (Suc n) = insert (word_of_nat (Suc n)) (ids n)"
  by (simp add: ids_def atLeastAtMostSuc_conv)

lemma request_frame_keeps:
  "request_frame x t i body c = (f, c') \<Longrightarrow> waiting c' = waiting c \<and> ready c' = ready c \<and> next_id c' = next_id c"
  by (auto simp: request_frame_def Let_def split: prod.splits option.splits if_splits)

lemma flush_requests_keeps:
  "flush_requests out c = (r, c') \<Longrightarrow> waiting c' = waiting c \<and> ready c' = ready c \<and> next_id c' = next_id c"
  by (auto simp: flush_requests_def split: prod.splits sum.splits)

text \<open>What reading a frame does to the registered requests and the answers kept for them.\<close>

lemma recv_frame_effect:
  assumes "recv_frame x now i f c = (r, c')"
  shows "next_id c' = next_id c
    \<and> (waiting c' = waiting c \<and> ready c' = ready c \<and> (\<forall>g. r \<noteq> Inr (Some g))
      \<or> (\<exists>g. r = Inr (Some g) \<and> request_id (header g) = i \<and> waiting c' = waiting c - {i} \<and> ready c' = ready c)
      \<or> (\<exists>g. r = Inr None \<and> request_id (header g) \<noteq> i \<and> request_id (header g) \<in> waiting c
          \<and> waiting c' = waiting c - {request_id (header g)} \<and> ready c' = (ready c)(request_id (header g) \<mapsto> g)))"
proof -
  obtain q c1 where u: "resolve_shm f c = (q, c1)" by fastforce
  have c1: "waiting c1 = waiting c" "ready c1 = ready c" "next_id c1 = next_id c"
    using u by (auto simp: resolve_shm_def split: if_splits option.splits prod.splits)
  have n: "waiting (on_progress x now g c1) = waiting c1" "waiting (on_updated x now g c1) = waiting c1"
    "waiting (on_list_changed c1) = waiting c1" "ready (on_progress x now g c1) = ready c1"
    "ready (on_updated x now g c1) = ready c1" "ready (on_list_changed c1) = ready c1"
    "next_id (on_progress x now g c1) = next_id c1" "next_id (on_updated x now g c1) = next_id c1"
    "next_id (on_list_changed c1) = next_id c1" for g
    by (auto simp: on_progress_def on_updated_def on_list_changed_def client_unwrap_def
        split: prod.split sum.split)
  show ?thesis
  proof (cases q)
    case (Inl e)
    with assms c1 show ?thesis by (auto simp: recv_frame_def u)
  next
    case (Inr g)
    consider (notice) "msg_type (header g) \<in> {Progress, ResourceListChanged, ResourceUpdated}"
      | (own) "msg_type (header g) \<notin> {Progress, ResourceListChanged, ResourceUpdated}" "request_id (header g) = i"
      | (other) "msg_type (header g) \<notin> {Progress, ResourceListChanged, ResourceUpdated}" "request_id (header g) \<noteq> i"
      by blast
    then show ?thesis
    proof cases
      case notice
      with assms Inr c1 n show ?thesis by (auto simp: recv_frame_def u)
    next
      case own
      with assms Inr c1 show ?thesis by (auto simp: recv_frame_def u)
    next
      case other
      with assms Inr c1 show ?thesis by (auto simp: recv_frame_def u split: if_splits)
    qed
  qed
qed

lemma read_one_effect:
  assumes "read_one x now i r c = (q, c')"
  shows "next_id c' = next_id c
    \<and> (waiting c' = waiting c \<and> ready c' = ready c \<and> (\<forall>g. q \<noteq> Some (Inr g))
      \<or> (\<exists>g. q = Some (Inr g) \<and> request_id (header g) = i \<and> waiting c' = waiting c - {i} \<and> ready c' = ready c)
      \<or> (\<exists>g. q = None \<and> request_id (header g) \<noteq> i \<and> request_id (header g) \<in> waiting c
          \<and> waiting c' = waiting c - {request_id (header g)} \<and> ready c' = (ready c)(request_id (header g) \<mapsto> g)))"
proof (cases "\<exists>f. r = Inr (Some f)")
  case True
  then obtain f where r: "r = Inr (Some f)" by blast
  obtain q1 c1 where f: "recv_frame x now i f c = (q1, c1)" by fastforce
  have c': "c' = c1" "q = (case q1 of Inl e \<Rightarrow> Some (Inl e) | Inr (Some g) \<Rightarrow> Some (Inr g) | Inr None \<Rightarrow> None)"
    using assms by (auto simp: read_one_def r f split: sum.splits option.splits)
  show ?thesis using recv_frame_effect [OF f] unfolding c' by (elim conjE disjE exE) (auto split: sum.split option.split)
next
  case False
  with assms show ?thesis by (auto simp: read_one_def split: sum.splits option.splits)
qed

section \<open>The steps keep the invariant\<close>

lemma crowd_returns_inv:
  assumes "crowd_inv w" "i \<in> sending w \<union> active w" "\<forall>f. r = Inr f \<longrightarrow> request_id (header f) = i"
  shows "crowd_inv (returns i r w)"
  using assms by (auto simp: crowd_inv_def returns_def)

lemma crowd_issue_inv:
  assumes inv: "crowd_inv w" and n: "issued w + 2 < 2 ^ 64"
  shows "crowd_inv (crowd_issue x t body w)"
proof -
  let ?i = "next_id (cli w)"
  have i: "?i = word_of_nat (Suc (issued w))" and fresh: "?i \<notin> ids (issued w)"
    using inv new_id [of "issued w"] by (simp_all add: crowd_inv_def del: of_nat_Suc)
  have notin: "?i \<notin> sending w" "?i \<notin> active w" "?i \<notin> waiting (cli w)" "ready (cli w) ?i = None" "?i \<notin> dom (results w)"
    using inv fresh by (auto simp: crowd_inv_def)
  obtain f c1 where f: "request_frame x t ?i body ((cli w)\<lparr>next_id := ?i + 1\<rparr>) = (f, c1)" by fastforce
  have c1: "waiting c1 = waiting (cli w)" "ready c1 = ready (cli w)" "next_id c1 = ?i + 1"
    using request_frame_keeps [OF f] by simp_all
  define n where "n = issued w"
  have grow: "ids (Suc n) = insert ?i (ids n)" by (simp add: ids_Suc i n_def del: of_nat_Suc)
  have nid: "next_id c1 = word_of_nat (Suc (Suc n))" by (simp add: c1(3) i n_def)
  have w': "crowd_issue x t body w = w\<lparr>cli := c1\<lparr>waiting := insert ?i (waiting c1), cw := queue f (cw c1)\<rparr>,
      sending := insert ?i (sending w), issued := Suc n\<rparr>"
    by (simp add: crowd_issue_def fresh_id_def enqueue_request_def f n_def)
  have sub: "sending w \<union> active w \<union> waiting (cli w) \<union> dom (ready (cli w)) \<union> dom (results w) \<subseteq> ids n"
    using inv by (simp add: crowd_inv_def n_def)
  have bound: "Suc n + 1 < 2 ^ 64" using n by (simp add: n_def)
  have reg: "\<forall>i \<in> sending w \<union> active w. i \<in> waiting (cli w) \<longleftrightarrow> ready (cli w) i = None"
    and own: "\<forall>i f. ready (cli w) i = Some f \<longrightarrow> request_id (header f) = i \<and> i \<notin> waiting (cli w)"
    and lock: "\<forall>i. holder w = Some i \<longrightarrow> i \<in> active w \<and> ready (cli w) i = None"
    and over: "(sending w \<union> active w) \<inter> dom (results w) = {}"
    and res: "\<forall>i f. results w i = Some (Inr f) \<longrightarrow> request_id (header f) = i"
    using inv by (simp_all add: crowd_inv_def)
  show ?thesis
    unfolding crowd_inv_def w'
    by (simp add: nid grow c1(1,2) del: of_nat_Suc) (use sub reg own lock over res notin bound in auto)
qed

lemma crowd_flush_inv:
  assumes inv: "crowd_inv w" and i: "i \<in> sending w"
  shows "crowd_inv (crowd_flush i out w)"
proof -
  obtain r c where f: "flush_requests out (cli w) = (r, c)" by fastforce
  have c: "waiting c = waiting (cli w)" "ready c = ready (cli w)" "next_id c = next_id (cli w)"
    using flush_requests_keeps [OF f] by simp_all
  show ?thesis
  proof (cases r)
    case (Inl e)
    have "crowd_inv (w\<lparr>cli := c\<rparr>)" using inv c by (simp add: crowd_inv_def)
    with Inl i show ?thesis by (simp add: crowd_flush_def f crowd_returns_inv)
  next
    case (Inr u)
    with inv c i show ?thesis by (auto simp: crowd_flush_def f crowd_inv_def)
  qed
qed

lemma crowd_take_inv:
  assumes inv: "crowd_inv w" and i: "i \<in> active w" "ready (cli w) i = Some f"
  shows "crowd_inv (crowd_take i f w)"
  using assms by (auto simp: crowd_inv_def crowd_take_def returns_def)

lemma crowd_read_inv:
  assumes inv: "crowd_inv w" and h: "holder w = Some i"
  shows "crowd_inv (crowd_read x now i r w)"
proof -
  obtain q c where q: "read_one x now i r (cli w) = (q, c)" by fastforce
  have i: "i \<in> active w" "ready (cli w) i = None" "i \<in> waiting (cli w)" using inv h by (auto simp: crowd_inv_def)
  note eff = read_one_effect [OF q]
  show ?thesis
  proof (cases q)
    case None
    let ?w = "w\<lparr>inbox := tl (inbox w), cli := c\<rparr>"
    have "crowd_inv ?w"
      using eff None inv h by (elim conjE disjE exE) (auto simp: crowd_inv_def)
    with None q show ?thesis by (simp add: crowd_read_def)
  next
    case (Some res)
    have "crowd_inv (returns i res (w\<lparr>inbox := tl (inbox w), cli := c\<rparr>))"
      using eff Some inv h i by (elim conjE disjE exE) (auto simp: crowd_inv_def returns_def)
    with Some q show ?thesis by (simp add: crowd_read_def)
  qed
qed

lemma crowd_step_inv: "crowd_step x w w' \<Longrightarrow> crowd_inv w \<Longrightarrow> crowd_inv w'"
proof (induction rule: crowd_step.induct)
  case (Arrives w r)
  then show ?case by (simp add: crowd_inv_def)
next
  case (Locks i w)
  then show ?case by (simp add: crowd_inv_def)
qed (auto intro: crowd_issue_inv crowd_flush_inv crowd_take_inv crowd_read_inv crowd_returns_inv)

lemma crowd_new_inv: "crowd_inv (crowd_new p down up)"
  by (simp add: crowd_inv_def crowd_new_def client_new_def)

lemma crowd_run_inv: "(crowd_step x)\<^sup>*\<^sup>* w w' \<Longrightarrow> crowd_inv w \<Longrightarrow> crowd_inv w'"
  by (induction rule: rtranclp_induct) (auto intro: crowd_step_inv)

section \<open>Properties\<close>



lemma read_response:
  assumes "inbox w = Inr (Some g) # rest" "response g"
  shows "crowd_read x now j (Inr (Some g)) w =
    (if request_id (header g) = j
     then returns j (Inr g) (w\<lparr>inbox := rest, cli := (cli w)\<lparr>waiting := waiting (cli w) - {j}\<rparr>\<rparr>)
     else if request_id (header g) \<in> waiting (cli w)
     then w\<lparr>inbox := rest, cli := (cli w)\<lparr>waiting := waiting (cli w) - {request_id (header g)},
                                       ready := (ready (cli w))(request_id (header g) \<mapsto> g)\<rparr>\<rparr>
     else w\<lparr>inbox := rest\<rparr>)"
  using assms by (simp add: crowd_read_def read_one_def recv_frame_response)

text \<open>Whoever has the lock, reading moves a response that has come in one place forward.\<close>

lemma lock_is_held:
  assumes "crowd_inv w" "i \<in> active w" "i \<in> waiting (cli w)"
  obtains j w1 where "(crowd_step x)\<^sup>*\<^sup>* w w1" "holder w1 = Some j" "j \<in> active w1" "inbox w1 = inbox w"
    "active w1 = active w" "cli w1 = cli w"
proof (cases "holder w")
  case None
  have "crowd_step x w (w\<lparr>holder := Some i\<rparr>)"
    using assms None by (intro crowd_step.Locks) (auto simp: crowd_inv_def)
  then have "(crowd_step x)\<^sup>*\<^sup>* w (w\<lparr>holder := Some i\<rparr>)" by (rule r_into_rtranclp)
  with that [of "w\<lparr>holder := Some i\<rparr>" i] assms show ?thesis by simp
next
  case (Some j)
  with that [of w j] assms show ?thesis by (simp add: crowd_inv_def)
qed

lemma response_moves_forward:
  assumes inv: "crowd_inv w" and i: "i \<in> active w" "i \<in> waiting (cli w)"
    and g: "inbox w = Inr (Some g) # rest" "response g" "request_id (header g) \<noteq> i"
  shows "\<exists>w'. (crowd_step x)\<^sup>*\<^sup>* w w' \<and> i \<in> active w' \<and> i \<in> waiting (cli w') \<and> inbox w' = rest"
proof -
  obtain j w1 where w1: "(crowd_step x)\<^sup>*\<^sup>* w w1" "holder w1 = Some j" "inbox w1 = inbox w"
    "active w1 = active w" "cli w1 = cli w"
    using lock_is_held [OF inv i] by metis
  let ?w = "crowd_read x 0 j (Inr (Some g)) w1"
  have "crowd_step x w1 ?w" using w1 g(1) by (intro crowd_step.Reads) simp_all
  moreover have "i \<in> active ?w \<and> i \<in> waiting (cli ?w) \<and> inbox ?w = rest"
    using read_response [of w1 g rest x 0 j] w1 g i by (auto simp: returns_def)
  moreover have "(crowd_step x)\<^sup>*\<^sup>* w ?w" using w1(1) calculation(1) by (rule rtranclp.rtrancl_into_rtrancl)
  ultimately show ?thesis by (intro exI [of _ ?w]) simp
qed


text \<open>A run with two requests, whose answers come in the other order.\<close>

lemma issue_fields:
  "cshm_up (cli w) = None \<Longrightarrow> sending (crowd_issue x t body w) = insert (next_id (cli w)) (sending w)
    \<and> active (crowd_issue x t body w) = active w \<and> inbox (crowd_issue x t body w) = inbox w
    \<and> waiting (cli (crowd_issue x t body w)) = insert (next_id (cli w)) (waiting (cli w))
    \<and> next_id (cli (crowd_issue x t body w)) = next_id (cli w) + 1 \<and> cshm_up (cli (crowd_issue x t body w)) = None
    \<and> issued (crowd_issue x t body w) = Suc (issued w)"
  by (simp add: crowd_issue_def fresh_id_def enqueue_request_def request_frame_def split: prod.split)

lemma flush_fields:
  "sending (crowd_flush i Wrote_all w) = sending w - {i} \<and> active (crowd_flush i Wrote_all w) = insert i (active w)
    \<and> inbox (crowd_flush i Wrote_all w) = inbox w \<and> waiting (cli (crowd_flush i Wrote_all w)) = waiting (cli w)"
  by (simp add: crowd_flush_def flush_requests_def flush_def)

lemma two_requests:
  obtains w where "(crowd_step sample_ext)\<^sup>*\<^sup>* (crowd_new pipeline_new None None) w"
    "active w = {1, 2}" "waiting (cli w) = {1, 2}"
    "inbox w = [Inr (Some (frame_new Pong 2 [])), Inr (Some (frame_new Pong 1 []))]"
proof -
  define w0 where "w0 = crowd_new pipeline_new None None"
  define w1 where "w1 = crowd_issue sample_ext Ping [] w0"
  define w2 where "w2 = crowd_issue sample_ext Ping [] w1"
  define w3 where "w3 = crowd_flush 1 Wrote_all w2"
  define w4 where "w4 = crowd_flush 2 Wrote_all w3"
  define w5 where "w5 = w4\<lparr>inbox := inbox w4 @ [Inr (Some (frame_new Pong 2 []))]\<rparr>"
  define w6 where "w6 = w5\<lparr>inbox := inbox w5 @ [Inr (Some (frame_new Pong 1 []))]\<rparr>"
  have e0: "sending w0 = {}" "active w0 = {}" "inbox w0 = []" "waiting (cli w0) = {}" "next_id (cli w0) = 1"
    "cshm_up (cli w0) = None" "issued w0 = 0"
    by (simp_all add: w0_def crowd_new_def client_new_def)
  note e1 = issue_fields [OF e0(6), of sample_ext Ping "[]", folded w1_def, unfolded e0]
  have u1: "cshm_up (cli w1) = None" using e1 by simp
  note e2 = issue_fields [OF u1, of sample_ext Ping "[]", folded w2_def]
  have f2: "sending w2 = {1, 2}" "active w2 = {}" "inbox w2 = []" "waiting (cli w2) = {1, 2}" using e1 e2 by auto
  note e3 = flush_fields [of 1 w2, folded w3_def, unfolded f2]
  note e4 = flush_fields [of 2 w3, folded w4_def]
  have "(crowd_step sample_ext)\<^sup>*\<^sup>* w0 w1"
    unfolding w1_def by (rule r_into_rtranclp, rule crowd_step.Issue) (simp add: e0)
  moreover have "crowd_step sample_ext w1 w2" unfolding w2_def by (rule crowd_step.Issue) (simp add: e1)
  moreover have "crowd_step sample_ext w2 w3" unfolding w3_def by (rule crowd_step.Flush) (simp add: f2)
  moreover have "crowd_step sample_ext w3 w4" unfolding w4_def by (rule crowd_step.Flush) (simp add: e3)
  moreover have "crowd_step sample_ext w4 w5" "crowd_step sample_ext w5 w6"
    unfolding w5_def w6_def by (rule crowd_step.Arrives)+
  ultimately have "(crowd_step sample_ext)\<^sup>*\<^sup>* w0 w6" by (meson rtranclp.rtrancl_into_rtrancl)
  moreover have "active w6 = {1, 2}" "waiting (cli w6) = {1, 2}"
    "inbox w6 = [Inr (Some (frame_new Pong 2 [])), Inr (Some (frame_new Pong 1 []))]"
    using e3 e4 by (auto simp: w5_def w6_def)
  ultimately show thesis using that by (simp add: w0_def)
qed


text \<open>A reference that cannot be resolved fails the request whose task read it, not the one it answers: the
  frame is gone and the request it answers goes on waiting.\<close>

lemma bad_reference_fails_the_reader:
  assumes "holder w = Some i" "inbox w = Inr (Some f) # rest" "request_id (header f) = j" "j \<noteq> i"
    and "shm_ref (flags (header f))" "cshm (cli w) = None" "j \<in> waiting (cli w)" "j \<in> active w"
  shows "crowd_step x w (crowd_read x now i (Inr (Some f)) w)
    \<and> results (crowd_read x now i (Inr (Some f)) w) i = Some (Inl ''SHM_REF frame but shm channel not negotiated'')
    \<and> inbox (crowd_read x now i (Inr (Some f)) w) = rest
    \<and> j \<in> waiting (cli (crowd_read x now i (Inr (Some f)) w)) \<and> j \<in> active (crowd_read x now i (Inr (Some f)) w)"
  using assms crowd_step.Reads [OF assms(1,2), of x now]
  by (simp add: crowd_read_def read_one_def recv_frame_def resolve_shm_def returns_def)

end
