(* ===== verification/Shm_Concurrent.thy ===== *)
theory Shm_Concurrent
  imports Transport_Shm
begin

text \<open>
  The shared-memory ring of \<open>ohmcp-transport/src/shm.rs\<close> under concurrency: \<open>try_write\<close> and \<open>read_release\<close>
  in the steps that two processes interleave, down to single bytes. The acquire and release accesses to
  the cursors order the copies, so the steps are taken one after the other. The loads of a write and its
  test for space are one step: the cursor of the other side only grows, which makes room.
\<close>

section \<open>The steps of an operation\<close>

text \<open>\<open>try_write\<close> up to the copy: the position it will write at.\<close>

definition write_reserve :: "ring \<Rightarrow> nat \<Rightarrow> u64 option" where
  "write_reserve r len =
     (if len = 0 \<or> cap r < len then None
      else
        let m = unat (head r) mod cap r;
            pos = (if cap r < m + len then head r + word_of_nat (cap r - m) else head r)
        in if word_of_nat (cap r) < pos + word_of_nat len - tail r then None else Some pos)"

definition write_byte :: "u64 \<Rightarrow> bytes \<Rightarrow> nat \<Rightarrow> ring \<Rightarrow> ring" where
  "write_byte pos d j r = r\<lparr>mem := blit (mem r) (unat pos mod cap r + j) [d ! j]\<rparr>"

definition write_publish :: "u64 \<Rightarrow> nat \<Rightarrow> ring \<Rightarrow> ring" where
  "write_publish pos len r = r\<lparr>head := pos + word_of_nat len\<rparr>"

text \<open>\<open>read_release\<close>: the tests before its copy, and the release after it.\<close>

definition read_check :: "ring \<Rightarrow> u64 \<Rightarrow> nat \<Rightarrow> bool" where
  "read_check r off len \<longleftrightarrow> \<not> (len = 0 \<or> cap r < len \<or> cap r < unat off mod cap r + len) \<and> \<not> head r < off + word_of_nat len"

definition read_done :: "u64 \<Rightarrow> nat \<Rightarrow> ring \<Rightarrow> ring" where
  "read_done off len r = r\<lparr>tail := off + word_of_nat len\<rparr>"

lemma try_write_split:
  "try_write r d =
     (case write_reserve r (length d) of
        None \<Rightarrow> (None, r)
      | Some pos \<Rightarrow> (Some pos, write_publish pos (length d) (r\<lparr>mem := blit (mem r) (unat pos mod cap r) d\<rparr>)))"
  by (simp add: try_write_def write_reserve_def write_publish_def Let_def)

lemma read_release_split:
  "read_release r off len =
     (if read_check r off len then (Some (slice (mem r) (unat off mod cap r) len), read_done off len r) else (None, r))"
  by (auto simp: read_release_def read_check_def read_done_def)

section \<open>Both sides at work\<close>

text \<open>
  A writing task is idle, copies, or has published a record whose reference it has not sent yet; the
  reading side waits for the next reference or copies the record it names.
\<close>

datatype writer_pc = Idle | Copying bytes u64 nat | Published bytes u64
datatype reader_pc = Awaiting | Reading bytes

text \<open>
  \<open>referred\<close> is the history of the references on the socket, each with the data it stands for; the reader
  looks at the offset and the length only. \<open>got\<close> is what reading answered, one entry per reference.
\<close>

record two_sides =
  rg :: ring
  writers :: "nat \<Rightarrow> writer_pc"
  referred :: "(u64 \<times> bytes) list"
  reader_at :: reader_pc
  got :: "bytes option list"

definition two_sides_new :: "nat \<Rightarrow> two_sides" where
  "two_sides_new c = \<lparr>rg = \<lparr>cap = c, head = 0, tail = 0, mem = replicate c 0\<rparr>, writers = (\<lambda>_. Idle), referred = [],
                   reader_at = Awaiting, got = []\<rparr>"

definition reader_start :: "u64 \<Rightarrow> nat \<Rightarrow> two_sides \<Rightarrow> two_sides" where
  "reader_start off len w =
     (if read_check (rg w) off len then w\<lparr>reader_at := Reading []\<rparr> else w\<lparr>got := got w @ [None]\<rparr>)"

text \<open>The steps, for a set of tasks that may write. A write that is refused changes nothing.\<close>

inductive shm_step :: "nat set \<Rightarrow> two_sides \<Rightarrow> two_sides \<Rightarrow> bool" for T where
  Reserve: "k \<in> T \<Longrightarrow> writers w k = Idle \<Longrightarrow> write_reserve (rg w) (length d) = Some pos \<Longrightarrow>
    shm_step T w (w\<lparr>writers := (writers w)(k := Copying d pos 0)\<rparr>)"
| Copy: "k \<in> T \<Longrightarrow> writers w k = Copying d pos j \<Longrightarrow> j < length d \<Longrightarrow>
    shm_step T w (w\<lparr>rg := write_byte pos d j (rg w), writers := (writers w)(k := Copying d pos (Suc j))\<rparr>)"
| Publish: "k \<in> T \<Longrightarrow> writers w k = Copying d pos (length d) \<Longrightarrow>
    shm_step T w (w\<lparr>rg := write_publish pos (length d) (rg w), writers := (writers w)(k := Published d pos)\<rparr>)"
| Refer: "k \<in> T \<Longrightarrow> writers w k = Published d pos \<Longrightarrow>
    shm_step T w (w\<lparr>writers := (writers w)(k := Idle), referred := referred w @ [(pos, d)]\<rparr>)"
| Start: "reader_at w = Awaiting \<Longrightarrow> length (got w) < length (referred w) \<Longrightarrow> referred w ! length (got w) = (off, d) \<Longrightarrow>
    shm_step T w (reader_start off (length d) w)"
| Fetch: "reader_at w = Reading buf \<Longrightarrow> referred w ! length (got w) = (off, d) \<Longrightarrow> length buf < length d \<Longrightarrow>
    shm_step T w (w\<lparr>reader_at := Reading (buf @ [mem (rg w) ! (unat off mod cap (rg w) + length buf)])\<rparr>)"
| Release: "reader_at w = Reading buf \<Longrightarrow> referred w ! length (got w) = (off, d) \<Longrightarrow> length buf = length d \<Longrightarrow>
    shm_step T w (w\<lparr>rg := read_done off (length d) (rg w), reader_at := Awaiting, got := got w @ [Some buf]\<rparr>)"

section \<open>An operation that is not interrupted\<close>

lemma blit_next:
  assumes "j < length d" "i + length d \<le> length m"
  shows "blit (blit m i (take j d)) (i + j) [d ! j] = blit m i (take (Suc j) d)"
proof (rule nth_equalityI)
  show "length (blit (blit m i (take j d)) (i + j) [d ! j]) = length (blit m i (take (Suc j) d))"
    using assms by simp
next
  fix k
  assume "k < length (blit (blit m i (take j d)) (i + j) [d ! j])"
  then have "k < length m" using assms by simp
  note k = this
  consider "k < i" | "i \<le> k" "k < i + j" | "k = i + j" | "i + j < k" by linarith
  then show "blit (blit m i (take j d)) (i + j) [d ! j] ! k = blit m i (take (Suc j) d) ! k"
    using assms k by cases (simp_all add: nth_blit)
qed

lemma slice_next:
  assumes "i + n \<le> length m" "j < n"
  shows "slice m i (Suc j) = slice m i j @ [m ! (i + j)]"
  using assms by (simp add: slice_def take_Suc_conv_app_nth)

lemma steps_from:
  assumes "\<And>j. j < n \<Longrightarrow> R (st j) (st (Suc j))"
  shows "R\<^sup>*\<^sup>* (st 0) (st n)"
proof -
  have "R\<^sup>*\<^sup>* (st 0) (st j)" if "j \<le> n" for j
    using that
  proof (induction j)
    case (Suc j)
    then show ?case using assms [of j] by (simp add: rtranclp.rtrancl_into_rtrancl)
  qed simp
  then show ?thesis by simp
qed

text \<open>The copy of a writing task, from its first byte to its last.\<close>

lemma copy_run:
  assumes "k \<in> T" "writers w k = Copying d pos 0" "unat pos mod cap (rg w) + length d \<le> length (mem (rg w))"
  shows "(shm_step T)\<^sup>*\<^sup>* w (w\<lparr>rg := (rg w)\<lparr>mem := blit (mem (rg w)) (unat pos mod cap (rg w)) d\<rparr>,
                            writers := (writers w)(k := Copying d pos (length d))\<rparr>)"
proof -
  define st where "st j = w\<lparr>rg := (rg w)\<lparr>mem := blit (mem (rg w)) (unat pos mod cap (rg w)) (take j d)\<rparr>,
                            writers := (writers w)(k := Copying d pos j)\<rparr>" for j
  have "shm_step T (st j) (st (Suc j))" if "j < length d" for j
  proof -
    have "st (Suc j) = st j\<lparr>rg := write_byte pos d j (rg (st j)), writers := (writers (st j))(k := Copying d pos (Suc j))\<rparr>"
      using that assms(3) by (simp add: st_def write_byte_def blit_next)
    moreover have "writers (st j) k = Copying d pos j" by (simp add: st_def)
    ultimately show ?thesis using shm_step.Copy [OF assms(1) _ that] by simp
  qed
  then have "(shm_step T)\<^sup>*\<^sup>* (st 0) (st (length d))" by (rule steps_from)
  moreover have "(writers w)(k := Copying d pos 0) = writers w" using assms(2) by (simp add: fun_upd_idem)
  then have "st 0 = w" by (simp add: st_def blit_def)
  ultimately show ?thesis by (simp add: st_def)
qed

text \<open>An uninterrupted write does what \<open>try_write\<close> does.\<close>

lemma write_run:
  assumes "k \<in> T" "writers w k = Idle" "try_write (rg w) d = (Some pos, r')"
    and "unat pos mod cap (rg w) + length d \<le> length (mem (rg w))"
  shows "(shm_step T)\<^sup>*\<^sup>* w (w\<lparr>rg := r', referred := referred w @ [(pos, d)]\<rparr>)"
proof -
  from assms(3) have res: "write_reserve (rg w) (length d) = Some pos"
    and r': "r' = write_publish pos (length d) ((rg w)\<lparr>mem := blit (mem (rg w)) (unat pos mod cap (rg w)) d\<rparr>)"
    by (auto simp: try_write_split split: option.splits)
  define w1 where "w1 = w\<lparr>writers := (writers w)(k := Copying d pos 0)\<rparr>"
  define w2 where "w2 = w1\<lparr>rg := (rg w1)\<lparr>mem := blit (mem (rg w1)) (unat pos mod cap (rg w1)) d\<rparr>,
                          writers := (writers w1)(k := Copying d pos (length d))\<rparr>"
  define w3 where "w3 = w2\<lparr>rg := write_publish pos (length d) (rg w2), writers := (writers w2)(k := Published d pos)\<rparr>"
  define w4 where "w4 = w3\<lparr>writers := (writers w3)(k := Idle), referred := referred w3 @ [(pos, d)]\<rparr>"
  have "shm_step T w w1" unfolding w1_def using assms(1,2) res by (rule shm_step.Reserve)
  moreover have "(shm_step T)\<^sup>*\<^sup>* w1 w2"
    unfolding w2_def by (rule copy_run) (use assms(1,4) in \<open>simp_all add: w1_def\<close>)
  moreover have "shm_step T w2 w3"
    unfolding w3_def by (rule shm_step.Publish) (simp_all add: assms(1) w2_def)
  moreover have "shm_step T w3 w4"
    unfolding w4_def by (rule shm_step.Refer) (simp_all add: assms(1) w3_def)
  ultimately have "(shm_step T)\<^sup>*\<^sup>* w w4"
    by (metis converse_rtranclp_into_rtranclp rtranclp.rtrancl_into_rtrancl)
  moreover have "w4 = w\<lparr>rg := r', referred := referred w @ [(pos, d)]\<rparr>"
    using assms(2) by (simp add: w4_def w3_def w2_def w1_def r' fun_upd_idem)
  ultimately show ?thesis by simp
qed

text \<open>An uninterrupted read does what \<open>read_release\<close> does.\<close>

lemma read_run:
  assumes "reader_at w = Awaiting" "length (got w) < length (referred w)" "referred w ! length (got w) = (off, d)"
    and "unat off mod cap (rg w) + length d \<le> length (mem (rg w))" "read_release (rg w) off (length d) = (Some x, r')"
  shows "(shm_step T)\<^sup>*\<^sup>* w (w\<lparr>rg := r', got := got w @ [Some x]\<rparr>)"
proof -
  from assms(5) have chk: "read_check (rg w) off (length d)"
    and x: "x = slice (mem (rg w)) (unat off mod cap (rg w)) (length d)" and r': "r' = read_done off (length d) (rg w)"
    by (auto simp: read_release_split split: if_splits)
  define i where "i = unat off mod cap (rg w)"
  define st where "st j = w\<lparr>reader_at := Reading (slice (mem (rg w)) i j)\<rparr>" for j
  have s1: "shm_step T w (st 0)"
    using shm_step.Start [OF assms(1-3), of T] chk by (simp add: reader_start_def slice_def st_def)
  have "shm_step T (st j) (st (Suc j))" if j: "j < length d" for j
  proof -
    have len: "length (slice (mem (rg w)) i j) = j" using j assms(4) by (simp add: length_slice i_def)
    have "slice (mem (rg w)) i (Suc j) = slice (mem (rg w)) i j @ [mem (rg w) ! (i + j)]"
      using j assms(4) by (intro slice_next [of _ "length d"]) (simp_all add: i_def)
    with shm_step.Fetch [of "st j" "slice (mem (rg w)) i j" off d T] assms(3) j len show ?thesis
      by (simp add: st_def i_def)
  qed
  then have s2: "(shm_step T)\<^sup>*\<^sup>* (st 0) (st (length d))" by (rule steps_from)
  define w' where "w' = st (length d)\<lparr>rg := read_done off (length d) (rg (st (length d))), reader_at := Awaiting, got := got (st (length d)) @ [Some x]\<rparr>"
  have "shm_step T (st (length d)) w'"
    unfolding w'_def by (rule shm_step.Release) (use assms(3,4) x in \<open>simp_all add: length_slice st_def i_def\<close>)
  with s1 s2 have "(shm_step T)\<^sup>*\<^sup>* w w'"
    by (metis converse_rtranclp_into_rtranclp rtranclp.rtrancl_into_rtrancl)
  moreover have "w' = w\<lparr>rg := r', got := got w @ [Some x]\<rparr>"
    using assms(1) by (simp add: w'_def st_def r')
  ultimately show ?thesis by simp
qed

section \<open>One task writes\<close>

text \<open>The records in the ring: those whose reference was not yet read, and the one being announced.\<close>

definition in_ring :: "nat \<Rightarrow> two_sides \<Rightarrow> (u64 \<times> bytes) list" where
  "in_ring k w = drop (length (got w)) (referred w) @ (case writers w k of Published d pos \<Rightarrow> [(pos, d)] | _ \<Rightarrow> [])"

text \<open>A record being copied lies in free space, and its first bytes are there.\<close>

definition copying_ok :: "ring \<Rightarrow> bytes \<Rightarrow> u64 \<Rightarrow> nat \<Rightarrow> bool" where
  "copying_ok r d pos j \<longleftrightarrow> j \<le> length d \<and> d \<noteq> [] \<and> unat (head r) \<le> unat pos \<and> unat pos mod cap r + length d \<le> cap r
     \<and> unat pos + length d \<le> unat (tail r) + cap r \<and> unat pos + length d \<le> unat (head r) + 2 * cap r
     \<and> slice (mem r) (unat pos mod cap r) j = take j d"

definition sides_ok :: "nat \<Rightarrow> nat \<Rightarrow> two_sides \<Rightarrow> bool" where
  "sides_ok c k w \<longleftrightarrow> cap (rg w) = c \<and> ring_rep (rg w) (in_ring k w)
     \<and> unat (head (rg w)) \<le> 2 * c * (length (referred w) + (case writers w k of Published _ _ \<Rightarrow> 1 | _ \<Rightarrow> 0))
     \<and> (\<forall>d pos j. writers w k = Copying d pos j \<longrightarrow> copying_ok (rg w) d pos j)
     \<and> length (got w) + (if reader_at w = Awaiting then 0 else 1) \<le> length (referred w)
     \<and> (\<forall>buf. reader_at w = Reading buf \<longrightarrow> length buf \<le> length (snd (referred w ! length (got w)))
          \<and> buf = take (length buf) (snd (referred w ! length (got w))))
     \<and> got w = map (Some \<circ> snd) (take (length (got w)) (referred w))"

lemma write_reserve_Some:
  assumes "ring_wf r" "unat (tail r) \<le> unat (head r)" "unat (head r) + 2 * cap r < 2 ^ 64"
    and "write_reserve r (length d) = Some pos"
  shows "copying_ok r d pos 0"
proof -
  have "try_write r d = (Some pos, write_publish pos (length d) (r\<lparr>mem := blit (mem r) (unat pos mod cap r) d\<rparr>))"
    using assms(4) by (simp add: try_write_split)
  from try_write_Some [OF assms(1-3) this] show ?thesis by (simp add: copying_ok_def slice_def)
qed

text \<open>Copying one more byte disturbs no record of the ring.\<close>

lemma write_byte_ok:
  assumes rep: "ring_rep r q" and ok: "copying_ok r d pos j" and j: "j < length d"
  shows "ring_rep (write_byte pos d j r) q \<and> copying_ok (write_byte pos d j r) d pos (Suc j)"
proof -
  let ?i = "unat pos mod cap r"
  have wf: "ring_wf r" and ch: "chain (unat (tail r)) q (unat (head r))" and st: "\<forall>(off, d) \<in> set q. stored r off d"
    and win: "unat (head r) \<le> unat (tail r) + cap r"
    using rep by (auto simp: ring_rep_def)
  have ok': "d \<noteq> []" "unat (head r) \<le> unat pos" "?i + length d \<le> cap r" "unat pos + length d \<le> unat (tail r) + cap r"
    "slice (mem r) ?i j = take j d"
    using ok by (simp_all add: copying_ok_def)
  have fit: "?i + j + length [d ! j] \<le> length (mem r)" using ok'(3) j wf by (simp add: ring_wf_def)
  have old: "stored (write_byte pos d j r) o' d'" if "(o', d') \<in> set q" for o' d'
  proof -
    from chain_member [OF ch that] have m: "unat (tail r) \<le> unat o'" "unat o' + length d' \<le> unat (head r)" "d' \<noteq> []"
      by auto
    from st that have s: "unat o' mod cap r + length d' \<le> cap r" "slice (mem r) (unat o' mod cap r) (length d') = d'"
      by (auto simp: stored_def)
    have "unat o' mod cap r + length d' \<le> ?i \<or> ?i + length d \<le> unat o' mod cap r"
      using m s(1) ok' wf by (intro lap_disjoint) (auto simp: ring_wf_def)
    then have "unat o' mod cap r + length d' \<le> ?i + j \<or> ?i + j + length [d ! j] \<le> unat o' mod cap r"
      using j by auto
    then have "slice (blit (mem r) (?i + j) [d ! j]) (unat o' mod cap r) (length d') = d'"
      using fit s wf by (subst slice_blit_disjoint) (auto simp: ring_wf_def)
    with s(1) show ?thesis by (simp add: stored_def write_byte_def)
  qed
  have "slice (blit (mem r) (?i + j) [d ! j]) ?i (Suc j)
      = slice (blit (mem r) (?i + j) [d ! j]) ?i j @ [blit (mem r) (?i + j) [d ! j] ! (?i + j)]"
    using fit j by (intro slice_next [of _ "Suc j"]) simp_all
  also have "\<dots> = take j d @ [d ! j]"
    using fit ok'(5) by (simp add: slice_blit_disjoint nth_blit)
  finally have "slice (mem (write_byte pos d j r)) ?i (Suc j) = take (Suc j) d"
    using j by (simp add: write_byte_def take_Suc_conv_app_nth)
  with ok j have "copying_ok (write_byte pos d j r) d pos (Suc j)"
    by (simp add: copying_ok_def write_byte_def)
  moreover have "ring_rep (write_byte pos d j r) q"
    using wf ch win old fit by (auto simp: ring_rep_def ring_wf_def write_byte_def)
  ultimately show ?thesis by simp
qed

text \<open>Publishing a copied record appends it; it is what the copy made it.\<close>

lemma write_publish_ok:
  assumes rep: "ring_rep r q" and ok: "copying_ok r d pos (length d)" and room: "unat (head r) + 2 * cap r < 2 ^ 64"
  shows "ring_rep (write_publish pos (length d) r) (q @ [(pos, d)])
    \<and> unat (head (write_publish pos (length d) r)) \<le> unat (head r) + 2 * cap r"
proof -
  have ok': "d \<noteq> []" "unat (head r) \<le> unat pos" "unat pos mod cap r + length d \<le> cap r"
    "unat pos + length d \<le> unat (tail r) + cap r" "unat pos + length d \<le> unat (head r) + 2 * cap r"
    "slice (mem r) (unat pos mod cap r) (length d) = d"
    using ok by (simp_all add: copying_ok_def)
  have nw: "unat (pos + word_of_nat (length d)) = unat pos + length d"
    using ok'(5) room by (intro unat_add_of_nat_u64) linarith
  have "chain (unat (tail r)) (q @ [(pos, d)]) (unat pos + length d)"
    using rep ok' by (intro chain_append [of _ _ "unat (head r)"]) (simp_all add: ring_rep_def)
  with rep ok' nw show ?thesis
    by (auto simp: ring_rep_def write_publish_def stored_def ring_wf_def)
qed

text \<open>What the reader finds: the record its next reference stands for is the oldest of the ring.\<close>

lemma next_record:
  assumes "sides_ok c k w" "length (got w) < length (referred w)" "referred w ! length (got w) = (off, d)"
  shows "in_ring k w = (off, d) # tl (in_ring k w)"
    and "read_check (rg w) off (length d)" "stored (rg w) off d"
    and "ring_rep (read_done off (length d) (rg w)) (tl (in_ring k w))" "unat (tail (rg w)) \<le> unat (off + word_of_nat (length d))"
proof -
  show ir: "in_ring k w = (off, d) # tl (in_ring k w)"
    using assms(2,3) by (simp add: in_ring_def Cons_nth_drop_Suc [symmetric])
  have rep: "ring_rep (rg w) ((off, d) # tl (in_ring k w))"
    using assms(1) ir by (simp add: sides_ok_def)
  from ring_rep_read [OF rep] obtain r' where r': "read_release (rg w) off (length d) = (Some d, r')"
    "ring_rep r' (tl (in_ring k w))" by blast
  then show "read_check (rg w) off (length d)" "ring_rep (read_done off (length d) (rg w)) (tl (in_ring k w))"
    by (auto simp: read_release_split split: if_splits)
  show "stored (rg w) off d" using rep by (simp add: ring_rep_def)
  have "chain (unat (tail (rg w))) ((off, d) # tl (in_ring k w)) (unat (head (rg w)))" using rep by (simp add: ring_rep_def)
  then have le: "unat (tail (rg w)) \<le> unat off" "unat off + length d \<le> unat (head (rg w))"
    by (auto dest: chain_le)
  then have "unat (off + word_of_nat (length d)) = unat off + length d"
    using unat_less_power [of "head (rg w)"] by (intro unat_add_of_nat_u64) simp
  with le show "unat (tail (rg w)) \<le> unat (off + word_of_nat (length d))" by simp
qed

lemma start_ok:
  assumes ok: "sides_ok c k w" and nx: "length (got w) < length (referred w)" "referred w ! length (got w) = (off, d)"
    and wt: "reader_at w = Awaiting"
  shows "sides_ok c k (reader_start off (length d) w)"
  using ok nx(1) wt next_record(2) [OF ok nx]
  by (simp add: reader_start_def sides_ok_def in_ring_def)

lemma fetch_ok:
  assumes ok: "sides_ok c k w" and rd: "reader_at w = Reading buf"
    and nx: "referred w ! length (got w) = (off, d)" and len: "length buf < length d"
  shows "sides_ok c k (w\<lparr>reader_at := Reading (buf @ [mem (rg w) ! (unat off mod cap (rg w) + length buf)])\<rparr>)"
proof -
  have lt: "length (got w) < length (referred w)" and b: "buf = take (length buf) d"
    using ok rd nx by (simp_all add: sides_ok_def)
  have wf: "ring_wf (rg w)" using ok by (simp add: sides_ok_def ring_rep_def)
  let ?i = "unat off mod cap (rg w)"
  have s: "slice (mem (rg w)) ?i (length d) = d" "?i + length d \<le> length (mem (rg w))"
    using next_record(3) [OF ok lt nx] wf by (simp_all add: stored_def ring_wf_def)
  have "slice (mem (rg w)) ?i (length d) ! length buf = mem (rg w) ! (?i + length buf)"
    using len s(2) by (simp add: slice_def)
  then have "mem (rg w) ! (?i + length buf) = d ! length buf" using s(1) by simp
  with b len have "buf @ [mem (rg w) ! (?i + length buf)] = take (Suc (length buf)) d"
    by (simp add: take_Suc_conv_app_nth)
  with ok rd nx len show ?thesis by (simp add: sides_ok_def in_ring_def)
qed

lemma release_ok:
  assumes ok: "sides_ok c k w" and rd: "reader_at w = Reading buf"
    and nx: "referred w ! length (got w) = (off, d)" and len: "length buf = length d"
  shows "sides_ok c k (w\<lparr>rg := read_done off (length d) (rg w), reader_at := Awaiting, got := got w @ [Some buf]\<rparr>)"
proof -
  have lt: "length (got w) < length (referred w)" and b: "buf = d"
    using ok rd nx len by (simp_all add: sides_ok_def)
  note nr = next_record [OF ok lt nx]
  let ?w = "w\<lparr>rg := read_done off (length d) (rg w), reader_at := Awaiting, got := got w @ [Some buf]\<rparr>"
  have "in_ring k ?w = tl (in_ring k w)"
    using lt by (simp add: in_ring_def drop_Suc tl_drop tl_append2)
  moreover have "got w @ [Some buf] = map (Some \<circ> snd) (take (Suc (length (got w))) (referred w))"
    using ok lt nx b by (simp add: sides_ok_def take_Suc_conv_app_nth)
  moreover have "copying_ok (read_done off (length d) (rg w)) e pos j" if "copying_ok (rg w) e pos j" for e pos j
    using that nr(5) by (simp add: copying_ok_def read_done_def)
  ultimately show ?thesis
    using ok lt nr(4) by (simp add: sides_ok_def) (simp add: read_done_def)
qed

lemma room: "sides_ok c k w \<Longrightarrow> \<forall>d pos. writers w k \<noteq> Published d pos \<Longrightarrow> 2 * c * Suc (length (referred w)) < 2 ^ 64 \<Longrightarrow>
    ring_wf (rg w) \<and> unat (tail (rg w)) \<le> unat (head (rg w)) \<and> unat (head (rg w)) + 2 * cap (rg w) < 2 ^ 64"
  by (auto simp: sides_ok_def ring_rep_def split: writer_pc.splits dest: chain_le)

lemma shm_step_ok:
  assumes "shm_step {k} w w'" "sides_ok c k w" "2 * c * Suc (length (referred w')) < 2 ^ 64"
  shows "sides_ok c k w'"
  using assms
proof (induction rule: shm_step.induct)
  case (Reserve k' w d pos)
  then have r: "ring_wf (rg w) \<and> unat (tail (rg w)) \<le> unat (head (rg w)) \<and> unat (head (rg w)) + 2 * cap (rg w) < 2 ^ 64"
    by (intro room [of c k]) simp_all
  with Reserve have "copying_ok (rg w) d pos 0" by (intro write_reserve_Some) simp_all
  with Reserve show ?case by (simp add: sides_ok_def in_ring_def)
next
  case (Copy k' w d pos j)
  then have "ring_rep (rg w) (in_ring k w)" "copying_ok (rg w) d pos j" by (simp_all add: sides_ok_def)
  from write_byte_ok [OF this Copy(3)] Copy show ?case
    by (auto simp: sides_ok_def in_ring_def write_byte_def)
next
  case (Publish k' w d pos)
  then have r: "unat (head (rg w)) + 2 * cap (rg w) < 2 ^ 64" by (intro room [of c k, THEN conjunct2, THEN conjunct2]) simp_all
  from Publish have "ring_rep (rg w) (in_ring k w)" "copying_ok (rg w) d pos (length d)" by (simp_all add: sides_ok_def)
  from write_publish_ok [OF this r] Publish show ?case
    by (auto simp: sides_ok_def in_ring_def write_publish_def)
next
  case (Refer k' w d pos)
  then have "length (got w) \<le> length (referred w)" by (simp add: sides_ok_def split: if_splits)
  with Refer show ?case by (auto simp: sides_ok_def in_ring_def nth_append take_append)
next
  case (Start w off d)
  then show ?case by (intro start_ok) simp_all
next
  case (Fetch w buf off d)
  then show ?case by (intro fetch_ok) simp_all
next
  case (Release w buf off d)
  then show ?case by (intro release_ok) simp_all
qed

lemma shm_step_referred: "shm_step T w w' \<Longrightarrow> length (referred w) \<le> length (referred w')"
  by (induction rule: shm_step.induct) (simp_all add: reader_start_def)

lemma two_sides_new_ok: "0 < c \<Longrightarrow> c \<le> MAX_SHM_CAP \<Longrightarrow> sides_ok c k (two_sides_new c)"
  using ring_rep_fresh [of c] by (simp add: sides_ok_def two_sides_new_def in_ring_def)

section \<open>Properties\<close>

text \<open>C10. One task writes: the ring is a first-in first-out channel even when the copies of both sides
  interleave byte by byte. What the reader got is, record by record, the data the references stand for:
  nothing is read before it is complete, overwritten before it is released, lost or repeated. The bound
  keeps the 64-bit cursors from wrapping.\<close>

theorem one_writer_ring_is_a_queue:
  assumes "(shm_step {k})\<^sup>*\<^sup>* (two_sides_new c) w" "0 < c" "c \<le> MAX_SHM_CAP" "2 * c * Suc (length (referred w)) < 2 ^ 64"
  shows "got w = map (Some \<circ> snd) (take (length (got w)) (referred w))"
proof -
  have "sides_ok c k w"
    using assms(1,4)
  proof (induction rule: rtranclp_induct)
    case base
    show ?case using assms(2,3) by (rule two_sides_new_ok)
  next
    case (step v w)
    have "2 * c * Suc (length (referred v)) \<le> 2 * c * Suc (length (referred w))"
      using shm_step_referred [OF step(2)] by (intro mult_le_mono) simp_all
    from step.IH [OF le_less_trans [OF this step.prems]] step.prems show ?case
      by (rule shm_step_ok [OF step.hyps(2)])
  qed
  then show ?thesis by (simp add: sides_ok_def)
qed

theorem one_writer_ring_is_a_queue_witness:
  "\<exists>w. (shm_step {0})\<^sup>*\<^sup>* (two_sides_new 8) w \<and> length (got w) = 1 \<and> got w = [Some [1, 2]] \<and> length (referred w) = 2"
proof -
  define w0 where "w0 = two_sides_new 8"
  define w1 where "w1 = w0\<lparr>rg := snd (try_write (rg w0) [1, 2]), referred := referred w0 @ [(0, [1, 2])]\<rparr>"
  define w2 where "w2 = w1\<lparr>rg := snd (try_write (rg w1) [3]), referred := referred w1 @ [(2, [3])]\<rparr>"
  define w3 where "w3 = w2\<lparr>rg := snd (read_release (rg w2) 0 2), got := got w2 @ [Some [1, 2]]\<rparr>"
  have t1: "try_write (rg w0) [1, 2] = (Some 0, \<lparr>cap = 8, head = 2, tail = 0, mem = [1, 2, 0, 0, 0, 0, 0, 0]\<rparr>)"
    unfolding w0_def by code_simp
  then have r1: "rg w1 = \<lparr>cap = 8, head = 2, tail = 0, mem = [1, 2, 0, 0, 0, 0, 0, 0]\<rparr>" by (simp add: w1_def)
  have t2: "try_write (rg w1) [3] = (Some 2, \<lparr>cap = 8, head = 3, tail = 0, mem = [1, 2, 3, 0, 0, 0, 0, 0]\<rparr>)"
    unfolding r1 by code_simp
  then have r2: "rg w2 = \<lparr>cap = 8, head = 3, tail = 0, mem = [1, 2, 3, 0, 0, 0, 0, 0]\<rparr>" by (simp add: w2_def)
  have t3: "read_release (rg w2) 0 2 = (Some [1, 2], \<lparr>cap = 8, head = 3, tail = 2, mem = [1, 2, 3, 0, 0, 0, 0, 0]\<rparr>)"
    unfolding r2 by code_simp
  have f: "writers w0 0 = Idle" "writers w1 0 = Idle" "reader_at w2 = Awaiting" "got w2 = []" "referred w2 = [(0, [1, 2]), (2, [3])]"
    by (simp_all add: w2_def w1_def w0_def two_sides_new_def)
  have "(shm_step {0})\<^sup>*\<^sup>* w0 w1"
    unfolding w1_def by (rule write_run [where k = 0]) (use t1 f in \<open>simp_all add: w0_def two_sides_new_def\<close>)
  moreover have "(shm_step {0})\<^sup>*\<^sup>* w1 w2"
    unfolding w2_def by (rule write_run [where k = 0]) (use t2 f r1 in simp_all)
  moreover have "(shm_step {0})\<^sup>*\<^sup>* w2 w3"
    unfolding w3_def by (rule read_run [where off = 0 and d = "[1, 2]"]) (use t3 f r2 in \<open>simp_all add: numeral_2_eq_2\<close>)
  ultimately have run: "(shm_step {0})\<^sup>*\<^sup>* (two_sides_new 8) w3"
    unfolding w0_def by (blast intro: rtranclp_trans)
  have l: "length (got w3) = 1" "referred w3 = [(0, [1, 2]), (2, [3])]" by (simp_all add: w3_def f)
  have "got w3 = map (Some \<circ> snd) (take (length (got w3)) (referred w3))"
    using run by (rule one_writer_ring_is_a_queue) (simp_all add: l MAX_SHM_CAP_def)
  with run l show ?thesis by (intro exI [of _ w3]) simp
qed

text \<open>The steps of a second writer, between the loads of a first one and its copy.\<close>

lemma both_reserve:
  assumes "k \<noteq> l" "0 < c" "c \<le> MAX_SHM_CAP" "length d = n" "length e = n" "0 < n" "n \<le> c"
  defines "r \<equiv> \<lparr>cap = c, head = word_of_nat n, tail = 0, mem = blit (blit (replicate c 0) 0 d) 0 e\<rparr>"
  shows "(shm_step {k, l})\<^sup>*\<^sup>* (two_sides_new c) ((two_sides_new c)\<lparr>rg := r, referred := [(0, d), (0, e)]\<rparr>)"
proof -
  let ?R = "shm_step {k, l}"
  define pc where "pc a b = (\<lambda>_ :: nat. Idle)(k := a, l := b)" for a b
  define st where "st r a b q = (two_sides_new c)\<lparr>rg := r, writers := pc a b, referred := q\<rparr>" for r a b q
  have pc: "pc a b k = a" "pc a b l = b" "(pc a b)(k := x) = pc x b" "(pc a b)(l := x) = pc a x" for a b x
    using assms(1) by (auto simp: pc_def)
  have f: "rg (st r a b q) = r" "writers (st r a b q) = pc a b" "referred (st r a b q) = q"
    "(st r a b q)\<lparr>writers := pc a' b'\<rparr> = st r a' b' q" "(st r a b q)\<lparr>rg := r', writers := pc a' b'\<rparr> = st r' a' b' q"
    "(st r a b q)\<lparr>referred := q'\<rparr> = st r a b q'" for r a b q r' a' b' q'
    by (simp_all add: st_def)
  let ?r0 = "\<lparr>cap = c, head = 0, tail = 0, mem = replicate c 0\<rparr>"
  let ?r1 = "?r0\<lparr>mem := blit (replicate c 0) 0 d\<rparr>"
  let ?r2 = "?r0\<lparr>mem := blit (blit (replicate c 0) 0 d) 0 e\<rparr>"
  have big: "c < 2 ^ 64" using assms(3) by (simp add: MAX_SHM_CAP_def)
  have res: "write_reserve ?r0 n = Some 0"
    using assms(6,7) of_nat_less_u64 [OF big, of "word_of_nat n"] big
    by (simp add: write_reserve_def Let_def unat_of_nat_u64 not_less)
  have start: "two_sides_new c = st ?r0 Idle Idle []" by (simp add: st_def two_sides_new_def pc_def fun_eq_iff)
  have "?R (st ?r0 Idle Idle []) (st ?r0 (Copying d 0 0) Idle [])"
    using shm_step.Reserve [of k "{k, l}" "st ?r0 Idle Idle []" d 0] by (simp add: f pc res assms(4))
  moreover have "?R (st ?r0 (Copying d 0 0) Idle []) (st ?r0 (Copying d 0 0) (Copying e 0 0) [])"
    using shm_step.Reserve [of l "{k, l}" "st ?r0 (Copying d 0 0) Idle []" e 0] by (simp add: f pc res assms(5))
  ultimately have r2: "?R\<^sup>*\<^sup>* (two_sides_new c) (st ?r0 (Copying d 0 0) (Copying e 0 0) [])"
    unfolding start by simp
  have "?R\<^sup>*\<^sup>* (st ?r0 (Copying d 0 0) (Copying e 0 0) []) (st ?r1 (Copying d 0 n) (Copying e 0 0) [])"
    using copy_run [of k "{k, l}" "st ?r0 (Copying d 0 0) (Copying e 0 0) []" d 0] by (simp add: f pc assms(4,7))
  moreover have "?R\<^sup>*\<^sup>* (st ?r1 (Copying d 0 n) (Copying e 0 0) []) (st ?r2 (Copying d 0 n) (Copying e 0 n) [])"
    using copy_run [of l "{k, l}" "st ?r1 (Copying d 0 n) (Copying e 0 0) []" e 0] by (simp add: f pc assms(4,5,7))
  ultimately have r4: "?R\<^sup>*\<^sup>* (two_sides_new c) (st ?r2 (Copying d 0 n) (Copying e 0 n) [])"
    using r2 by (blast intro: rtranclp_trans)
  have "?R (st ?r2 (Copying d 0 n) (Copying e 0 n) []) (st r (Published d 0) (Copying e 0 n) [])"
    using shm_step.Publish [of k "{k, l}" "st ?r2 (Copying d 0 n) (Copying e 0 n) []" d 0]
    by (simp add: f pc assms(4) write_publish_def r_def)
  moreover have "?R (st r (Published d 0) (Copying e 0 n) []) (st r (Published d 0) (Published e 0) [])"
    using shm_step.Publish [of l "{k, l}" "st r (Published d 0) (Copying e 0 n) []" e 0]
    by (simp add: f pc assms(5) write_publish_def r_def)
  ultimately have r6: "?R\<^sup>*\<^sup>* (two_sides_new c) (st r (Published d 0) (Published e 0) [])" using r4 by simp
  have "?R (st r (Published d 0) (Published e 0) []) (st r Idle (Published e 0) [(0, d)])"
    using shm_step.Refer [of k "{k, l}" "st r (Published d 0) (Published e 0) []" d 0] by (simp add: f pc)
  moreover have "?R (st r Idle (Published e 0) [(0, d)]) (st r Idle Idle [(0, d), (0, e)])"
    using shm_step.Refer [of l "{k, l}" "st r Idle (Published e 0) [(0, d)]" e 0] by (simp add: f pc)
  ultimately have "?R\<^sup>*\<^sup>* (two_sides_new c) (st r Idle Idle [(0, d), (0, e)])" using r6 by simp
  moreover have "pc Idle Idle = (\<lambda>_. Idle)" by (auto simp: pc_def)
  then have "st r Idle Idle [(0, d), (0, e)] = (two_sides_new c)\<lparr>rg := r, referred := [(0, d), (0, e)]\<rparr>"
    by (simp add: st_def two_sides_new_def)
  ultimately show ?thesis by simp
qed



end
